(* ===== verification/Prelude.thy ===== *)
theory Prelude
  imports Main "HOL-Library.Word" "HOL-Library.Char_ord" "HOL-Library.List_Lexorder"
    "HOL-Library.Multiset" "HOL-Library.Signed_Division"
begin

text \<open>
  Shared vocabulary of the development: the fixed-width integers of the C++ code, its
  exceptions as a sum type, the character classes and decimal formatting it uses from the
  standard library, and generic list facts the components share.

  \<^item> \<open>'a result\<close> is \<open>exn + 'a\<close>: \<open>Inl e\<close> is a thrown exception, \<open>Inr v\<close> a returned value.
    \<open>Diverges\<close> marks a call that does not return; no \<open>catch\<close> clause of the program stops it.
  \<^item> strings are byte strings (\<open>char list\<close>), ordered lexicographically by unsigned byte, which
    is what \<open>std::string::operator<\<close> computes.
\<close>

unbundle bit_operations_syntax

section \<open>Fixed-width integers\<close>

type_synonym u8 = "8 word"
type_synonym u16 = "16 word"
type_synonym u32 = "32 word"
type_synonym u64 = "64 word"
type_synonym i32 = "32 word"
type_synonym i64 = "64 word"

lemma sint_eq_unat:
  assumes "unat (w :: 'a::len word) < 2 ^ (LENGTH('a) - 1)"
  shows "sint w = int (unat w)"
proof -
  have "int (unat w) < int (2 ^ (LENGTH('a) - 1))" using assms by (simp only: of_nat_less_iff)
  then have "uint w < 2 ^ (LENGTH('a) - 1)" by simp
  then have "signed_take_bit (LENGTH('a) - 1) (uint w) = uint w"
    by (intro signed_take_bit_int_eq_self) (auto intro: order_trans[OF _ uint_ge_0])
  then show ?thesis by (simp add: sint_uint)
qed

lemma sint_nonneg_unat:
  assumes "0 \<le> sint (w :: 'a::len word)"
  shows "unat w < 2 ^ (LENGTH('a) - 1) \<and> sint w = int (unat w)"
proof -
  have lt: "sint w < 2 ^ (LENGTH('a) - 1)" by (rule sint_lt)
  also have "(2::int) ^ (LENGTH('a) - 1) \<le> 2 ^ LENGTH('a)" by (simp add: power_increasing)
  finally have "take_bit LENGTH('a) (sint w) = sint w"
    using assms by (simp add: take_bit_int_eq_self_iff)
  then have "sint w = int (unat w)" by (simp add: uint_sint[symmetric])
  with lt show ?thesis by (metis of_nat_less_iff of_nat_numeral of_nat_power)
qed

section \<open>Exceptions\<close>

datatype exn =
    Invalid_Argument string
  | Runtime_Error string
  | Http_Status_Error string int
  | Invalid_Http_Response string
  | Other_Exception string
  | Diverges

type_synonym 'a result = "exn + 'a"

fun rbind :: "'a result \<Rightarrow> ('a \<Rightarrow> 'b result) \<Rightarrow> 'b result" where
  "rbind (Inl e) f = Inl e"
| "rbind (Inr v) f = f v"

named_theorems result_simps \<open>case analysis of fallible computations\<close>

lemma rbind_eq_Inr [result_simps]: "rbind r f = Inr v \<longleftrightarrow> (\<exists>u. r = Inr u \<and> f u = Inr v)"
  by (cases r) auto

lemma rbind_eq_Inl [result_simps]:
  "rbind r f = Inl e \<longleftrightarrow> r = Inl e \<or> (\<exists>u. r = Inr u \<and> f u = Inl e)"
  by (cases r) auto

lemma rbind_assoc: "rbind (rbind r f) g = rbind r (\<lambda>v. rbind (f v) g)"
  by (cases r) auto

section \<open>Characters\<close>

text \<open>\<open>std::isspace\<close> and \<open>std::tolower\<close> in the default \<open>C\<close> locale.\<close>

definition is_space :: "char \<Rightarrow> bool" where
  "is_space c \<longleftrightarrow> (let n = of_char c :: nat in n = 32 \<or> (9 \<le> n \<and> n \<le> 13))"

definition to_lower :: "char \<Rightarrow> char" where
  "to_lower c = (let n = of_char c :: nat in if 65 \<le> n \<and> n \<le> 90 then char_of (n + 32) else c)"

lemma to_lower_idem [simp]: "to_lower (to_lower c) = to_lower c"
  by (simp add: to_lower_def Let_def)

lemma is_space_to_lower [simp]: "is_space (to_lower c) = is_space c"
  by (auto simp: is_space_def to_lower_def Let_def)

section \<open>Decimal output of unsigned integers\<close>

text \<open>\<open>std::to_string\<close> and \<open>operator<<\<close> on unsigned integers.\<close>

definition digit_char :: "nat \<Rightarrow> char" where
  "digit_char d = char_of (48 + d)"

fun to_string :: "nat \<Rightarrow> string" where
  "to_string n = (if n < 10 then [digit_char n] else to_string (n div 10) @ [digit_char (n mod 10)])"

declare to_string.simps [simp del]

definition is_digit :: "char \<Rightarrow> bool" where
  "is_digit c \<longleftrightarrow> 48 \<le> (of_char c :: nat) \<and> (of_char c :: nat) \<le> 57"

fun parse_decimal :: "nat \<Rightarrow> string \<Rightarrow> nat" where
  "parse_decimal acc [] = acc"
| "parse_decimal acc (c # cs) = parse_decimal (10 * acc + (of_char c - 48)) cs"

lemma of_char_digit [simp]: "d < 10 \<Longrightarrow> of_char (digit_char d) = 48 + d"
  by (simp add: digit_char_def)

lemma is_digit_digit_char: "d < 10 \<Longrightarrow> is_digit (digit_char d)"
  by (simp add: is_digit_def)

lemma parse_decimal_append: "parse_decimal acc (xs @ ys) = parse_decimal (parse_decimal acc xs) ys"
  by (induction xs arbitrary: acc) auto

lemma to_string_nonempty [simp]: "to_string n \<noteq> []"
  by (subst to_string.simps) simp

lemma to_string_digits: "c \<in> set (to_string n) \<Longrightarrow> is_digit c"
proof (induction n arbitrary: c rule: to_string.induct)
  case (1 n)
  then show ?case
    by (subst (asm) to_string.simps) (auto split: if_splits simp: is_digit_digit_char)
qed

lemma parse_decimal_to_string: "parse_decimal 0 (to_string n) = n"
proof (induction n rule: to_string.induct)
  case (1 n)
  show ?case
  proof (cases "n < 10")
    case True
    then show ?thesis by (simp add: to_string.simps[of n])
  next
    case False
    with "1.IH" have "parse_decimal 0 (to_string (n div 10)) = n div 10" by simp
    with False show ?thesis
      by (simp add: to_string.simps[of n] parse_decimal_append)
  qed
qed

lemma to_string_inject [simp]: "to_string m = to_string n \<longleftrightarrow> m = n"
  by (metis parse_decimal_to_string)

section \<open>Scanning to a delimiter\<close>

lemma length_after_delimiter: "s \<noteq> [] \<Longrightarrow> length (tl (dropWhile P s)) < length s"
  using length_dropWhile_le[of P s] by (cases s) auto

lemma takeWhile_before: "c \<notin> set xs \<Longrightarrow> takeWhile (\<lambda>x. x \<noteq> c) (xs @ c # ys) = xs"
  by (induction xs) auto

lemma dropWhile_before: "c \<notin> set xs \<Longrightarrow> dropWhile (\<lambda>x. x \<noteq> c) (xs @ c # ys) = c # ys"
  by (induction xs) auto

lemma takeWhile_absent: "c \<notin> set xs \<Longrightarrow> takeWhile (\<lambda>x. x \<noteq> c) xs = xs"
  by (induction xs) auto

section \<open>Maxima\<close>

lemma fold_max_ge: "x \<in> set xs \<or> x = m \<Longrightarrow> x \<le> fold max xs m" for x :: "'a::linorder"
  unfolding Max.set_eq_fold[symmetric] by (rule Max_ge) auto

section \<open>Sorting by a key\<close>

text \<open>
  \<open>std::sort\<close> with a comparator \<open>key a < key b\<close> returns some permutation that is sorted by the
  key. The model uses the stable \<open>sort_key\<close>; where the keys of the elements are pairwise
  different every such permutation is the same list.
\<close>

lemma sorted_permutation_unique:
  fixes key :: "'a \<Rightarrow> 'k::linorder"
  assumes "mset ys = mset xs" "sorted (map key ys)" "inj_on key (set xs)"
  shows "ys = sort_key key xs"
  using assms by (metis sort_key_inj_key_eq)

text \<open>\<open>std::unique\<close> followed by \<open>erase\<close> is \<open>remdups_adj\<close>.\<close>

lemma sorted_map_remdups_adj: "sorted (map f xs) \<Longrightarrow> sorted (map f (remdups_adj xs))"
  by (induction xs rule: remdups_adj.induct) auto

lemma remdups_adj_map_inj_on: "inj_on f (set xs) \<Longrightarrow> remdups_adj (map f xs) = map f (remdups_adj xs)"
  by (induction xs rule: remdups_adj.induct) (auto simp: inj_on_def)

lemma distinct_remdups_adj_sorted: "sorted xs \<Longrightarrow> distinct (remdups_adj xs)" for xs :: "'a::linorder list"
  by (induction xs rule: remdups_adj.induct) auto

end
