(* ===== verification/Murmur3.thy ===== *)
theory Murmur3
  imports Prelude
begin

text \<open>
  \<open>src/src/murmur3.cpp\<close>: the first half of MurmurHash3 x64-128 with seed zero, over the bytes of a
  buffer, with 64-bit wrap-around arithmetic. The code handles the last partial block by a
  \<open>switch\<close> that falls through; the reference definition pads it with zero bytes to a full block.
\<close>

section \<open>The code\<close>

definition mm_c1 :: u64 where "mm_c1 = 0x87c37b91114253d5"
definition mm_c2 :: u64 where "mm_c2 = 0x4cf5ad432745937f"
definition mm_fmix1 :: u64 where "mm_fmix1 = 0xff51afd7ed558ccd"
definition mm_fmix2 :: u64 where "mm_fmix2 = 0xc4ceb9fe1a85ec53"

definition Rotl :: "u64 \<Rightarrow> nat \<Rightarrow> u64" where
  "Rotl x r = push_bit r x OR drop_bit (64 - r) x"

definition Fmix :: "u64 \<Rightarrow> u64" where
  "Fmix k0 =
     (let k = k0 XOR drop_bit 33 k0;
          k = k * mm_fmix1;
          k = k XOR drop_bit 33 k;
          k = k * mm_fmix2;
          k = k XOR drop_bit 33 k
      in k)"

definition ReadLittleEndian64 :: "u8 list \<Rightarrow> u64" where
  "ReadLittleEndian64 data = fold (\<lambda>i out. out OR push_bit (8 * i) (ucast (data ! i))) [0..<8] 0"

text \<open>The body of the block loop; \<open>data\<close> points at the block.\<close>

definition Murmur3H1_block :: "u8 list \<Rightarrow> u64 \<times> u64 \<Rightarrow> u64 \<times> u64" where
  "Murmur3H1_block data h =
     (let (h1, h2) = h;
          k1 = ReadLittleEndian64 data;
          k2 = ReadLittleEndian64 (drop 8 data);
          k1 = k1 * mm_c1;
          k1 = Rotl k1 31;
          k1 = k1 * mm_c2;
          h1 = h1 XOR k1;
          h1 = Rotl h1 27;
          h1 = h1 + h2;
          h1 = h1 * 5 + 0x52dce729;
          k2 = k2 * mm_c2;
          k2 = Rotl k2 33;
          k2 = k2 * mm_c1;
          h2 = h2 XOR k2;
          h2 = Rotl h2 31;
          h2 = h2 + h1;
          h2 = h2 * 5 + 0x38495ab5
      in (h1, h2))"

text \<open>
  The \<open>switch\<close> on the tail: case \<open>n\<close> runs its statements and falls through to case \<open>n - 1\<close>.
  Cases 15 to 10 shift byte \<open>n - 1\<close> into \<open>k2\<close>, case 9 the last one and mixes \<open>k2\<close> into \<open>h2\<close>;
  cases 8 to 2 and case 1 do the same with \<open>k1\<close> and \<open>h1\<close>.
\<close>

fun Murmur3H1_tail :: "u8 list \<Rightarrow> nat \<Rightarrow> u64 \<Rightarrow> u64 \<Rightarrow> u64 \<times> u64 \<Rightarrow> u64 \<times> u64" where
  "Murmur3H1_tail tail 0 k1 k2 (h1, h2) = (h1, h2)"
| "Murmur3H1_tail tail (Suc m) k1 k2 (h1, h2) =
     (if 9 \<le> m then
        Murmur3H1_tail tail m k1 (k2 XOR push_bit (8 * (m - 8)) (ucast (tail ! m))) (h1, h2)
      else if m = 8 then
        (let k2 = k2 XOR ucast (tail ! 8);
             k2 = k2 * mm_c2;
             k2 = Rotl k2 33;
             k2 = k2 * mm_c1;
             h2 = h2 XOR k2
         in Murmur3H1_tail tail m k1 k2 (h1, h2))
      else if 1 \<le> m then
        Murmur3H1_tail tail m (k1 XOR push_bit (8 * m) (ucast (tail ! m))) k2 (h1, h2)
      else
        (let k1 = k1 XOR ucast (tail ! 0);
             k1 = k1 * mm_c1;
             k1 = Rotl k1 31;
             k1 = k1 * mm_c2;
             h1 = h1 XOR k1
         in (h1, h2)))"

definition Murmur3H1_finish :: "u64 \<Rightarrow> u64 \<times> u64 \<Rightarrow> i64" where
  "Murmur3H1_finish len h =
     (let (h1, h2) = h;
          h1 = h1 XOR len;
          h2 = h2 XOR len;
          h1 = h1 + h2;
          h2 = h2 + h1;
          h1 = Fmix h1;
          h2 = Fmix h2;
          h1 = h1 + h2
      in h1)"

definition Murmur3H1Bytes :: "u8 list \<Rightarrow> i64" where
  "Murmur3H1Bytes data =
     (let nblocks = length data div 16;
          h = fold (\<lambda>i. Murmur3H1_block (drop (i * 16) data)) [0..<nblocks] (0, 0);
          tail = drop (nblocks * 16) data
      in Murmur3H1_finish (word_of_nat (length data))
           (Murmur3H1_tail tail (length data AND 15) 0 0 h))"

text \<open>The overload on \<open>std::string_view\<close> reads its characters as bytes.\<close>

definition Murmur3H1 :: "string \<Rightarrow> i64" where
  "Murmur3H1 s = Murmur3H1Bytes (map of_char s)"

section \<open>Little-endian words\<close>

definition le_word :: "u8 list \<Rightarrow> u64" where
  "le_word bs = word_rcat (rev bs)"

lemma bit_le_word: "bit (le_word bs) n \<longleftrightarrow> n < 64 \<and> n < 8 * length bs \<and> bit (bs ! (n div 8)) (n mod 8)"
proof -
  have "n div 8 < length bs \<longleftrightarrow> n < 8 * length bs" by (simp add: less_mult_imp_div_less div_less_iff_less_mult ac_simps)
  moreover have "bit (horner_sum uint 256 bs) n \<longleftrightarrow> n div 8 < length bs \<and> bit (bs ! (n div 8)) (n mod 8)"
    using bit_horner_sum_uint_exp_iff[of bs n] by simp
  ultimately show ?thesis by (auto simp: le_word_def word_rcat_def bit_word_of_int_iff)
qed

lemma byte_index:
  fixes n :: nat
  assumes "8 * i \<le> n" "n < 8 * i + 8"
  shows "n div 8 = i" "n mod 8 = n - 8 * i"
proof -
  show "n div 8 = i" using assms by (intro div_nat_eqI) auto
  then show "n mod 8 = n - 8 * i" by (simp flip: minus_mult_div_eq_mod)
qed

lemma bit_shifted_byte:
  "bit (push_bit (8 * i) (ucast (b :: u8)) :: u64) n \<longleftrightarrow> n < 64 \<and> 8 * i \<le> n \<and> n < 8 * i + 8 \<and> bit b (n mod 8)"
proof -
  have "n - 8 * i = n mod 8" if "8 * i \<le> n" "n < 8 * i + 8" using byte_index(2)[OF that] by simp
  moreover have "n < 8 * i + 8" if "8 * i \<le> n" "bit b (n - 8 * i)"
    using that(2) bit_imp_le_length[of b "n - 8 * i"] by simp
  ultimately show ?thesis
    using bit_imp_le_length[of b] by (auto simp: bit_push_bit_iff bit_ucast_iff possible_bit_def)
qed

lemma le_word_Nil [simp]: "le_word [] = 0"
  by (rule bit_word_eqI) (simp add: bit_le_word)

lemma bit_snoc_byte:
  "bit (le_word (bs @ [b])) n \<longleftrightarrow>
     bit (le_word bs) n \<or> bit (push_bit (8 * length bs) (ucast b) :: u64) n"
proof -
  have "n div 8 = length bs" if "8 * length bs \<le> n" "n < 8 * length bs + 8" using byte_index(1)[OF that] .
  moreover have "n div 8 < length bs" if "n < 8 * length bs" using that by (simp add: less_mult_imp_div_less ac_simps)
  ultimately show ?thesis by (auto simp: bit_le_word bit_shifted_byte nth_append not_less)
qed

lemma bit_snoc_disjoint: "\<not> (bit (le_word bs) n \<and> bit (push_bit (8 * length bs) (ucast b) :: u64) n)" for b :: u8
  by (auto simp: bit_le_word bit_shifted_byte)

lemma le_word_snoc_OR: "le_word (bs @ [b]) = le_word bs OR push_bit (8 * length bs) (ucast b)"
  by (rule bit_word_eqI) (auto simp: bit_snoc_byte bit_or_iff)

lemma le_word_snoc_XOR: "le_word (bs @ [b]) = le_word bs XOR push_bit (8 * length bs) (ucast b)"
  using bit_snoc_disjoint[of bs _ b] by (intro bit_word_eqI) (auto simp: bit_snoc_byte bit_xor_iff)

lemma le_word_take_Suc:
  "m < length bs \<Longrightarrow> le_word (take (Suc m) bs) = le_word (take m bs) XOR push_bit (8 * m) (ucast (bs ! m))"
  by (simp add: take_Suc_conv_app_nth le_word_snoc_XOR)

lemma le_word_pad: "le_word (bs @ replicate k 0) = le_word bs"
  by (rule bit_word_eqI) (auto simp: bit_le_word nth_append)

lemma ReadLittleEndian64_le_word: "8 \<le> length bs \<Longrightarrow> ReadLittleEndian64 bs = le_word (take 8 bs)"
proof -
  assume len: "8 \<le> length bs"
  have "fold (\<lambda>i out. out OR push_bit (8 * i) (ucast (bs ! i))) [0..<n] 0 = le_word (take n bs)"
    if "n \<le> length bs" for n
    using that by (induction n) (auto simp: take_Suc_conv_app_nth le_word_snoc_OR)
  with len show ?thesis by (simp add: ReadLittleEndian64_def)
qed

section \<open>The reference\<close>

definition mix_k1 :: "u64 \<Rightarrow> u64" where "mix_k1 k = Rotl (k * mm_c1) 31 * mm_c2"
definition mix_k2 :: "u64 \<Rightarrow> u64" where "mix_k2 k = Rotl (k * mm_c2) 33 * mm_c1"

text \<open>
  A block is two little-endian words. The last block, if the input does not end on a block
  boundary, is padded with zeros and mixed in without the per-block scrambling of the state.
\<close>

fun ref_blocks :: "u8 list \<Rightarrow> u64 \<times> u64 \<Rightarrow> u64 \<times> u64" where
  "ref_blocks bs (h1, h2) =
     (if length bs < 16 then
        (let p = bs @ replicate (16 - length bs) 0
         in (h1 XOR mix_k1 (le_word (take 8 p)), h2 XOR mix_k2 (le_word (drop 8 p))))
      else
        (let h1' = (Rotl (h1 XOR mix_k1 (le_word (take 8 bs))) 27 + h2) * 5 + 0x52dce729;
             h2' = (Rotl (h2 XOR mix_k2 (le_word (take 8 (drop 8 bs)))) 31 + h1') * 5 + 0x38495ab5
         in ref_blocks (drop 16 bs) (h1', h2')))"

declare ref_blocks.simps [simp del]

definition murmur3_ref :: "u8 list \<Rightarrow> u64" where
  "murmur3_ref bs = Murmur3H1_finish (word_of_nat (length bs)) (ref_blocks bs (0, 0))"

lemma mix_zero [simp]: "mix_k1 0 = 0" "mix_k2 0 = 0"
  by (simp_all add: mix_k1_def mix_k2_def Rotl_def)

lemma tail_k1:
  "Suc m \<le> 8 \<Longrightarrow> Suc m \<le> length tail \<Longrightarrow>
     Murmur3H1_tail tail (Suc m) k1 k2 (h1, h2) = (h1 XOR mix_k1 (k1 XOR le_word (take (Suc m) tail)), h2)"
proof (induction m arbitrary: k1)
  case 0
  then show ?case using le_word_take_Suc[of 0 tail] by (cases tail) (simp_all add: Let_def mix_k1_def)
next
  case (Suc m)
  then show ?case by (simp add: le_word_take_Suc[of "Suc m"] ac_simps)
qed

lemma tail_k1':
  "m \<le> 8 \<Longrightarrow> m \<le> length tail \<Longrightarrow> Murmur3H1_tail tail m 0 k2 (h1, h2) = (h1 XOR mix_k1 (le_word (take m tail)), h2)"
  using tail_k1[of "m - 1" tail 0] by (cases m) auto

lemma tail_k2:
  "m + 9 \<le> length tail \<Longrightarrow>
     Murmur3H1_tail tail (m + 9) 0 k2 (h1, h2) =
       (h1 XOR mix_k1 (le_word (take 8 tail)), h2 XOR mix_k2 (k2 XOR le_word (take (Suc m) (drop 8 tail))))"
proof (induction m arbitrary: k2)
  case 0
  have "Murmur3H1_tail tail (Suc 8) 0 k2 (h1, h2) =
      (h1 XOR mix_k1 (le_word (take 8 tail)), h2 XOR mix_k2 (k2 XOR ucast (tail ! 8)))"
    using 0 by (simp only: Murmur3H1_tail.simps) (simp add: Let_def mix_k2_def tail_k1')
  with 0 le_word_take_Suc[of 0 "drop 8 tail"] show ?case by simp
next
  case (Suc m)
  have "Murmur3H1_tail tail (Suc (m + 9)) 0 k2 (h1, h2) =
      Murmur3H1_tail tail (m + 9) 0 (k2 XOR push_bit (8 * Suc m) (ucast (tail ! (m + 9)))) (h1, h2)"
    by (simp only: Murmur3H1_tail.simps) (simp add: Suc_diff_le)
  with Suc le_word_take_Suc[of "Suc m" "drop 8 tail"] show ?case by (simp add: ac_simps)
qed

lemma tail_ref:
  assumes "length bs < 16"
  shows "Murmur3H1_tail bs (length bs) 0 0 (h1, h2) = ref_blocks bs (h1, h2)"
proof (cases "length bs \<le> 8")
  case True
  then have "le_word (take 8 (bs @ replicate (16 - length bs) 0)) = le_word bs"
    "le_word (drop 8 (bs @ replicate (16 - length bs) 0)) = 0"
    using le_word_pad[of bs] le_word_pad[of "[]"] by simp_all
  with True show ?thesis by (simp add: tail_k1' ref_blocks.simps)
next
  case False
  then have "le_word (take 8 (bs @ replicate (16 - length bs) 0)) = le_word (take 8 bs)"
    "le_word (drop 8 (bs @ replicate (16 - length bs) 0)) = le_word (drop 8 bs)"
    using le_word_pad[of "drop 8 bs"] by simp_all
  with False assms show ?thesis
    using tail_k2[of "length bs - 9" bs 0 h1 h2] by (simp add: ref_blocks.simps Suc_diff_le)
qed

lemma block_ref:
  assumes "16 \<le> length bs"
  shows "ref_blocks bs h = ref_blocks (drop 16 bs) (Murmur3H1_block bs h)"
  using assms
  by (cases h) (simp add: ref_blocks.simps[of bs] Murmur3H1_block_def ReadLittleEndian64_le_word
      mix_k1_def mix_k2_def Let_def)

lemma blocks_ref:
  "ref_blocks bs h = ref_blocks (drop (n * 16) bs) (fold (\<lambda>i. Murmur3H1_block (drop (i * 16) bs)) [0..<n] h)"
  if "n * 16 \<le> length bs"
  using that
proof (induction n)
  case (Suc n)
  then have "16 \<le> length (drop (n * 16) bs)" by simp
  with Suc block_ref[of "drop (n * 16) bs"] show ?case by simp
qed simp

lemmas Murmur3H1_tail_numeral =
  Murmur3H1_tail.simps(2)[of _ "pred_numeral v", folded numeral_eq_Suc] for v

lemma and_15: "(n :: nat) AND 15 = n mod 16"
  using take_bit_eq_mask[of 4 n] by (simp add: mask_eq_exp_minus_1 take_bit_eq_mod)

text \<open>
  \<^bold>\<open>C7\<close>: the hash with its unrolled, falling-through tail equals the reference definition that pads
  the last partial block with zero bytes and reads every block as two little-endian words.
\<close>

theorem Murmur3H1Bytes_reference: "Murmur3H1Bytes data = murmur3_ref data"
proof -
  let ?n = "length data div 16"
  let ?tail = "drop (?n * 16) data"
  obtain h1 h2 where h: "fold (\<lambda>i. Murmur3H1_block (drop (i * 16) data)) [0..<?n] (0, 0) = (h1, h2)"
    by (cases "fold (\<lambda>i. Murmur3H1_block (drop (i * 16) data)) [0..<?n] (0, 0)")
  have "length ?tail = length data mod 16" by (simp add: minus_div_mult_eq_mod)
  then have "Murmur3H1_tail ?tail (length data AND 15) 0 0 (h1, h2) = ref_blocks ?tail (h1, h2)"
    using tail_ref[of ?tail h1 h2] by (simp add: and_15)
  also have "\<dots> = ref_blocks data (0, 0)" using blocks_ref[of ?n data "(0, 0)"] h by simp
  finally show ?thesis by (simp add: Murmur3H1Bytes_def murmur3_ref_def Let_def h)
qed

end
