(* ===== verification/Attribute_Value.thy ===== *)
theory Attribute_Value
  imports Murmur3
begin

text \<open>
  \<open>src/src/attribute_value.cpp\<close>: the hash of a partition key value. The bytes hashed are a type
  prefix followed by the value, so values of different types never share an encoding.
\<close>

datatype AttributeValueType = String_Type | Number_Type | Binary_Type

definition type_prefix_s :: u8 where "type_prefix_s = 0x01"
definition type_prefix_n :: u8 where "type_prefix_n = 0x02"
definition type_prefix_b :: u8 where "type_prefix_b = 0x03"

definition HashPrefixed :: "u8 \<Rightarrow> string \<Rightarrow> i64" where
  "HashPrefixed prefix value = Murmur3H1Bytes ([prefix] @ map of_char value)"

fun HashAttributeValue :: "AttributeValueType \<Rightarrow> string \<Rightarrow> i64" where
  "HashAttributeValue String_Type value = HashPrefixed type_prefix_s value"
| "HashAttributeValue Number_Type value = HashPrefixed type_prefix_n value"
| "HashAttributeValue Binary_Type value = HashPrefixed type_prefix_b value"

definition HashBinaryAttributeValue :: "u8 list \<Rightarrow> i64" where
  "HashBinaryAttributeValue value = Murmur3H1Bytes ([type_prefix_b] @ value)"

section \<open>Properties\<close>

text \<open>The bytes a value is hashed as, and their values as a reference hash.\<close>

fun encode_value :: "AttributeValueType \<Rightarrow> string \<Rightarrow> u8 list" where
  "encode_value String_Type v = 1 # map of_char v"
| "encode_value Number_Type v = 2 # map of_char v"
| "encode_value Binary_Type v = 3 # map of_char v"

lemma of_char_u8_inject [simp]: "(of_char c :: u8) = of_char d \<longleftrightarrow> c = d"
proof -
  have "unat (word_of_nat (of_char c) :: u8) = of_char c" for c
    by (simp only: unsigned_of_nat) (simp add: take_bit_eq_mod)
  then have "unat (of_char c :: u8) = of_char c" for c by (simp only: of_nat_of_char)
  then show ?thesis by (metis of_char_eq_iff)
qed

lemma map_of_char_inject: "map (of_char :: char \<Rightarrow> u8) xs = map of_char ys \<longleftrightarrow> xs = ys"
  by (rule inj_map_eq_map) (simp add: inj_def)

text \<open>
  a key value is hashed as the MurmurHash3 reference hash of its encoding, and the encoding
  separates types and values: two values with the same encoding have the same type and content.
\<close>

theorem HashAttributeValue_encoding:
  "HashAttributeValue ty v = murmur3_ref (encode_value ty v) \<and>
   HashBinaryAttributeValue bs = murmur3_ref (encode_value Binary_Type (map (char_of \<circ> unat) bs)) \<and>
   (encode_value ty v = encode_value ty' v' \<longleftrightarrow> ty = ty' \<and> v = v')"
proof -
  have "of_char (char_of (unat b)) = b" for b :: u8
  proof -
    have "word_of_nat (of_char (char_of (unat b))) = b"
      using unsigned_less[of b, where ?'a = nat] by (simp add: of_char_of)
    then show ?thesis by (simp only: of_nat_of_char)
  qed
  then have "map (of_char \<circ> (char_of \<circ> unat)) bs = bs" by (simp add: comp_def)
  then have "HashBinaryAttributeValue bs = murmur3_ref (encode_value Binary_Type (map (char_of \<circ> unat) bs))"
    by (simp add: HashBinaryAttributeValue_def Murmur3H1Bytes_reference type_prefix_b_def comp_assoc)
  then show ?thesis
    by (cases ty; cases ty')
      (simp_all add: HashPrefixed_def Murmur3H1Bytes_reference map_of_char_inject
        type_prefix_s_def type_prefix_n_def type_prefix_b_def)
qed

end
