(* ===== verification/Hash_Vectors.thy ===== *)
theory Hash_Vectors
  imports Attribute_Value
begin

text \<open>
  The partition key hash on the vectors of \<open>src/tests/attribute_value_test.cpp\<close>, computed by the
  simplifier from the model's definitions.
\<close>

text \<open>
  the hashes of the vectors shared with the other Alternator clients, evaluated in full.
\<close>

theorem HashAttributeValue_test_vectors:
  "HashAttributeValue String_Type [] = 8849112093580131862 \<and>
   HashAttributeValue String_Type ''hello'' = 8815023923555918238 \<and>
   sint (HashAttributeValue Number_Type ''42'') = - 5061732451827723051 \<and>
   HashBinaryAttributeValue [1, 2, 3] = 5026299041734804437 \<and>
   HashBinaryAttributeValue [] = 8244620721157455449"
  by (simp add: HashPrefixed_def HashBinaryAttributeValue_def Murmur3H1Bytes_def Murmur3H1_finish_def Fmix_def
      Rotl_def and_15 Murmur3H1_tail_numeral mm_c1_def mm_c2_def mm_fmix1_def mm_fmix2_def
      type_prefix_s_def type_prefix_n_def type_prefix_b_def)

end
