(* ===== verification/Io_Stream.thy ===== *)
theory Io_Stream
  imports Prelude
begin

text \<open>
  What the program uses of \<open>std::iostream\<close>: bodies of requests and responses are streams that are positioned,
  read and written, and every operation acts on the state bits of the stream.

  A stream is its state bits with a device: the bytes it holds, the two positions, and what the device
  cannot do. A device may refuse to be positioned, may not know its size, may fail when it is read past a
  point (an exception in the stream buffer, which the stream turns into \<open>badbit\<close>) and may hold a limited number of
  bytes. A string stream has none of these restrictions.
\<close>

record IOStream =
  io_data :: string
  io_get :: nat
  io_put :: nat
  io_eof :: bool
  io_fail :: bool
  io_bad :: bool
  io_seekable :: bool
  io_tells :: bool
  io_faulty_at :: "nat option"
  io_limit :: "nat option"

definition StringStream :: IOStream where
  "StringStream = \<lparr>io_data = [], io_get = 0, io_put = 0, io_eof = False, io_fail = False, io_bad = False,
     io_seekable = True, io_tells = True, io_faulty_at = None, io_limit = None\<rparr>"

section \<open>Operations\<close>

text \<open>\<open>good\<close>, and \<open>fail\<close>, which is also \<open>operator!\<close>.\<close>

definition io_good :: "IOStream \<Rightarrow> bool" where
  "io_good s \<longleftrightarrow> \<not> io_eof s \<and> \<not> io_fail s \<and> \<not> io_bad s"

definition io_failed :: "IOStream \<Rightarrow> bool" where
  "io_failed s \<longleftrightarrow> io_fail s \<or> io_bad s"

definition clear :: "IOStream \<Rightarrow> IOStream" where
  "clear s = s\<lparr>io_eof := False, io_fail := False, io_bad := False\<rparr>"

text \<open>\<open>seekg\<close> clears \<open>eofbit\<close> first and does nothing on a failed stream.\<close>

definition seekg :: "nat \<Rightarrow> IOStream \<Rightarrow> IOStream" where
  "seekg pos s =
     (let s' = s\<lparr>io_eof := False\<rparr> in
      if io_failed s' then s' else if io_seekable s' then s'\<lparr>io_get := pos\<rparr> else s'\<lparr>io_fail := True\<rparr>)"

definition seekg_beg :: "IOStream \<Rightarrow> IOStream" where
  "seekg_beg s = seekg 0 s"

definition seekg_end :: "IOStream \<Rightarrow> IOStream" where
  "seekg_end s = seekg (length (io_data s)) s"

text \<open>The positions, \<open>None\<close> for \<open>-1\<close>.\<close>

definition tellg :: "IOStream \<Rightarrow> nat option" where
  "tellg s = (if io_failed s \<or> \<not> io_tells s then None else Some (io_get s))"

definition tellp :: "IOStream \<Rightarrow> nat option" where
  "tellp s = (if io_failed s \<or> \<not> io_tells s then None else Some (io_put s))"

definition io_faulty_read :: "nat \<Rightarrow> IOStream \<Rightarrow> bool" where
  "io_faulty_read pos s \<longleftrightarrow> (case io_faulty_at s of None \<Rightarrow> False | Some k \<Rightarrow> k < pos)"

text \<open>\<open>read\<close> with the bytes \<open>gcount\<close> counts: too few bytes set \<open>eofbit\<close> and \<open>failbit\<close>.\<close>

definition io_read :: "nat \<Rightarrow> IOStream \<Rightarrow> string \<times> IOStream" where
  "io_read n s =
     (if \<not> io_good s then ([], s\<lparr>io_fail := True\<rparr>)
      else if io_faulty_read (io_get s + n) s then ([], s\<lparr>io_bad := True\<rparr>)
      else
        (let bytes = take n (drop (io_get s) (io_data s));
             s' = s\<lparr>io_get := io_get s + length bytes\<rparr>
         in (bytes, if length bytes < n then s'\<lparr>io_eof := True, io_fail := True\<rparr> else s')))"

text \<open>\<open>istreambuf_iterator\<close> reads the device to its end, whatever the state bits are; an exception passes.\<close>

definition io_read_all :: "IOStream \<Rightarrow> string result \<times> IOStream" where
  "io_read_all s =
     (if io_faulty_read (max (io_get s) (length (io_data s)) + 1) s then (Inl (Other_Exception ''stream buffer''), s)
      else (Inr (drop (io_get s) (io_data s)), s\<lparr>io_get := max (io_get s) (length (io_data s))\<rparr>))"

definition io_write :: "string \<Rightarrow> IOStream \<Rightarrow> IOStream" where
  "io_write bytes s =
     (if \<not> io_good s then s\<lparr>io_fail := True\<rparr>
      else if (case io_limit s of None \<Rightarrow> False | Some k \<Rightarrow> k < io_put s + length bytes) then s\<lparr>io_bad := True\<rparr>
      else s\<lparr>io_data := take (io_put s) (io_data s) @ bytes @ drop (io_put s + length bytes) (io_data s),
             io_put := io_put s + length bytes\<rparr>)"

text \<open>All bytes are in the device already.\<close>

definition io_flush :: "IOStream \<Rightarrow> IOStream" where
  "io_flush s = s"

section \<open>Streams without faults\<close>

named_theorems io_simps \<open>operations of streams\<close>

lemmas io_defs [io_simps] = io_good_def io_failed_def clear_def seekg_def seekg_beg_def seekg_end_def tellg_def tellp_def
  io_faulty_read_def io_flush_def

text \<open>A stream that delivers all its bytes from the current position on.\<close>

definition io_readable :: "IOStream \<Rightarrow> bool" where
  "io_readable s \<longleftrightarrow> io_good s \<and> io_faulty_at s = None"

definition io_rest :: "IOStream \<Rightarrow> string" where
  "io_rest s = drop (io_get s) (io_data s)"

text \<open>A stream that takes any number of bytes at its end.\<close>

definition io_writable :: "IOStream \<Rightarrow> bool" where
  "io_writable s \<longleftrightarrow> io_good s \<and> io_limit s = None \<and> io_put s = length (io_data s)"

lemma io_read_readable:
  assumes "io_readable s"
  shows "io_read n s =
    (take n (io_rest s),
     if length (io_rest s) < n then s\<lparr>io_get := io_get s + length (io_rest s), io_eof := True, io_fail := True\<rparr>
     else s\<lparr>io_get := io_get s + n\<rparr>)"
  using assms by (auto simp: io_read_def io_readable_def io_rest_def io_faulty_read_def Let_def)

lemma io_rest_advance [simp]: "io_rest (s\<lparr>io_get := io_get s + n\<rparr>) = drop n (io_rest s)"
  by (simp add: io_rest_def add.commute)

lemma io_readable_advance [simp]: "io_readable (s\<lparr>io_get := n\<rparr>) = io_readable s"
  by (simp add: io_readable_def io_good_def)

lemma io_write_writable:
  assumes "io_writable s"
  shows "io_write bytes s = s\<lparr>io_data := io_data s @ bytes, io_put := length (io_data s @ bytes)\<rparr>"
  using assms by (simp add: io_write_def io_writable_def)

lemma io_writable_append [simp]:
  "io_writable (s\<lparr>io_data := xs, io_put := n\<rparr>) \<longleftrightarrow> io_good s \<and> io_limit s = None \<and> n = length xs"
  by (simp add: io_writable_def io_good_def)

lemma io_writable_StringStream [simp]: "io_writable StringStream" "io_data StringStream = []"
  by (simp_all add: io_writable_def io_good_def StringStream_def)

end
