(* ===== verification/Http_Compression.thy ===== *)
theory Http_Compression
  imports Io_Stream
begin

text \<open>
  \<open>src/src/http_compression.cpp\<close>: the content codings of HTTP bodies. Header values are parsed and
  normalised, the configured decoders are collected into a table without duplicates, and a
  response body is decoded by undoing its codings from the last to the first.

  The virtual classes \<open>HttpContentEncodingDecoder\<close> and \<open>HttpRequestCompressor\<close> of \<open>config.h\<close> are
  implemented by the user: an object is a record of its methods, a null pointer is \<open>None\<close>, and a
  method may throw. A compressor reads one stream and writes another, and leaves both in a new state.
\<close>

section \<open>Data\<close>

record HttpContentEncodingDecoder =
  AcceptedResponseEncodings :: "string list"
  Decoder_Decode :: "string \<Rightarrow> string \<Rightarrow> string result"

record HttpRequestCompressor =
  Compressor_ContentEncoding :: string
  Compressor_Compress :: "IOStream \<Rightarrow> u64 \<Rightarrow> IOStream \<Rightarrow> bool result \<times> IOStream \<times> IOStream"

record ContentEncodingDecoderEntry =
  entry_encoding :: string
  entry_decoder :: HttpContentEncodingDecoder

section \<open>Operations\<close>

definition TrimAscii :: "string \<Rightarrow> string" where
  "TrimAscii value =
     (let first = length (takeWhile is_space value);
          last = length value - length (takeWhile is_space (rev value))
      in if last \<le> first then [] else take (last - first) (drop first value))"

definition ToLowerAscii :: "string \<Rightarrow> string" where
  "ToLowerAscii value = map to_lower value"

definition NormalizeResponseEncoding :: "string \<Rightarrow> string" where
  "NormalizeResponseEncoding encoding = ToLowerAscii (TrimAscii encoding)"

text \<open>One round of the loop takes the token before the next comma; without a comma it is the last.\<close>

function ParseContentEncodings :: "string \<Rightarrow> string list" where
  "ParseContentEncodings content_encoding =
     (let token = ToLowerAscii (TrimAscii (takeWhile (\<lambda>c. c \<noteq> CHR '','') content_encoding));
          comma = dropWhile (\<lambda>c. c \<noteq> CHR '','') content_encoding;
          here = (if token \<noteq> [] then [token] else [])
      in if comma = [] then here else here @ ParseContentEncodings (tl comma))"
  by pat_completeness auto
termination
  by (relation "measure length") (auto intro!: length_after_delimiter simp del: length_tl)

declare ParseContentEncodings.simps [simp del]

definition NormalizeRequestEncoding :: "HttpRequestCompressor option \<Rightarrow> string result" where
  "NormalizeRequestEncoding request_compressor =
     (case request_compressor of
        None \<Rightarrow> Inr []
      | Some compressor \<Rightarrow>
          (let encoding = NormalizeResponseEncoding (Compressor_ContentEncoding compressor) in
           if encoding = [] then
             Inl (Invalid_Argument ''request_compressor must not advertise an empty encoding'')
           else if CHR '','' \<in> set encoding then
             Inl (Invalid_Argument ''request_compressor must advertise exactly one encoding'')
           else Inr encoding))"

fun add_encodings ::
  "HttpContentEncodingDecoder \<Rightarrow> string list \<Rightarrow> ContentEncodingDecoderEntry list \<Rightarrow>
   ContentEncodingDecoderEntry list result" where
  "add_encodings decoder [] entries = Inr entries"
| "add_encodings decoder (encoding # encodings) entries =
     (let normalized = NormalizeResponseEncoding encoding in
      if normalized = [] then
        Inl (Invalid_Argument ''content_encoding_decoders must not advertise empty encodings'')
      else if \<exists>entry \<in> set entries. entry_encoding entry = normalized then
        Inl (Invalid_Argument
          (''content_encoding_decoders must not advertise duplicate response encoding: '' @ normalized))
      else add_encodings decoder encodings
             (entries @ [\<lparr>entry_encoding = normalized, entry_decoder = decoder\<rparr>]))"

fun BuildDecoderEntries_loop ::
  "HttpContentEncodingDecoder option list \<Rightarrow> ContentEncodingDecoderEntry list \<Rightarrow>
   ContentEncodingDecoderEntry list result" where
  "BuildDecoderEntries_loop [] entries = Inr entries"
| "BuildDecoderEntries_loop (None # decoders) entries =
     Inl (Invalid_Argument ''content_encoding_decoders must not contain null values'')"
| "BuildDecoderEntries_loop (Some decoder # decoders) entries =
     (if AcceptedResponseEncodings decoder = [] then
        Inl (Invalid_Argument ''content_encoding_decoders must advertise at least one encoding'')
      else rbind (add_encodings decoder (AcceptedResponseEncodings decoder) entries) (\<lambda>entries'.
        BuildDecoderEntries_loop decoders entries'))"

definition BuildDecoderEntries ::
  "HttpContentEncodingDecoder option list \<Rightarrow> ContentEncodingDecoderEntry list result" where
  "BuildDecoderEntries content_encoding_decoders = BuildDecoderEntries_loop content_encoding_decoders []"

definition FindDecoderEntry ::
  "ContentEncodingDecoderEntry list \<Rightarrow> string \<Rightarrow> ContentEncodingDecoderEntry option" where
  "FindDecoderEntry entries encoding = find (\<lambda>entry. entry_encoding entry = encoding) entries"

definition BuildRequestContentEncodingValue :: "HttpRequestCompressor option \<Rightarrow> string result" where
  "BuildRequestContentEncodingValue request_compressor = NormalizeRequestEncoding request_compressor"

definition BuildAcceptEncodingValue :: "HttpContentEncodingDecoder option list \<Rightarrow> string result" where
  "BuildAcceptEncodingValue content_encoding_decoders =
     rbind (BuildDecoderEntries content_encoding_decoders) (\<lambda>entries.
       Inr (fold (\<lambda>entry value. (if value \<noteq> [] then value @ '', '' else value) @ entry_encoding entry) entries []))"

text \<open>\<open>std::getline\<close>: the lines of a stream, without an empty line after a final line feed.\<close>

function getlines :: "string \<Rightarrow> string list" where
  "getlines s =
     (if s = [] then []
      else takeWhile (\<lambda>c. c \<noteq> CHR 0x0A) s # getlines (tl (dropWhile (\<lambda>c. c \<noteq> CHR 0x0A) s)))"
  by pat_completeness auto
termination
  by (relation "measure length") (simp_all add: length_after_delimiter del: length_tl)

declare getlines.simps [simp del]

definition header_line :: "string \<Rightarrow> string \<Rightarrow> string \<Rightarrow> string" where
  "header_line wanted line0 value =
     (let line = (if line0 \<noteq> [] \<and> last line0 = CHR 0x0D then butlast line0 else line0) in
      if take 5 line = ''HTTP/'' then []
      else if CHR '':'' \<notin> set line then value
      else
        (let header_name = ToLowerAscii (TrimAscii (takeWhile (\<lambda>c. c \<noteq> CHR '':'') line)) in
         if header_name = wanted then TrimAscii (tl (dropWhile (\<lambda>c. c \<noteq> CHR '':'') line)) else value))"

definition FindHttpHeaderValue :: "string \<Rightarrow> string \<Rightarrow> string" where
  "FindHttpHeaderValue headers name =
     fold (header_line (ToLowerAscii name)) (getlines headers) []"

fun decode_loop ::
  "ContentEncodingDecoderEntry list \<Rightarrow> string list \<Rightarrow> string \<Rightarrow> string result" where
  "decode_loop decoder_entries [] body = Inr body"
| "decode_loop decoder_entries (encoding # encodings) body =
     (if encoding = ''identity'' then decode_loop decoder_entries encodings body
      else case FindDecoderEntry decoder_entries encoding of
             None \<Rightarrow> Inl (Runtime_Error (''unexpected HTTP content encoding: '' @ encoding))
           | Some entry \<Rightarrow>
               rbind (Decoder_Decode (entry_decoder entry) body encoding) (\<lambda>body'.
                 decode_loop decoder_entries encodings body'))"

definition DecodeHttpResponseBody ::
  "string \<Rightarrow> string \<Rightarrow> HttpContentEncodingDecoder option list \<Rightarrow> string result" where
  "DecodeHttpResponseBody body content_encoding content_encoding_decoders =
     (let encodings = ParseContentEncodings content_encoding in
      if encodings = [] then Inr body
      else rbind (BuildDecoderEntries content_encoding_decoders) (\<lambda>decoder_entries.
        decode_loop decoder_entries (rev encodings) body))"

section \<open>Trimming and tokens\<close>

text \<open>A word that trimming leaves alone: it is empty or begins and ends with a visible character.\<close>

definition trimmed :: "string \<Rightarrow> bool" where
  "trimmed s \<longleftrightarrow> s = [] \<or> (\<not> is_space (hd s) \<and> \<not> is_space (last s))"

lemma takeWhile_space:
  "\<forall>c \<in> set f. is_space c \<Longrightarrow> m \<noteq> [] \<Longrightarrow> \<not> is_space (hd m) \<Longrightarrow> takeWhile is_space (f @ m @ l) = f"
  by (cases m) (auto simp: takeWhile_append)

lemma Trim_parts:
  assumes "\<forall>c \<in> set f. is_space c" "\<forall>c \<in> set l. is_space c" "trimmed m"
  shows "TrimAscii (f @ m @ l) = m"
proof (cases "m = []")
  case True
  with assms have "takeWhile is_space (f @ m @ l) = f @ m @ l" by (auto simp: takeWhile_eq_all_conv)
  then have "TrimAscii (f @ m @ l) = []" unfolding TrimAscii_def Let_def by (simp only: length_append) simp
  with True show ?thesis by simp
next
  case False
  with assms have "takeWhile is_space (f @ m @ l) = f" by (intro takeWhile_space) (auto simp: trimmed_def)
  moreover have "takeWhile is_space (rev (f @ m @ l)) = rev l"
    using assms False takeWhile_space[of "rev l" "rev m" "rev f"] by (simp add: trimmed_def hd_rev)
  ultimately show ?thesis using False by (simp add: TrimAscii_def Let_def)
qed

lemma parts_exist:
  obtains f m l where "s = f @ m @ l" "\<forall>c \<in> set f. is_space c" "\<forall>c \<in> set l. is_space c" "trimmed m"
proof -
  define r where "r = dropWhile is_space s"
  define d where "d = dropWhile is_space (rev r)"
  have "rev r = takeWhile is_space (rev r) @ d" by (simp add: d_def)
  then have r: "r = rev d @ rev (takeWhile is_space (rev r))" by (metis rev_append rev_rev_ident)
  have "\<not> is_space (hd d)" if "d \<noteq> []" using that hd_dropWhile[of is_space "rev r"] by (simp add: d_def)
  moreover have "\<not> is_space (hd r)" if "r \<noteq> []" using that hd_dropWhile[of is_space s] by (simp add: r_def)
  then have "\<not> is_space (hd (rev d))" if "d \<noteq> []"
    using that r by (metis append_is_Nil_conv hd_append2 rev_is_Nil_conv)
  ultimately have "trimmed (rev d)" by (auto simp: trimmed_def last_rev)
  moreover have "s = takeWhile is_space s @ rev d @ rev (takeWhile is_space (rev r))"
    using r by (metis r_def takeWhile_dropWhile_id)
  ultimately show thesis by (intro that) (auto dest: set_takeWhileD)
qed

lemma Trim_id: "trimmed s \<Longrightarrow> TrimAscii s = s"
  using Trim_parts[of "[]" "[]" s] by simp

lemma trimmed_Trim [simp]: "trimmed (TrimAscii s)"
  by (rule parts_exist[of s]) (simp add: Trim_parts)

lemma Trim_append_space: "\<forall>c \<in> set ws. is_space c \<Longrightarrow> TrimAscii (ws @ s) = TrimAscii s"
proof (rule parts_exist[of s])
  fix f m l
  assume ws: "\<forall>c \<in> set ws. is_space c"
    and s: "s = f @ m @ l" "\<forall>c \<in> set f. is_space c" "\<forall>c \<in> set l. is_space c" "trimmed m"
  then show "TrimAscii (ws @ s) = TrimAscii s"
    using Trim_parts[of "ws @ f" l m] Trim_parts[of f l m] by auto
qed

lemma Trim_idem [simp]: "TrimAscii (TrimAscii s) = TrimAscii s"
  by (simp add: Trim_id)

lemma ToLower_idem [simp]: "ToLowerAscii (ToLowerAscii s) = ToLowerAscii s"
  by (simp add: ToLowerAscii_def)

lemma trimmed_ToLower [simp]: "trimmed (ToLowerAscii s) = trimmed s"
  by (auto simp: trimmed_def ToLowerAscii_def hd_map last_map)

lemma Normalize_idem [simp]: "NormalizeResponseEncoding (NormalizeResponseEncoding s) = NormalizeResponseEncoding s"
  by (simp add: NormalizeResponseEncoding_def Trim_id)

text \<open>Coding names as they are after normalisation.\<close>

definition coding :: "string \<Rightarrow> bool" where
  "coding e \<longleftrightarrow> e \<noteq> [] \<and> CHR '','' \<notin> set e \<and> NormalizeResponseEncoding e = e"

fun join_codings :: "string list \<Rightarrow> string" where
  "join_codings [] = []"
| "join_codings [e] = e"
| "join_codings (e # es) = e @ '', '' @ join_codings es"

lemma Parse_token:
  "ParseContentEncodings (t @ CHR '','' # s) =
     (if NormalizeResponseEncoding t \<noteq> [] then [NormalizeResponseEncoding t] else []) @ ParseContentEncodings s"
  if "CHR '','' \<notin> set t"
  using that by (subst ParseContentEncodings.simps)
    (simp add: takeWhile_before dropWhile_before NormalizeResponseEncoding_def Let_def)

lemma Parse_last:
  "ParseContentEncodings t = (if NormalizeResponseEncoding t \<noteq> [] then [NormalizeResponseEncoding t] else [])"
  if "CHR '','' \<notin> set t"
  using that by (subst ParseContentEncodings.simps)
    (auto simp: takeWhile_absent NormalizeResponseEncoding_def Let_def dropWhile_eq_Nil_conv)

lemma Parse_space: "ParseContentEncodings (CHR '' '' # s) = ParseContentEncodings s"
  using Trim_append_space[of "'' ''" "takeWhile (\<lambda>c. c \<noteq> CHR '','') s"]
  by (subst (1 2) ParseContentEncodings.simps) (simp add: is_space_def)

lemma Parse_join: "Ball (set es) coding \<Longrightarrow> ParseContentEncodings (join_codings es) = es"
proof (induction es rule: join_codings.induct)
  case 1
  then show ?case by (simp add: Parse_last NormalizeResponseEncoding_def TrimAscii_def ToLowerAscii_def)
next
  case (2 e)
  then show ?case by (simp add: Parse_last coding_def)
next
  case (3 e e' es)
  then show ?case by (simp add: Parse_token Parse_space coding_def)
qed

section \<open>The decoder table\<close>

definition entries_of :: "HttpContentEncodingDecoder \<Rightarrow> ContentEncodingDecoderEntry list" where
  "entries_of d = map (\<lambda>e. \<lparr>entry_encoding = NormalizeResponseEncoding e, entry_decoder = d\<rparr>) (AcceptedResponseEncodings d)"

lemma add_encodings_Inr:
  "add_encodings d es entries = Inr entries' \<longleftrightarrow>
     entries' = entries @ map (\<lambda>e. \<lparr>entry_encoding = NormalizeResponseEncoding e, entry_decoder = d\<rparr>) es \<and>
     (\<forall>e \<in> set es. NormalizeResponseEncoding e \<noteq> []) \<and>
     distinct (map NormalizeResponseEncoding es) \<and>
     NormalizeResponseEncoding ` set es \<inter> entry_encoding ` set entries = {}"
proof (induction es arbitrary: entries)
  case (Cons e es)
  have "(\<exists>x \<in> set entries. entry_encoding x = NormalizeResponseEncoding e) \<longleftrightarrow>
      NormalizeResponseEncoding e \<in> entry_encoding ` set entries" by force
  then show ?case by (simp only: add_encodings.simps) (auto simp: Let_def Cons)
qed auto

lemma Build_loop_Inr:
  "distinct (map entry_encoding entries) \<Longrightarrow>
   BuildDecoderEntries_loop ds entries = Inr entries' \<longleftrightarrow>
     None \<notin> set ds \<and> (\<forall>d. Some d \<in> set ds \<longrightarrow> AcceptedResponseEncodings d \<noteq> []) \<and>
     entries' = entries @ concat (map (entries_of \<circ> the) ds) \<and>
     distinct (map entry_encoding entries') \<and>
     [] \<notin> entry_encoding ` set (concat (map (entries_of \<circ> the) ds))"
proof (induction ds entries rule: BuildDecoderEntries_loop.induct)
  case (3 d ds entries)
  let ?es = "entries @ entries_of d"
  have map: "map entry_encoding (entries_of d) = map NormalizeResponseEncoding (AcceptedResponseEncodings d)"
    by (simp add: entries_of_def)
  have add: "add_encodings d (AcceptedResponseEncodings d) entries = Inr es' \<longleftrightarrow>
      es' = ?es \<and> distinct (map entry_encoding ?es) \<and> [] \<notin> entry_encoding ` set (entries_of d)" for es'
    using 3(2) unfolding add_encodings_Inr entries_of_def by (auto simp: comp_def image_iff)
  show ?case
  proof (cases "distinct (map entry_encoding ?es) \<and> [] \<notin> entry_encoding ` set (entries_of d) \<and>
      AcceptedResponseEncodings d \<noteq> []")
    case True
    then have "add_encodings d (AcceptedResponseEncodings d) entries = Inr ?es" using add by simp
    with True 3(1)[of ?es] show ?thesis by auto
  next
    case False
    have split: "entries @ concat (map (entries_of \<circ> the) (Some d # ds)) =
        ?es @ concat (map (entries_of \<circ> the) ds)" by simp
    have "distinct (map entry_encoding ?es)" "[] \<notin> entry_encoding ` set (entries_of d)"
      if "distinct (map entry_encoding entries')" "entries' = entries @ concat (map (entries_of \<circ> the) (Some d # ds))"
        "[] \<notin> entry_encoding ` set (concat (map (entries_of \<circ> the) (Some d # ds)))"
      using that unfolding split by (simp_all add: image_Un Int_Un_distrib)
    with False have "\<not> (AcceptedResponseEncodings d \<noteq> [] \<and>
        entries' = entries @ concat (map (entries_of \<circ> the) (Some d # ds)) \<and> distinct (map entry_encoding entries') \<and>
        [] \<notin> entry_encoding ` set (concat (map (entries_of \<circ> the) (Some d # ds))))" by blast
    moreover have "BuildDecoderEntries_loop (Some d # ds) entries \<noteq> Inr entries'"
      using False add by (auto simp: result_simps)
    ultimately show ?thesis by (metis list.set_intros(1))
  qed
qed auto

lemma BuildDecoderEntries_Inr:
  "BuildDecoderEntries ds = Inr entries \<longleftrightarrow>
     None \<notin> set ds \<and> (\<forall>d. Some d \<in> set ds \<longrightarrow> AcceptedResponseEncodings d \<noteq> []) \<and>
     entries = concat (map (entries_of \<circ> the) ds) \<and> distinct (map entry_encoding entries) \<and>
     [] \<notin> entry_encoding ` set entries"
  unfolding BuildDecoderEntries_def using Build_loop_Inr[of "[]" ds entries] by (auto simp del: set_concat)

lemma BuildDecoderEntries_normalized:
  "BuildDecoderEntries ds = Inr entries \<Longrightarrow> x \<in> set entries \<Longrightarrow>
     NormalizeResponseEncoding (entry_encoding x) = entry_encoding x"
  by (auto simp: BuildDecoderEntries_Inr entries_of_def)

lemma FindDecoderEntry_unique:
  "distinct (map entry_encoding entries) \<Longrightarrow> x \<in> set entries \<Longrightarrow>
     FindDecoderEntry entries (entry_encoding x) = Some x"
  by (induction entries) (auto simp: FindDecoderEntry_def image_iff)

lemma accept_fold:
  "fold (\<lambda>entry value. (if value \<noteq> [] then value @ '', '' else value) @ entry_encoding entry) entries v =
     (if v = [] then join_codings (map entry_encoding entries)
      else join_codings (v # map entry_encoding entries))"
  if "[] \<notin> entry_encoding ` set entries"
  using that
proof (induction entries arbitrary: v)
  case Nil
  then show ?case by simp
next
  case (Cons x xs)
  have j: "join_codings (e # map entry_encoding xs) =
      (if xs = [] then e else e @ '', '' @ join_codings (map entry_encoding xs))" for e
    by (cases xs) auto
  from Cons.prems have x: "entry_encoding x \<noteq> []" and xs: "[] \<notin> entry_encoding ` set xs" by auto
  have "join_codings ((v @ '', '' @ entry_encoding x) # map entry_encoding xs) =
      v @ '', '' @ join_codings (entry_encoding x # map entry_encoding xs)"
    by (simp add: j)
  with Cons.IH[OF xs] x show ?case by simp
qed

lemma add_encodings_cases:
  "(\<exists>entries'. add_encodings d es entries = Inr entries') \<or>
   (\<exists>message. add_encodings d es entries = Inl (Invalid_Argument message))"
  by (induction es arbitrary: entries) (auto simp: Let_def)

lemma Build_loop_cases:
  "(\<exists>entries'. BuildDecoderEntries_loop ds entries = Inr entries') \<or>
   (\<exists>message. BuildDecoderEntries_loop ds entries = Inl (Invalid_Argument message))"
proof (induction ds entries rule: BuildDecoderEntries_loop.induct)
  case (3 d ds entries)
  then show ?case using add_encodings_cases[of d "AcceptedResponseEncodings d" entries] by fastforce
qed auto

lemma BuildAcceptEncodingValue_cases:
  "(\<exists>v. BuildAcceptEncodingValue ds = Inr v) \<or> (\<exists>message. BuildAcceptEncodingValue ds = Inl (Invalid_Argument message))"
  using Build_loop_cases[of ds "[]"] by (auto simp: BuildAcceptEncodingValue_def BuildDecoderEntries_def)

section \<open>Header lines\<close>

lemma getlines_line:
  "CHR 0x0A \<notin> set t \<Longrightarrow> getlines (t @ CHR 0x0A # s) = t # getlines s"
  by (subst getlines.simps) (simp add: takeWhile_before dropWhile_before)

lemma getlines_append: "getlines (s @ CHR 0x0A # t) = getlines (s @ [CHR 0x0A]) @ getlines t"
proof (induction s rule: getlines.induct)
  case (1 s)
  show ?case
  proof (cases "CHR 0x0A \<in> set s")
    case False
    then show ?thesis using getlines_line[of s t] getlines_line[of s "[]"] by (simp add: getlines.simps[of "[]"])
  next
    case True
    then obtain u v where s: "s = u @ CHR 0x0A # v" "CHR 0x0A \<notin> set u" by (metis split_list_first)
    then have "tl (dropWhile (\<lambda>c. c \<noteq> CHR 0x0A) s) = v" by (simp add: dropWhile_before)
    with 1 s show ?thesis by (simp add: getlines_line)
  qed
qed

text \<open>A header field as it is written on the wire.\<close>

definition format_header :: "string \<times> string \<Rightarrow> string" where
  "format_header h = fst h @ '': '' @ snd h @ [CHR 0x0D, CHR 0x0A]"

definition header_ok :: "string \<times> string \<Rightarrow> bool" where
  "header_ok h \<longleftrightarrow> trimmed (fst h) \<and> trimmed (snd h) \<and> CHR '':'' \<notin> set (fst h) \<and>
     CHR 0x0A \<notin> set (fst h) \<and> CHR 0x0A \<notin> set (snd h) \<and> take 5 (fst h) \<noteq> ''HTTP/''"

lemma header_line_format:
  assumes "header_ok h"
  shows "header_line wanted (fst h @ '': '' @ snd h @ [CHR 0x0D]) value =
    (if ToLowerAscii (fst h) = wanted then snd h else value)"
proof -
  let ?line = "fst h @ CHR '':'' # CHR '' '' # snd h"
  have "take 5 ?line \<noteq> ''HTTP/''"
  proof
    assume t: "take 5 ?line = ''HTTP/''"
    show False
    proof (cases "5 \<le> length (fst h)")
      case True
      with t assms show False by (simp add: header_ok_def)
    next
      case False
      then have "CHR '':'' \<in> set (take 5 ?line)" by (auto simp: take_Cons' in_set_conv_nth take_append)
      with t show False by simp
    qed
  qed
  moreover have "TrimAscii (CHR '' '' # snd h) = snd h"
    using assms Trim_append_space[of "'' ''" "snd h"] by (simp add: header_ok_def Trim_id is_space_def)
  ultimately show ?thesis
    using assms by (simp add: header_line_def header_ok_def butlast_append takeWhile_before dropWhile_before Trim_id)
qed

lemma getlines_format:
  "Ball (set hs) header_ok \<Longrightarrow>
     getlines (concat (map format_header hs) @ t) =
       map (\<lambda>h. fst h @ '': '' @ snd h @ [CHR 0x0D]) hs @ getlines t"
proof (induction hs)
  case (Cons h hs)
  then show ?case
    using getlines_line[of "fst h @ '': '' @ snd h @ [CHR 0x0D]" "concat (map format_header hs) @ t"]
    by (simp add: format_header_def[of h] header_ok_def[of h])
qed simp

lemma fold_header_lines:
  "Ball (set hs) header_ok \<Longrightarrow>
     fold (header_line wanted) (map (\<lambda>h. fst h @ '': '' @ snd h @ [CHR 0x0D]) hs) v =
       (case map_of (rev (map (\<lambda>(n, x). (ToLowerAscii n, x)) hs)) wanted of None \<Rightarrow> v | Some x \<Rightarrow> x)"
proof (induction hs arbitrary: v)
  case (Cons h hs)
  obtain n x where h: "h = (n, x)" by (cases h)
  show ?case
    using Cons header_line_format[of h wanted v]
    by (auto simp: h map_add_def map_of_append split: option.splits)
qed simp

section \<open>Properties\<close>

text \<open>
  the decoder table. The collection of the decoders succeeds exactly when none is null, each
  accepts at least one coding, and the normalised names are non-empty and pairwise different; then
  it lists every accepted coding once, and the lookup of a listed name finds its entry.
\<close>

theorem BuildDecoderEntries_correct:
  "BuildDecoderEntries ds = Inr entries \<longleftrightarrow>
     None \<notin> set ds \<and> (\<forall>d \<in> set ds. AcceptedResponseEncodings (the d) \<noteq> []) \<and>
     entries = concat (map (\<lambda>d. map (\<lambda>e. \<lparr>entry_encoding = NormalizeResponseEncoding e, entry_decoder = the d\<rparr>)
       (AcceptedResponseEncodings (the d))) ds) \<and>
     distinct (map entry_encoding entries) \<and> [] \<notin> entry_encoding ` set entries"
proof -
  have "(\<forall>d. Some d \<in> set ds \<longrightarrow> AcceptedResponseEncodings d \<noteq> []) \<longleftrightarrow>
      (\<forall>d \<in> set ds. AcceptedResponseEncodings (the d) \<noteq> [])" if "None \<notin> set ds"
    using that by (metis option.collapse option.sel)
  then show ?thesis unfolding BuildDecoderEntries_Inr entries_of_def comp_def by blast
qed

theorem BuildDecoderEntries_correct_witness:
  "BuildDecoderEntries [Some \<lparr>AcceptedResponseEncodings = ['' GZip ''], Decoder_Decode = \<lambda>b e. Inr b\<rparr>] =
     Inr [\<lparr>entry_encoding = ''gzip'',
       entry_decoder = \<lparr>AcceptedResponseEncodings = ['' GZip ''], Decoder_Decode = \<lambda>b e. Inr b\<rparr>\<rparr>]"
proof -
  have "NormalizeResponseEncoding '' GZip '' = ''gzip''" by code_simp
  then show ?thesis by (intro BuildDecoderEntries_correct[THEN iffD2]) simp
qed

text \<open>
  \<^bold>\<open>C10\<close>: decoding undoes coding. If every coding of a response has a decoder in the table that inverts
  it, a body coded by these codings in order and labelled with the matching header value is decoded
  to the original body, whatever their number.
\<close>

theorem DecodeHttpResponseBody_roundtrip:
  assumes "BuildDecoderEntries ds = Inr entries" "Ball (set es) coding"
    and "\<And>e. e \<in> set es \<Longrightarrow> e \<noteq> ''identity'' \<Longrightarrow> \<exists>x \<in> set entries. entry_encoding x = e \<and>
      (\<forall>b. Decoder_Decode (entry_decoder x) (encode e b) e = Inr b)"
    and "\<And>b. encode ''identity'' b = b"
  shows "DecodeHttpResponseBody (fold encode es body) (join_codings es) ds = Inr body"
proof -
  have dist: "distinct (map entry_encoding entries)" using BuildDecoderEntries_Inr assms(1) by blast
  have step: "decode_loop entries (e # rest) (encode e b) = decode_loop entries rest b" if "e \<in> set es" for e rest b
  proof (cases "e = ''identity''")
    case True
    then show ?thesis using assms(4)[of b] by simp
  next
    case False
    with assms(3)[OF that] obtain x where "x \<in> set entries" "entry_encoding x = e"
      "Decoder_Decode (entry_decoder x) (encode e b) e = Inr b" by blast
    with False FindDecoderEntry_unique[OF dist] show ?thesis by fastforce
  qed
  have "decode_loop entries (rev xs) (fold encode xs b) = Inr b" if "set xs \<subseteq> set es" for xs b
    using that by (induction xs arbitrary: b rule: rev_induct) (simp_all add: step del: decode_loop.simps(2))
  from this[of es body] show ?thesis
    using assms(1,2) by (auto simp: DecodeHttpResponseBody_def Parse_join)
qed

theorem DecodeHttpResponseBody_roundtrip_witness:
  "DecodeHttpResponseBody ''zzbody'' ''z, identity, z''
     [Some \<lparr>AcceptedResponseEncodings = [''Z''], Decoder_Decode = \<lambda>b e. Inr (tl b)\<rparr>] = Inr ''body''"
proof -
  let ?d = "\<lparr>AcceptedResponseEncodings = [''Z''], Decoder_Decode = \<lambda>b e. Inr (tl b)\<rparr>"
  let ?encode = "\<lambda>e b. if e = ''z'' then CHR ''z'' # b else b"
  have n: "NormalizeResponseEncoding ''Z'' = ''z''" "coding ''z''" "coding ''identity''" by code_simp+
  then have "BuildDecoderEntries [Some ?d] = Inr [\<lparr>entry_encoding = ''z'', entry_decoder = ?d\<rparr>]"
    by (simp add: BuildDecoderEntries_def)
  then have "DecodeHttpResponseBody (fold ?encode [''z'', ''identity'', ''z''] ''body'')
      (join_codings [''z'', ''identity'', ''z'']) [Some ?d] = Inr ''body''"
    by (rule DecodeHttpResponseBody_roundtrip) (use n in auto)
  then show ?thesis by simp
qed

text \<open>
  the \<open>Accept-Encoding\<close> value printed from the decoders parses back to their normalised codings,
  in order; it is empty exactly when there are no decoders.
\<close>

theorem BuildAcceptEncodingValue_parses_back:
  assumes "BuildAcceptEncodingValue ds = Inr value"
    and "\<And>d e. Some d \<in> set ds \<Longrightarrow> e \<in> set (AcceptedResponseEncodings d) \<Longrightarrow> CHR '','' \<notin> set (NormalizeResponseEncoding e)"
  shows "ParseContentEncodings value =
      concat (map (\<lambda>d. map NormalizeResponseEncoding (AcceptedResponseEncodings (the d))) ds) \<and>
    (value = [] \<longleftrightarrow> ds = [])"
proof -
  from assms(1) obtain entries where e: "BuildDecoderEntries ds = Inr entries"
    and v: "value = fold (\<lambda>entry value. (if value \<noteq> [] then value @ '', '' else value) @ entry_encoding entry) entries []"
    by (auto simp: BuildAcceptEncodingValue_def result_simps)
  note i = BuildDecoderEntries_Inr[THEN iffD1, OF e]
  have names: "map entry_encoding entries =
      concat (map (\<lambda>d. map NormalizeResponseEncoding (AcceptedResponseEncodings (the d))) ds)"
    using i by (simp add: entries_of_def map_concat comp_def)
  have "coding c" if "c \<in> set (map entry_encoding entries)" for c
  proof -
    from that obtain d e where "d \<in> set ds" "e \<in> set (AcceptedResponseEncodings (the d))"
      "c = NormalizeResponseEncoding e" unfolding names by auto
    moreover from this i have "d = Some (the d)" by (metis option.collapse)
    moreover have "c \<noteq> []" using that i by (metis list.set_map)
    ultimately show ?thesis using assms(2) by (metis coding_def Normalize_idem)
  qed
  moreover have ne: "[] \<notin> entry_encoding ` set entries" using i by blast
  have val: "value = join_codings (map entry_encoding entries)"
    using v accept_fold[OF ne, of "[]"] by simp
  ultimately have "ParseContentEncodings value = map entry_encoding entries" using Parse_join by blast
  moreover have "value = [] \<longleftrightarrow> map entry_encoding entries = []"
    using ne val by (cases "map entry_encoding entries" rule: join_codings.cases) auto
  moreover have "map entry_encoding entries = [] \<longleftrightarrow> ds = []"
  proof (cases ds)
    case (Cons d ds')
    then obtain d' where "d = Some d'" using i by (cases d) auto
    with Cons i show ?thesis unfolding names by auto
  qed (simp add: names)
  ultimately show ?thesis using names by simp
qed

theorem BuildAcceptEncodingValue_parses_back_witness:
  "ParseContentEncodings ''gzip, deflate'' = [''gzip'', ''deflate'']"
proof -
  let ?d = "\<lparr>AcceptedResponseEncodings = [''gzip'', ''Deflate''], Decoder_Decode = \<lambda>b e. Inr b\<rparr>"
  have n: "NormalizeResponseEncoding ''gzip'' = ''gzip''" "NormalizeResponseEncoding ''Deflate'' = ''deflate''" by code_simp+
  then have "BuildAcceptEncodingValue [Some ?d] = Inr ''gzip, deflate''"
    by (simp add: BuildAcceptEncodingValue_def BuildDecoderEntries_def Let_def)
  moreover have "CHR '','' \<notin> set (NormalizeResponseEncoding e)"
    if "Some d \<in> set [Some ?d]" "e \<in> set (AcceptedResponseEncodings d)" for d e
    using that n by auto
  ultimately show ?thesis using n BuildAcceptEncodingValue_parses_back[of "[Some ?d]"] by simp
qed

text \<open>
  header lookup. In the header block of the last response of an exchange, preceded by any earlier
  blocks (for instance of a redirect), the lookup returns the value of the last field of the wanted
  name, compared without case, and the empty string when there is none.
\<close>

theorem FindHttpHeaderValue_last_field:
  assumes "Ball (set hs) header_ok" "CHR 0x0A \<notin> set status"
  shows "FindHttpHeaderValue (earlier @ [CHR 0x0A] @ ''HTTP/'' @ status @ [CHR 0x0D, CHR 0x0A] @
      concat (map format_header hs) @ [CHR 0x0D, CHR 0x0A]) name =
    (case map_of (rev (map (\<lambda>(n, x). (ToLowerAscii n, x)) hs)) (ToLowerAscii name) of
       None \<Rightarrow> [] | Some x \<Rightarrow> x)"
proof -
  let ?fields = "concat (map format_header hs) @ [CHR 0x0D, CHR 0x0A]"
  let ?lines = "map (\<lambda>h. fst h @ '': '' @ snd h @ [CHR 0x0D]) hs"
  have "getlines [CHR 0x0D, CHR 0x0A] = [[CHR 0x0D]]"
    using getlines_line[of "[CHR 0x0D]" "[]"] by (simp add: getlines.simps[of "[]"])
  then have fields: "getlines ?fields = ?lines @ [[CHR 0x0D]]" using getlines_format[OF assms(1)] by simp
  have "getlines (''HTTP/'' @ status @ [CHR 0x0D, CHR 0x0A] @ ?fields) =
      (''HTTP/'' @ status @ [CHR 0x0D]) # getlines ?fields"
    using assms(2) getlines_line[of "''HTTP/'' @ status @ [CHR 0x0D]" ?fields] by simp
  with fields getlines_append[of earlier "''HTTP/'' @ status @ [CHR 0x0D, CHR 0x0A] @ ?fields"]
  have lines: "getlines (earlier @ [CHR 0x0A] @ ''HTTP/'' @ status @ [CHR 0x0D, CHR 0x0A] @ ?fields) =
      getlines (earlier @ [CHR 0x0A]) @ (''HTTP/'' @ status @ [CHR 0x0D]) # ?lines @ [[CHR 0x0D]]"
    by simp
  have status: "header_line w (''HTTP/'' @ status @ [CHR 0x0D]) v = []" for w v
    by (simp add: header_line_def butlast_append)
  have blank: "header_line w [CHR 0x0D] v = v" for w v by (simp add: header_line_def)
  show ?thesis
    unfolding FindHttpHeaderValue_def lines fold_append comp_def fold.simps status blank id_def
    by (simp only: fold_header_lines[OF assms(1)] blank)
qed

theorem FindHttpHeaderValue_last_field_witness:
  "FindHttpHeaderValue (''HTTP/1.1 301'' @ [CHR 0x0A] @ ''HTTP/'' @ ''1.1 200 OK'' @ [CHR 0x0D, CHR 0x0A] @
     concat (map format_header [(''Content-Encoding'', ''gzip'')]) @ [CHR 0x0D, CHR 0x0A]) ''content-encoding'' = ''gzip''"
proof -
  have "header_ok (''Content-Encoding'', ''gzip'')" by code_simp
  moreover have "ToLowerAscii ''Content-Encoding'' = ToLowerAscii ''content-encoding''" by code_simp
  ultimately show ?thesis
    using FindHttpHeaderValue_last_field[of "[(''Content-Encoding'', ''gzip'')]" "''1.1 200 OK''" "''HTTP/1.1 301''"
        "''content-encoding''"] by simp
qed

end
