(* ===== verification/Http_Zlib.thy ===== *)
theory Http_Zlib
  imports Http_Compression
begin

text \<open>
  \<open>src/src/http_compression.cpp\<close>, the part on zlib: \<open>GzipRequestCompressor\<close> and \<open>ZlibContentEncodingDecoder\<close>, with the
  loops that feed a zlib stream and collect its output in portions of 8192 bytes.

  zlib is a parameter, the record \<open>Zlib\<close> over a type of streams. A call of \<open>deflate\<close> or \<open>inflate\<close> takes the input that
  is available and the room for output, and gives a code, the stream, the input that is left and the output it
  produced. A build without zlib is \<open>None\<close>. The loops end only as far as zlib makes progress: they are partial, and
  a call that does not return is \<open>Diverges\<close>.
\<close>

section \<open>The library\<close>

datatype z_code = Z_OK | Z_STREAM_END | Z_FAILED int

datatype z_flush = Z_NO_FLUSH | Z_FINISH

record 'z Zlib =
  MAX_WBITS :: int
  deflateInit2 :: "int \<Rightarrow> z_code \<times> 'z"
  deflate :: "z_flush \<Rightarrow> 'z \<Rightarrow> string \<Rightarrow> nat \<Rightarrow> z_code \<times> 'z \<times> string \<times> string"
  deflateEnd :: "'z \<Rightarrow> 'z"
  inflateInit2 :: "int \<Rightarrow> z_code \<times> 'z"
  inflate :: "'z \<Rightarrow> string \<Rightarrow> nat \<Rightarrow> z_code \<times> 'z \<times> string \<times> string"
  inflateEnd :: "'z \<Rightarrow> 'z"

section \<open>Operations\<close>

definition CheckedZlibSize :: "u64 \<Rightarrow> u32 result" where
  "CheckedZlibSize content_size =
     (if content_size > 0xFFFFFFFF then Inl (Runtime_Error ''HTTP content is too large for zlib'')
      else Inr (ucast content_size))"

text \<open>The inner loop of \<open>DeflateBody\<close>; \<open>True\<close> is the return on \<open>Z_STREAM_END\<close>.\<close>

partial_function (option) deflate_inner ::
  "'z Zlib \<Rightarrow> z_flush \<Rightarrow> 'z \<Rightarrow> string \<Rightarrow> IOStream \<Rightarrow> (bool result \<times> 'z \<times> IOStream) option" where
  "deflate_inner Z flush stream next_in output =
     (case deflate Z flush stream next_in 8192 of (code, stream', rest, produced) \<Rightarrow>
        (let output' = (if produced \<noteq> [] then io_write produced output else output) in
         if produced \<noteq> [] \<and> io_failed output' then
           Some (Inl (Runtime_Error ''failed to write compressed HTTP request body''), stream', output')
         else if code = Z_STREAM_END then Some (Inr True, stream', output')
         else if code \<noteq> Z_OK then Some (Inl (Runtime_Error ''failed to deflate HTTP request''), stream', output')
         else if rest \<noteq> [] \<or> 8192 \<le> length produced then deflate_inner Z flush stream' rest output'
         else Some (Inr False, stream', output')))"

partial_function (option) DeflateBody_loop ::
  "'z Zlib \<Rightarrow> 'z \<Rightarrow> IOStream \<Rightarrow> IOStream \<Rightarrow> (unit result \<times> 'z \<times> IOStream \<times> IOStream) option" where
  "DeflateBody_loop Z stream input output =
     (case io_read 8192 input of (input_buffer, input') \<Rightarrow>
        if io_bad input' \<or> (io_failed input' \<and> \<not> io_eof input') then
          Some (Inl (Runtime_Error ''failed to read HTTP request body''), stream, input', output)
        else
          (case CheckedZlibSize (of_nat (length input_buffer)) of
             Inl e \<Rightarrow> Some (Inl e, stream, input', output)
           | Inr avail_in \<Rightarrow>
               (let flush = (if io_eof input' then Z_FINISH else Z_NO_FLUSH) in
                Option.bind (deflate_inner Z flush stream (take (unat avail_in) input_buffer) output) (\<lambda>(r, stream', output').
                  case r of
                    Inl e \<Rightarrow> Some (Inl e, stream', input', output')
                  | Inr returned \<Rightarrow>
                      if returned then Some (Inr (), stream', input', output')
                      else if flush = Z_FINISH then
                        Some (Inl (Runtime_Error ''failed to finish deflating HTTP request''), stream', input', output')
                      else DeflateBody_loop Z stream' input' output'))))"

text \<open>With the stream as \<open>deflateEnd\<close> leaves it, when one was initialised.\<close>

definition DeflateBody ::
  "'z Zlib \<Rightarrow> IOStream \<Rightarrow> IOStream \<Rightarrow> int \<Rightarrow> unit result \<times> 'z option \<times> IOStream \<times> IOStream" where
  "DeflateBody Z input output window_bits =
     (case deflateInit2 Z window_bits of (init_code, stream) \<Rightarrow>
        if init_code \<noteq> Z_OK then (Inl (Runtime_Error ''deflateInit2 failed''), None, input, output)
        else
          (case DeflateBody_loop Z stream input output of
             None \<Rightarrow> (Inl Diverges, None, input, output)
           | Some (r, stream', input', output') \<Rightarrow> (r, Some (deflateEnd Z stream'), input', output')))"

partial_function (option) InflateBody_loop ::
  "'z Zlib \<Rightarrow> 'z \<Rightarrow> string \<Rightarrow> string \<Rightarrow> (string result \<times> 'z) option" where
  "InflateBody_loop Z stream next_in output =
     (case inflate Z stream next_in 8192 of (code, stream', rest, produced) \<Rightarrow>
        (let output' = output @ produced in
         if code = Z_STREAM_END then Some (Inr output', stream')
         else if code \<noteq> Z_OK then Some (Inl (Runtime_Error ''failed to inflate compressed HTTP response''), stream')
         else if rest = [] \<and> produced = [] then Some (Inl (Runtime_Error ''truncated compressed HTTP response''), stream')
         else InflateBody_loop Z stream' rest output'))"

definition InflateBody :: "'z Zlib \<Rightarrow> string \<Rightarrow> int \<Rightarrow> string result \<times> 'z option" where
  "InflateBody Z body window_bits =
     (case inflateInit2 Z window_bits of (init_code, stream) \<Rightarrow>
        if init_code \<noteq> Z_OK then (Inl (Runtime_Error ''inflateInit2 failed''), None)
        else
          (case CheckedZlibSize (of_nat (length body)) of
             Inl e \<Rightarrow> (Inl e, Some (inflateEnd Z stream))
           | Inr avail_in \<Rightarrow>
               (case InflateBody_loop Z stream (take (unat avail_in) body) [] of
                  None \<Rightarrow> (Inl Diverges, None)
                | Some (r, stream') \<Rightarrow> (r, Some (inflateEnd Z stream')))))"

definition InflateDeflateBody :: "'z Zlib \<Rightarrow> string \<Rightarrow> string result" where
  "InflateDeflateBody Z body =
     (case fst (InflateBody Z body (MAX_WBITS Z)) of
        Inl (Runtime_Error _) \<Rightarrow> fst (InflateBody Z body (- MAX_WBITS Z))
      | r \<Rightarrow> r)"

fun normalize_zlib_encodings :: "string list \<Rightarrow> string list result" where
  "normalize_zlib_encodings [] = Inr []"
| "normalize_zlib_encodings (encoding # encodings) =
     (let normalized = NormalizeResponseEncoding encoding in
      if normalized \<noteq> ''gzip'' \<and> normalized \<noteq> ''deflate'' then
        Inl (Invalid_Argument ''ZlibContentEncodingDecoder supports only gzip and deflate'')
      else rbind (normalize_zlib_encodings encodings) (\<lambda>rest. Inr (normalized # rest)))"

definition NormalizeZlibResponseEncodings :: "'z Zlib option \<Rightarrow> string list \<Rightarrow> string list result" where
  "NormalizeZlibResponseEncodings zlib encodings =
     (case zlib of
        None \<Rightarrow> Inl (Invalid_Argument ''zlib response decoding is not available'')
      | Some _ \<Rightarrow> normalize_zlib_encodings encodings)"

section \<open>The compressor and the decoder\<close>

definition GzipRequestCompressor_Compress ::
  "'z Zlib option \<Rightarrow> u64 \<Rightarrow> IOStream \<Rightarrow> u64 \<Rightarrow> IOStream \<Rightarrow> bool result \<times> IOStream \<times> IOStream" where
  "GzipRequestCompressor_Compress zlib min_size_bytes input input_size output =
     (case zlib of
        None \<Rightarrow> (Inl (Runtime_Error ''zlib request encoding is not available''), input, output)
      | Some Z \<Rightarrow>
          if input_size < min_size_bytes then (Inr False, input, output)
          else
            (case DeflateBody Z input output (MAX_WBITS Z + 16) of
               (r, _, input', output') \<Rightarrow> (rbind r (\<lambda>_. Inr True), input', output')))"

definition GzipRequestCompressor_new :: "'z Zlib option \<Rightarrow> u64 \<Rightarrow> HttpRequestCompressor result" where
  "GzipRequestCompressor_new zlib min_size_bytes =
     (if zlib = None then Inl (Invalid_Argument ''zlib request encoding is not available'')
      else Inr \<lparr>Compressor_ContentEncoding = ''gzip'',
                Compressor_Compress = GzipRequestCompressor_Compress zlib min_size_bytes\<rparr>)"

definition ZlibContentEncodingDecoder_Decode :: "'z Zlib option \<Rightarrow> string \<Rightarrow> string \<Rightarrow> string result" where
  "ZlibContentEncodingDecoder_Decode zlib body content_encoding =
     (case zlib of
        None \<Rightarrow> Inl (Runtime_Error ''zlib response decoding is not available'')
      | Some Z \<Rightarrow>
          (let normalized = NormalizeResponseEncoding content_encoding in
           if normalized = ''gzip'' then fst (InflateBody Z body (MAX_WBITS Z + 16))
           else if normalized = ''deflate'' then InflateDeflateBody Z body
           else Inl (Runtime_Error (''unsupported HTTP content encoding: '' @ normalized))))"

definition ZlibContentEncodingDecoder_new ::
  "'z Zlib option \<Rightarrow> string list \<Rightarrow> HttpContentEncodingDecoder result" where
  "ZlibContentEncodingDecoder_new zlib accepted_response_encodings =
     rbind (NormalizeZlibResponseEncodings zlib accepted_response_encodings) (\<lambda>encodings.
       Inr \<lparr>AcceptedResponseEncodings = encodings, Decoder_Decode = ZlibContentEncodingDecoder_Decode zlib\<rparr>)"

text \<open>The default arguments of the two constructors.\<close>

definition GzipRequestCompressor_default :: "'z Zlib option \<Rightarrow> HttpRequestCompressor result" where
  "GzipRequestCompressor_default zlib = GzipRequestCompressor_new zlib 1024"

definition ZlibContentEncodingDecoder_default :: "'z Zlib option \<Rightarrow> HttpContentEncodingDecoder result" where
  "ZlibContentEncodingDecoder_default zlib = ZlibContentEncodingDecoder_new zlib [''gzip'', ''deflate'']"

end
