(* ===== verification/Http_Gzip.thy ===== *)
theory Http_Gzip
  imports Http_Zlib "HOL-Library.Sublist"
begin

text \<open>
  Correctness of the loops around zlib. What the program relies on of zlib is stated in two contracts over a
  relation \<open>decodes\<close> between complete compressed streams and their contents, one relation for each value of
  \<open>window_bits\<close>; both restate the documentation of \<open>deflate\<close> and \<open>inflate\<close> in \<open>zlib.h\<close>.
\<close>

section \<open>What zlib promises\<close>

text \<open>
  One call of \<open>deflate\<close> on a stream that has taken \<open>xs\<close> and given \<open>ys\<close>. It takes a part of its input and produces at
  most \<open>n\<close> bytes. It stops when its input is empty or its output full; with \<open>Z_FINISH\<close> it reports the end of the
  stream as soon as the room for output is enough.
\<close>

definition deflate_call ::
  "(string \<Rightarrow> string \<Rightarrow> bool) \<Rightarrow> ('z \<Rightarrow> string \<Rightarrow> string \<Rightarrow> bool \<Rightarrow> string option \<Rightarrow> bool) \<Rightarrow> z_flush \<Rightarrow> string \<Rightarrow> string \<Rightarrow> string \<Rightarrow> nat \<Rightarrow>
     z_code \<times> 'z \<times> string \<times> string \<Rightarrow> bool" where
  "deflate_call decodes deflating flush xs ys inp n r \<longleftrightarrow>
     (case r of (code, stream, rest, produced) \<Rightarrow>
        length produced \<le> n \<and>
        (\<exists>used. inp = used @ rest \<and>
          (code = Z_STREAM_END \<and> flush = Z_FINISH \<and> rest = [] \<and> decodes (ys @ produced) (xs @ used) \<or>
           code = Z_OK \<and>
             deflating stream (xs @ used) (ys @ produced) (length produced = n) (if flush = Z_FINISH then Some rest else None) \<and>
             (rest \<noteq> [] \<or> flush = Z_FINISH \<longrightarrow> length produced = n))))"

text \<open>
  The contract of compression: a new stream can be opened; a call that has something to do (input, the end of
  the stream, or output that did not fit) succeeds, provided that a call with \<open>Z_FINISH\<close> is only followed by further
  ones on the input it left; the size of the output is bounded in the size of the input.
\<close>

definition deflates_with ::
  "'z Zlib \<Rightarrow> (string \<Rightarrow> string \<Rightarrow> bool) \<Rightarrow> ('z \<Rightarrow> string \<Rightarrow> string \<Rightarrow> bool \<Rightarrow> string option \<Rightarrow> bool) \<Rightarrow> bool" where
  "deflates_with Z decodes deflating \<longleftrightarrow>
     (\<forall>stream xs ys full fin flush inp n. deflating stream xs ys full fin \<longrightarrow> 0 < n \<longrightarrow>
        inp \<noteq> [] \<or> flush = Z_FINISH \<or> full \<longrightarrow> fin = None \<or> flush = Z_FINISH \<and> fin = Some inp \<longrightarrow>
        deflate_call decodes deflating flush xs ys inp n (deflate Z flush stream inp n))"

definition zlib_compresses :: "'z Zlib \<Rightarrow> int \<Rightarrow> (string \<Rightarrow> string \<Rightarrow> bool) \<Rightarrow> bool" where
  "zlib_compresses Z window_bits decodes \<longleftrightarrow>
     (\<exists>deflating bound.
        (\<exists>stream. deflateInit2 Z window_bits = (Z_OK, stream) \<and> deflating stream [] [] False None) \<and>
        deflates_with Z decodes deflating \<and>
        (\<forall>stream xs ys full fin. deflating stream xs ys full fin \<longrightarrow> length ys \<le> bound (length xs)))"

text \<open>
  One call of \<open>inflate\<close> on a stream that still needs \<open>e\<close> to give \<open>b\<close>. It reports the end only after all of both; it
  makes progress otherwise, and when all of \<open>e\<close> is available it only stops for lack of room.
\<close>

definition inflate_call ::
  "('z \<Rightarrow> string \<Rightarrow> string \<Rightarrow> bool) \<Rightarrow> string \<Rightarrow> string \<Rightarrow> string \<Rightarrow> nat \<Rightarrow> z_code \<times> 'z \<times> string \<times> string \<Rightarrow> bool" where
  "inflate_call inflating e b inp n r \<longleftrightarrow>
     (case r of (code, stream, rest, produced) \<Rightarrow>
        (case code of
           Z_STREAM_END \<Rightarrow> inp = e @ rest \<and> produced = b
         | Z_OK \<Rightarrow>
             (\<exists>used e' b'. inp = used @ rest \<and> e = used @ e' \<and> b = produced @ b' \<and> inflating stream e' b' \<and>
                (used \<noteq> [] \<or> produced \<noteq> []) \<and> (prefix e inp \<longrightarrow> length produced = n))
         | Z_FAILED _ \<Rightarrow> \<not> prefix e inp))"

definition inflates_with :: "'z Zlib \<Rightarrow> ('z \<Rightarrow> string \<Rightarrow> string \<Rightarrow> bool) \<Rightarrow> bool" where
  "inflates_with Z inflating \<longleftrightarrow>
     (\<forall>stream e b inp n. inflating stream e b \<longrightarrow> 0 < n \<longrightarrow> prefix e inp \<or> prefix inp e \<longrightarrow>
        inflate_call inflating e b inp n (inflate Z stream inp n))"

definition zlib_decompresses :: "'z Zlib \<Rightarrow> int \<Rightarrow> (string \<Rightarrow> string \<Rightarrow> bool) \<Rightarrow> bool" where
  "zlib_decompresses Z window_bits decodes \<longleftrightarrow>
     (\<exists>inflating.
        (\<forall>e b. decodes e b \<longrightarrow> (\<exists>stream. inflateInit2 Z window_bits = (Z_OK, stream) \<and> inflating stream e b)) \<and>
        inflates_with Z inflating)"

section \<open>Sizes\<close>

lemma CheckedZlibSize_nat:
  assumes "n < 2 ^ 32"
  shows "CheckedZlibSize (of_nat n) = Inr (of_nat n)"
proof -
  have "unat (of_nat n :: u64) = n" using assms by (simp add: unat_of_nat)
  moreover from this assms have "(of_nat n :: u64) \<le> 0xFFFFFFFF" by (simp add: word_le_nat_alt)
  ultimately show ?thesis by (simp add: CheckedZlibSize_def not_less unsigned_of_nat)
qed

lemma CheckedZlibSize_take:
  assumes "length xs < 2 ^ 32"
  obtains w where "CheckedZlibSize (of_nat (length xs)) = Inr w" "take (unat w) xs = xs"
  using assms CheckedZlibSize_nat[OF assms] by (simp add: unat_of_nat)

section \<open>Compression\<close>

abbreviation appended :: "IOStream \<Rightarrow> string \<Rightarrow> IOStream" where
  "appended os out \<equiv> os\<lparr>io_data := io_data os @ out, io_put := length (io_data os @ out)\<rparr>"

lemma deflate_inner_step:
  assumes "deflate Z flush stream inp 8192 = (code, stream', rest, produced)" "io_writable os"
  shows "io_writable (appended os produced)"
    "deflate_inner Z flush stream inp os =
      (if code = Z_STREAM_END then Some (Inr True, stream', appended os produced)
       else if code \<noteq> Z_OK then Some (Inl (Runtime_Error ''failed to deflate HTTP request''), stream', appended os produced)
       else if rest \<noteq> [] \<or> 8192 \<le> length produced then deflate_inner Z flush stream' rest (appended os produced)
       else Some (Inr False, stream', appended os produced))"
proof -
  have "(if produced \<noteq> [] then io_write produced os else os) = appended os produced"
    using io_write_writable[OF assms(2)] assms(2) by (simp add: io_writable_def)
  moreover have "\<not> io_failed (appended os produced)"
    using assms(2) by (simp add: io_writable_def io_good_def io_failed_def)
  ultimately show "deflate_inner Z flush stream inp os =
      (if code = Z_STREAM_END then Some (Inr True, stream', appended os produced)
       else if code \<noteq> Z_OK then Some (Inl (Runtime_Error ''failed to deflate HTTP request''), stream', appended os produced)
       else if rest \<noteq> [] \<or> 8192 \<le> length produced then deflate_inner Z flush stream' rest (appended os produced)
       else Some (Inr False, stream', appended os produced))"
    by (subst deflate_inner.simps) (simp add: assms(1) Let_def)
  show "io_writable (appended os produced)" using assms(2) by (simp add: io_writable_def io_good_def)
qed

lemma deflate_inner_finishes:
  assumes step: "deflates_with Z decodes deflating"
    and bound: "\<forall>stream xs ys full fin. deflating stream xs ys full fin \<longrightarrow> length xs \<le> T \<longrightarrow> length ys \<le> B"
    and "deflating stream xs ys full fin" "inp \<noteq> [] \<or> flush = Z_FINISH \<or> full"
      "fin = None \<or> flush = Z_FINISH \<and> fin = Some inp" "length (xs @ inp) \<le> T" "io_writable os"
  shows "\<exists>stream' out. deflate_inner Z flush stream inp os = Some (Inr (flush = Z_FINISH), stream', appended os out) \<and>
    (if flush = Z_FINISH then decodes (ys @ out) (xs @ inp) else \<exists>full'. deflating stream' (xs @ inp) (ys @ out) full' None)"
  using assms(3-7)
proof (induction "B - length ys" arbitrary: stream xs ys full fin inp os rule: less_induct)
  case less
  obtain code stream' rest produced where d: "deflate Z flush stream inp 8192 = (code, stream', rest, produced)"
    by (metis prod_cases4)
  let ?fin = "if flush = Z_FINISH then Some rest else None"
  have "deflate_call decodes deflating flush xs ys inp 8192 (deflate Z flush stream inp 8192)"
    using step less.prems(1-3) unfolding deflates_with_def by (metis zero_less_numeral)
  then obtain used where
    u: "inp = used @ rest" "length produced \<le> 8192" and
    code: "code = Z_STREAM_END \<and> flush = Z_FINISH \<and> rest = [] \<and> decodes (ys @ produced) (xs @ used) \<or>
      code = Z_OK \<and> deflating stream' (xs @ used) (ys @ produced) (length produced = 8192) ?fin \<and>
        (rest \<noteq> [] \<or> flush = Z_FINISH \<longrightarrow> length produced = 8192)"
    by (auto simp: d deflate_call_def)
  note eq = deflate_inner_step[OF d less.prems(5)]
  show ?case
  proof (cases "code = Z_OK \<and> length produced = 8192")
    case False
    with code u show ?thesis unfolding eq(2) by (intro exI[of _ stream'] exI[of _ produced]) auto
  next
    case True
    with code have df: "deflating stream' (xs @ used) (ys @ produced) True ?fin" by auto
    have T: "length ((xs @ used) @ rest) \<le> T" using less.prems(4) u by simp
    then have "length (xs @ used) \<le> T" by simp
    with bound df have "length (ys @ produced) \<le> B" by blast
    with True have "B - length (ys @ produced) < B - length ys" by simp
    moreover have "?fin = None \<or> flush = Z_FINISH \<and> ?fin = Some rest" by simp
    ultimately obtain z out where
      "deflate_inner Z flush stream' rest (appended os produced) = Some (Inr (flush = Z_FINISH), z, appended (appended os produced) out)"
      "if flush = Z_FINISH then decodes ((ys @ produced) @ out) ((xs @ used) @ rest)
       else \<exists>full'. deflating z ((xs @ used) @ rest) ((ys @ produced) @ out) full' None"
      using less.hyps[OF _ df _ _ T eq(1)] by blast
    with True u(1) show ?thesis unfolding eq(2)
      by (intro exI[of _ z] exI[of _ "produced @ out"]) (simp split: if_splits)
  qed
qed

abbreviation drained :: "IOStream \<Rightarrow> IOStream" where
  "drained is \<equiv> is\<lparr>io_get := io_get is + length (io_rest is), io_eof := True, io_fail := True\<rparr>"

lemma DeflateBody_loop_finishes:
  assumes step: "deflates_with Z decodes deflating"
    and bound: "\<forall>stream xs ys full fin. deflating stream xs ys full fin \<longrightarrow> length xs \<le> T \<longrightarrow> length ys \<le> B"
    and "deflating stream xs ys full None" "io_readable is" "io_writable os" "length (xs @ io_rest is) \<le> T"
  shows "\<exists>stream' out. DeflateBody_loop Z stream is os = Some (Inr (), stream', drained is, appended os out) \<and>
    decodes (ys @ out) (xs @ io_rest is)"
  using assms(3-6)
proof (induction "length (io_rest is)" arbitrary: stream xs ys full "is" os rule: less_induct)
  case less
  let ?bytes = "take 8192 (io_rest is)"
  obtain w where w: "CheckedZlibSize (of_nat (length ?bytes)) = Inr w" "take (unat w) ?bytes = ?bytes"
    by (rule CheckedZlibSize_take[of ?bytes]) auto
  have ok: "\<not> io_bad is" "\<not> io_eof is" "\<not> io_failed is"
    using less.prems(2) by (auto simp: io_readable_def io_good_def io_failed_def)
  show ?case
  proof (cases "length (io_rest is) < 8192")
    case True
    then have "io_read 8192 is = (?bytes, drained is)" "?bytes = io_rest is"
      by (simp_all add: io_read_readable[OF less.prems(2)])
    moreover have "length (xs @ ?bytes) \<le> T" using less.prems(4) by simp
    moreover note deflate_inner_finishes[where flush = Z_FINISH, OF step bound less.prems(1) _ _ this less.prems(3)]
    ultimately show ?thesis
      using ok w by (subst DeflateBody_loop.simps) auto
  next
    case False
    let ?is = "is\<lparr>io_get := io_get is + 8192\<rparr>"
    from False have read: "io_read 8192 is = (?bytes, ?is)" by (simp add: io_read_readable[OF less.prems(2)])
    have "?bytes \<noteq> []" "length (xs @ ?bytes) \<le> T" using False less.prems(4) by auto
    from deflate_inner_finishes[where flush = Z_NO_FLUSH, OF step bound less.prems(1) _ _ this(2) less.prems(3)] this(1)
    obtain stream1 out1 full1 where inner: "deflate_inner Z Z_NO_FLUSH stream ?bytes os = Some (Inr False, stream1, appended os out1)"
      and d1: "deflating stream1 (xs @ ?bytes) (ys @ out1) full1 None" by auto
    have os1: "io_writable (appended os out1)" using less.prems(3) by (simp add: io_writable_def io_good_def)
    have is1: "io_rest ?is = drop 8192 (io_rest is)" "io_readable ?is" using less.prems(2) by simp_all
    then have "length (io_rest ?is) < length (io_rest is)" "length ((xs @ ?bytes) @ io_rest ?is) \<le> T"
      using False less.prems(4) by auto
    from less.hyps[OF this(1) d1 is1(2) os1 this(2)] obtain stream2 out2 where
      rest: "DeflateBody_loop Z stream1 ?is (appended os out1) = Some (Inr (), stream2, drained ?is, appended (appended os out1) out2)"
      and "decodes ((ys @ out1) @ out2) ((xs @ ?bytes) @ io_rest ?is)" by blast
    moreover have "drained ?is = drained is" using False is1 by simp
    moreover have "DeflateBody_loop Z stream is os = DeflateBody_loop Z stream1 ?is (appended os out1)"
      using ok w inner by (subst DeflateBody_loop.simps) (simp add: read io_failed_def)
    ultimately show ?thesis using is1 by (intro exI[of _ stream2] exI[of _ "out1 @ out2"]) simp
  qed
qed

lemma DeflateBody_finishes:
  assumes "zlib_compresses Z window_bits decodes" "io_readable is" "io_writable os"
  obtains stream out where "DeflateBody Z is os window_bits = (Inr (), Some stream, drained is, appended os out)"
    "decodes out (io_rest is)"
proof -
  obtain deflating bound stream where z: "deflateInit2 Z window_bits = (Z_OK, stream)" "deflating stream [] [] False None"
    and step: "deflates_with Z decodes deflating"
    and bound: "\<And>stream xs ys full fin. deflating stream xs ys full fin \<Longrightarrow> length ys \<le> bound (length xs)"
    using assms(1) unfolding zlib_compresses_def by metis
  let ?T = "length (io_rest is)"
  have "\<forall>stream xs ys full fin. deflating stream xs ys full fin \<longrightarrow> length xs \<le> ?T \<longrightarrow> length ys \<le> Max (bound ` {..?T})"
    using bound by (meson Max_ge atMost_iff finite_atMost finite_imageI imageI order_trans)
  from DeflateBody_loop_finishes[where T = ?T, OF step this z(2) assms(2,3)] obtain stream' out where
    "DeflateBody_loop Z stream is os = Some (Inr (), stream', drained is, appended os out)" "decodes out (io_rest is)"
    by auto
  with z(1) show thesis by (intro that[of "deflateEnd Z stream'" out]) (simp_all add: DeflateBody_def)
qed

section \<open>Decompression\<close>

lemma InflateBody_loop_finishes:
  assumes step: "inflates_with Z inflating"
    and "inflating stream e b" "prefix e inp \<or> prefix inp e"
  shows "\<exists>stream' r. InflateBody_loop Z stream inp acc = Some (r, stream') \<and>
    (if prefix e inp then r = Inr (acc @ b) else \<exists>message. r = Inl (Runtime_Error message))"
  using assms(2,3)
proof (induction "length inp + length b" arbitrary: stream e b inp acc rule: less_induct)
  case less
  obtain code stream' rest produced where i: "inflate Z stream inp 8192 = (code, stream', rest, produced)"
    by (metis prod_cases4)
  have "inflate_call inflating e b inp 8192 (inflate Z stream inp 8192)"
    using step less.prems unfolding inflates_with_def by (metis zero_less_numeral)
  note call = this[unfolded i inflate_call_def, simplified]
  note loop = InflateBody_loop.simps[of Z stream inp acc, unfolded i, simplified]
  show ?case
  proof (cases code)
    case Z_STREAM_END
    with call show ?thesis unfolding loop by simp
  next
    case (Z_FAILED c)
    with call show ?thesis by (simp add: loop)
  next
    case Z_OK
    with call obtain used e' b' where u: "inp = used @ rest" "e = used @ e'" "b = produced @ b'" "inflating stream' e' b'"
      "used \<noteq> [] \<or> produced \<noteq> []" "prefix e inp \<longrightarrow> length produced = 8192" by auto
    show ?thesis
    proof (cases "rest = [] \<and> produced = []")
      case True
      with u(6) have "\<not> prefix e inp" by auto
      with True Z_OK show ?thesis by (simp add: loop)
    next
      case False
      have lt: "length rest + length b' < length inp + length b" using u by auto
      have p: "prefix e' rest \<or> prefix rest e'" "prefix e inp \<longleftrightarrow> prefix e' rest"
        using less.prems(2) u(1,2) by simp_all
      have "InflateBody_loop Z stream inp acc = InflateBody_loop Z stream' rest (acc @ produced)"
        using False Z_OK by (auto simp: loop)
      with less.hyps[OF lt u(4) p(1), of "acc @ produced"] show ?thesis unfolding p(2) u(3) append_assoc by simp
    qed
  qed
qed

text \<open>A complete stream, with anything after it, inflates to its content; a truncated one is an error.\<close>

lemma InflateBody_contract:
  assumes "zlib_decompresses Z window_bits decodes" "decodes e b" "prefix e inp \<or> prefix inp e" "length inp < 2 ^ 32"
  shows "if prefix e inp then fst (InflateBody Z inp window_bits) = Inr b
    else \<exists>message. fst (InflateBody Z inp window_bits) = Inl (Runtime_Error message)"
proof -
  obtain inflating stream where z: "inflateInit2 Z window_bits = (Z_OK, stream)" "inflating stream e b"
    and step: "inflates_with Z inflating"
    using assms(1,2) unfolding zlib_decompresses_def by metis
  obtain w where "CheckedZlibSize (of_nat (length inp)) = Inr w" "take (unat w) inp = inp"
    using CheckedZlibSize_take[OF assms(4)] by blast
  with InflateBody_loop_finishes[OF step z(2) assms(3), of "[]"] z(1) show ?thesis
    by (auto simp: InflateBody_def)
qed

section \<open>Compressor and decoder\<close>

lemma Gzip_Compress_finishes:
  assumes "zlib_compresses Z (MAX_WBITS Z + 16) gzip" "io_readable is" "io_writable os" "min_size_bytes \<le> n"
  obtains out where
    "GzipRequestCompressor_Compress (Some Z) min_size_bytes is n os = (Inr True, drained is, appended os out)"
    "gzip out (io_rest is)"
proof -
  obtain stream out where d: "DeflateBody Z is os (MAX_WBITS Z + 16) = (Inr (), Some stream, drained is, appended os out)"
    "gzip out (io_rest is)"
    by (rule DeflateBody_finishes[OF assms(1-3)])
  have "GzipRequestCompressor_Compress (Some Z) min_size_bytes is n os = (Inr True, drained is, appended os out)"
    using assms(4) by (simp add: GzipRequestCompressor_Compress_def d(1) not_less)
  then show thesis using d(2) by (rule that)
qed

lemma Normalize_zlib_names: "NormalizeResponseEncoding ''gzip'' = ''gzip''" "NormalizeResponseEncoding ''deflate'' = ''deflate''"
  by code_simp+

lemma Zlib_Decode_gzip:
  "ZlibContentEncodingDecoder_Decode (Some Z) body ''gzip'' = fst (InflateBody Z body (MAX_WBITS Z + 16))"
  by (simp add: ZlibContentEncodingDecoder_Decode_def Normalize_zlib_names)

lemma Zlib_decoder_default:
  "ZlibContentEncodingDecoder_default (Some Z) =
     Inr \<lparr>AcceptedResponseEncodings = [''gzip'', ''deflate''], Decoder_Decode = ZlibContentEncodingDecoder_Decode (Some Z)\<rparr>"
  by (simp add: ZlibContentEncodingDecoder_default_def ZlibContentEncodingDecoder_new_def NormalizeZlibResponseEncodings_def Normalize_zlib_names)

lemma Parse_gzip: "ParseContentEncodings ''gzip'' = [''gzip'']"
  by code_simp

text \<open>A body labelled \<open>gzip\<close> goes through the default decoder.\<close>

lemma DecodeHttpResponseBody_gzip:
  assumes "ZlibContentEncodingDecoder_default (Some Z) = Inr decoder"
  shows "DecodeHttpResponseBody body ''gzip'' [Some decoder] = ZlibContentEncodingDecoder_Decode (Some Z) body ''gzip''"
proof -
  have d: "decoder = \<lparr>AcceptedResponseEncodings = [''gzip'', ''deflate''], Decoder_Decode = ZlibContentEncodingDecoder_Decode (Some Z)\<rparr>"
    using assms by (simp add: Zlib_decoder_default)
  then have "BuildDecoderEntries [Some decoder] =
      Inr [\<lparr>entry_encoding = ''gzip'', entry_decoder = decoder\<rparr>, \<lparr>entry_encoding = ''deflate'', entry_decoder = decoder\<rparr>]"
    by (simp add: BuildDecoderEntries_def Normalize_zlib_names Let_def)
  then show ?thesis
    using d by (cases "ZlibContentEncodingDecoder_Decode (Some Z) body ''gzip''")
      (simp_all add: DecodeHttpResponseBody_def Parse_gzip FindDecoderEntry_def)
qed

section \<open>A small zlib\<close>

text \<open>
  A library that satisfies the contracts: a byte is coded by itself after a marker, the end by another marker.
  The stream of a compression is the output that did not fit and whether the end was coded, the stream of a
  decompression the input so far and how much of the content was given.
\<close>

definition demo_code :: "string \<Rightarrow> string" where
  "demo_code b = concat (map (\<lambda>c. [CHR 0x01, c]) b)"

fun demo_decode :: "string \<Rightarrow> (string \<times> string) option" where
  "demo_decode [] = None"
| "demo_decode [c] = (if c = CHR 0x00 then Some ([], []) else None)"
| "demo_decode (c # d # cs) =
     (if c = CHR 0x00 then Some ([], d # cs) else map_option (\<lambda>(b, junk). (d # b, junk)) (demo_decode cs))"

definition demo_deflate :: "z_flush \<Rightarrow> string \<times> nat \<Rightarrow> string \<Rightarrow> nat \<Rightarrow> z_code \<times> (string \<times> nat) \<times> string \<times> string" where
  "demo_deflate flush stream inp n =
     (let fin = (if flush = Z_FINISH then 1 else snd stream);
          p = fst stream @ demo_code inp @ (if flush = Z_FINISH \<and> snd stream = 0 then [CHR 0x00] else [])
      in (if flush = Z_FINISH \<and> length p \<le> n then Z_STREAM_END else Z_OK, (drop n p, fin), [], take n p))"

definition demo_inflate :: "string \<times> nat \<Rightarrow> string \<Rightarrow> nat \<Rightarrow> z_code \<times> (string \<times> nat) \<times> string \<times> string" where
  "demo_inflate stream inp n =
     (case stream of (taken, given) \<Rightarrow>
        case demo_decode (taken @ inp) of
          None \<Rightarrow> if inp = [] then (Z_FAILED (- 5), stream, [], []) else (Z_OK, (taken @ inp, given), [], [])
        | Some (b, junk) \<Rightarrow>
            (if length b - given \<le> n then Z_STREAM_END else Z_OK,
             (taken @ take (length inp - length junk) inp, given + n), junk, take n (drop given b)))"

definition demo_zlib :: "(string \<times> nat) Zlib" where
  "demo_zlib =
     \<lparr>MAX_WBITS = 15, deflateInit2 = (\<lambda>_. (Z_OK, [], 0)), deflate = demo_deflate, deflateEnd = (\<lambda>s. s),
      inflateInit2 = (\<lambda>_. (Z_OK, [], 0)), inflate = demo_inflate, inflateEnd = (\<lambda>s. s)\<rparr>"

definition demo_decodes :: "string \<Rightarrow> string \<Rightarrow> bool" where
  "demo_decodes e b \<longleftrightarrow> e = demo_code b @ [CHR 0x00]"

lemma demo_decode_complete: "demo_decode (demo_code b @ CHR 0x00 # junk) = Some (b, junk)"
  by (induction b) (cases junk; simp add: demo_code_def)+

lemma demo_decode_truncated: "strict_prefix p (demo_code b @ [CHR 0x00]) \<Longrightarrow> demo_decode p = None"
proof (induction b arbitrary: p)
  case Nil
  then show ?case by (cases p) (auto simp: demo_code_def strict_prefix_def)
next
  case (Cons c b)
  show ?case
  proof (cases p rule: demo_decode.cases)
    case (3 x y q)
    then have "strict_prefix q (demo_code b @ [CHR 0x00])" "x = CHR 0x01"
      using Cons.prems by (auto simp: demo_code_def)
    with 3 Cons.IH show ?thesis by simp
  qed (use Cons.prems in \<open>auto simp: demo_code_def\<close>)
qed

lemma demo_zlib_compresses: "zlib_compresses demo_zlib window_bits demo_decodes"
proof -
  define deflating where "deflating = (\<lambda>stream :: string \<times> nat. \<lambda>xs ys (full :: bool) fin.
    ys @ fst stream = demo_code xs @ (if fin = None then [] else [CHR 0x00]) \<and>
    snd stream = (if fin = None then 0 else 1) \<and> (fin = None \<or> fin = Some ([] :: string)))"
  have "deflate_call demo_decodes deflating flush xs ys inp n (demo_deflate flush stream inp n)"
    if "deflating stream xs ys full fin" "fin = None \<or> flush = Z_FINISH \<and> fin = Some inp"
    for stream xs ys full fin flush inp n
  proof -
    define p where "p = fst stream @ demo_code inp @ (if flush = Z_FINISH \<and> snd stream = 0 then [CHR 0x00] else [])"
    have "ys @ p = demo_code (xs @ inp) @ (if flush = Z_FINISH then [CHR 0x00] else [])"
      using that by (auto simp: p_def deflating_def demo_code_def simp flip: append_assoc)
    moreover have "demo_deflate flush stream inp n =
        (if flush = Z_FINISH \<and> length p \<le> n then Z_STREAM_END else Z_OK,
         (drop n p, if flush = Z_FINISH then 1 else snd stream), [], take n p)"
      by (simp add: demo_deflate_def p_def)
    ultimately show ?thesis
      using that by (auto simp: deflate_call_def deflating_def demo_decodes_def)
  qed
  then have "deflates_with demo_zlib demo_decodes deflating"
    unfolding deflates_with_def by (simp add: demo_zlib_def)
  moreover have "length ys \<le> 2 * length xs + 1" if "deflating stream xs ys full fin" for stream xs ys full fin
  proof -
    have "length (ys @ fst stream) \<le> length (demo_code xs) + 1" using that by (auto simp: deflating_def)
    moreover have "length (demo_code xs) = 2 * length xs" by (induction xs) (simp_all add: demo_code_def)
    ultimately show ?thesis by simp
  qed
  moreover have "deflating ([], 0) [] [] False None" by (simp add: deflating_def demo_code_def)
  moreover have "deflateInit2 demo_zlib window_bits = (Z_OK, [], 0)" by (simp add: demo_zlib_def)
  ultimately show ?thesis
    unfolding zlib_compresses_def
    by (intro exI[of _ deflating] exI[of _ "\<lambda>n. 2 * n + 1"] conjI exI[of _ "([], 0)"]) blast+
qed

lemma demo_zlib_decompresses: "zlib_decompresses demo_zlib window_bits demo_decodes"
proof -
  define inflating where "inflating = (\<lambda>stream :: string \<times> nat. \<lambda>e b. \<exists>content.
    fst stream @ e = demo_code content @ [CHR 0x00] \<and> b = drop (snd stream) content \<and>
    snd stream \<le> length content \<and> (e \<noteq> [] \<longrightarrow> snd stream = 0))"
  have "inflate_call inflating e b inp n (demo_inflate (taken, given) inp n)"
    if i: "inflating (taken, given) e b" and n: "0 < n" and p: "prefix e inp \<or> prefix inp e" for taken given e b inp n
  proof -
    from i obtain content where c: "taken @ e = demo_code content @ [CHR 0x00]" "b = drop given content"
      "given \<le> length content" "e \<noteq> [] \<longrightarrow> given = 0" unfolding inflating_def by auto
    show ?thesis
    proof (cases "prefix e inp")
      case True
      then obtain junk where inp: "inp = e @ junk" by (auto simp: prefix_def)
      with c(1) have "taken @ inp = demo_code content @ CHR 0x00 # junk" by (metis append_Cons append_Nil append_assoc)
      then have "demo_decode (taken @ inp) = Some (content, junk)" by (simp add: demo_decode_complete)
      then have "demo_inflate (taken, given) inp n =
          (if length b \<le> n then Z_STREAM_END else Z_OK, (taken @ e, given + n), junk, take n b)"
        using c inp by (simp add: demo_inflate_def)
      moreover have "inflating (taken @ e, given + n) [] (drop n b)" if "n < length b"
        unfolding inflating_def using c that by (intro exI[of _ content]) (auto simp: add.commute)
      moreover from this have "\<exists>used e' b'. inp = used @ junk \<and> e = used @ e' \<and> b = take n b @ b' \<and>
          inflating (taken @ e, given + n) e' b' \<and> (used \<noteq> [] \<or> take n b \<noteq> []) \<and> (prefix e inp \<longrightarrow> length (take n b) = n)"
        if "n < length b" using n inp that by (intro exI[of _ e] exI[of _ "[]"] exI[of _ "drop n b"]) auto
      ultimately show ?thesis using inp by (simp add: inflate_call_def)
    next
      case False
      with p have "strict_prefix inp e" by (auto simp: strict_prefix_def)
      then have s: "strict_prefix (taken @ inp) (demo_code content @ [CHR 0x00])"
        by (simp add: strict_prefix_def flip: c(1))
      from \<open>strict_prefix inp e\<close> obtain e' where e: "e = inp @ e'" "e' \<noteq> []" by (auto simp: strict_prefix_def prefix_def)
      then have "inflating (taken @ inp, given) e' b"
        unfolding inflating_def using c by (intro exI[of _ content]) auto
      then show ?thesis using False demo_decode_truncated[OF s] e by (auto simp: demo_inflate_def inflate_call_def)
    qed
  qed
  then have "inflates_with demo_zlib inflating"
    unfolding inflates_with_def by (auto simp: demo_zlib_def)
  moreover have "inflating ([], 0) e b" if "demo_decodes e b" for e b
    using that by (auto simp: inflating_def demo_decodes_def)
  moreover have "inflateInit2 demo_zlib window_bits = (Z_OK, [], 0)" by (simp add: demo_zlib_def)
  ultimately show ?thesis unfolding zlib_decompresses_def by blast
qed

section \<open>Properties\<close>

text \<open>
  gzip end to end. The compressor reads the whole rest of a request body, in portions of any number, and
  writes a stream that the decoder, found by the coding the compressor names, turns back into the same
  bytes. A body below the minimal size is left alone, and so are both streams.
\<close>

theorem gzip_roundtrip:
  assumes "zlib_compresses Z (MAX_WBITS Z + 16) gzip" "zlib_decompresses Z (MAX_WBITS Z + 16) gzip"
    and "GzipRequestCompressor_new (Some Z) min_size_bytes = Inr compressor"
    and "ZlibContentEncodingDecoder_default (Some Z) = Inr decoder"
    and "io_readable is" "io_writable os"
  shows "if n < min_size_bytes then Compressor_Compress compressor is n os = (Inr False, is, os)
    else \<exists>out. Compressor_Compress compressor is n os = (Inr True, drained is, appended os out) \<and>
      (length out < 2 ^ 32 \<longrightarrow>
       DecodeHttpResponseBody out (Compressor_ContentEncoding compressor) [Some decoder] = Inr (io_rest is))"
proof -
  have c: "compressor = \<lparr>Compressor_ContentEncoding = ''gzip'',
      Compressor_Compress = GzipRequestCompressor_Compress (Some Z) min_size_bytes\<rparr>"
    using assms(3) by (simp add: GzipRequestCompressor_new_def)
  show ?thesis
  proof (cases "n < min_size_bytes")
    case True
    then show ?thesis by (simp add: c GzipRequestCompressor_Compress_def)
  next
    case False
    then obtain out where
      "GzipRequestCompressor_Compress (Some Z) min_size_bytes is n os = (Inr True, drained is, appended os out)"
      and gzip: "gzip out (io_rest is)"
      using Gzip_Compress_finishes[OF assms(1,5,6), of min_size_bytes n] by (metis not_less)
    moreover have "fst (InflateBody Z out (MAX_WBITS Z + 16)) = Inr (io_rest is)" if "length out < 2 ^ 32"
      using InflateBody_contract[OF assms(2) gzip _ that] by simp
    ultimately show ?thesis
      using False by (auto simp: c DecodeHttpResponseBody_gzip[OF assms(4)] Zlib_Decode_gzip)
  qed
qed

theorem gzip_roundtrip_witness:
  "\<exists>compressor decoder out. GzipRequestCompressor_new (Some demo_zlib) 3 = Inr compressor \<and>
     ZlibContentEncodingDecoder_default (Some demo_zlib) = Inr decoder \<and>
     Compressor_Compress compressor (StringStream\<lparr>io_data := ''body''\<rparr>) 4 StringStream =
       (Inr True, drained (StringStream\<lparr>io_data := ''body''\<rparr>), appended StringStream out) \<and>
     (length out < 2 ^ 32 \<longrightarrow>
      DecodeHttpResponseBody out (Compressor_ContentEncoding compressor) [Some decoder] = Inr ''body'')"
proof -
  obtain compressor decoder where cd: "GzipRequestCompressor_new (Some demo_zlib) 3 = Inr compressor"
    "ZlibContentEncodingDecoder_default (Some demo_zlib) = Inr decoder"
    by (simp add: GzipRequestCompressor_new_def Zlib_decoder_default)
  moreover have "io_readable (StringStream\<lparr>io_data := ''body''\<rparr>)" "io_rest (StringStream\<lparr>io_data := ''body''\<rparr>) = ''body''"
    by (simp_all add: io_readable_def io_good_def io_rest_def StringStream_def)
  ultimately show ?thesis
    using gzip_roundtrip[OF demo_zlib_compresses demo_zlib_decompresses cd, of "StringStream\<lparr>io_data := ''body''\<rparr>" StringStream 4]
    by auto
qed



end
