(* ===== verification/Routing_Scope.thy ===== *)
theory Routing_Scope
  imports Prelude
begin

text \<open>
  \<open>src/src/routing_scope.cpp\<close>: a routing scope selects the nodes of the cluster, of a datacenter or
  of a rack, and may name a fallback scope. The class hierarchy is a datatype; the shared pointer
  to the fallback is an option, so a chain of scopes is finite and ends.
\<close>

section \<open>Scopes\<close>

datatype RoutingScope =
    ClusterScope
  | DatacenterScope string "RoutingScope option"
  | RackScope string string "RoutingScope option"

fun RoutingScope_Name :: "RoutingScope \<Rightarrow> string" where
  "RoutingScope_Name ClusterScope = ''Cluster''"
| "RoutingScope_Name (DatacenterScope datacenter fallback) = ''Datacenter''"
| "RoutingScope_Name (RackScope datacenter rack fallback) = ''Rack''"

fun RoutingScope_ToString :: "RoutingScope \<Rightarrow> string" where
  "RoutingScope_ToString ClusterScope = ''Cluster()''"
| "RoutingScope_ToString (DatacenterScope datacenter fallback) = ''Datacenter(dc='' @ datacenter @ '')''"
| "RoutingScope_ToString (RackScope datacenter rack fallback) =
     ''Rack(dc='' @ datacenter @ '', rack='' @ rack @ '')''"

fun LocalNodesQuery :: "RoutingScope \<Rightarrow> string" where
  "LocalNodesQuery ClusterScope = []"
| "LocalNodesQuery (DatacenterScope datacenter fallback) = ''dc='' @ datacenter"
| "LocalNodesQuery (RackScope datacenter rack fallback) = ''dc='' @ datacenter @ ''&rack='' @ rack"

fun RoutingScope_Fallback :: "RoutingScope \<Rightarrow> RoutingScope option" where
  "RoutingScope_Fallback ClusterScope = None"
| "RoutingScope_Fallback (DatacenterScope datacenter fallback) = fallback"
| "RoutingScope_Fallback (RackScope datacenter rack fallback) = fallback"

fun IsCluster :: "RoutingScope \<Rightarrow> bool" where
  "IsCluster ClusterScope = True"
| "IsCluster _ = False"

definition NewClusterScope :: RoutingScope where
  "NewClusterScope = ClusterScope"

definition NewDCScope :: "string \<Rightarrow> RoutingScope option \<Rightarrow> RoutingScope" where
  "NewDCScope datacenter fallback = DatacenterScope datacenter fallback"

definition NewRackScope :: "string \<Rightarrow> string \<Rightarrow> RoutingScope option \<Rightarrow> RoutingScope" where
  "NewRackScope datacenter rack fallback = RackScope datacenter rack fallback"

section \<open>Chains of fallbacks\<close>

text \<open>The scopes the discovery tries, from the configured one through its fallbacks.\<close>

fun scope_chain :: "RoutingScope \<Rightarrow> RoutingScope list" where
  "scope_chain ClusterScope = [ClusterScope]"
| "scope_chain (DatacenterScope dc fb) =
     DatacenterScope dc fb # (case fb of None \<Rightarrow> [] | Some s \<Rightarrow> scope_chain s)"
| "scope_chain (RackScope dc r fb) =
     RackScope dc r fb # (case fb of None \<Rightarrow> [] | Some s \<Rightarrow> scope_chain s)"

lemma size_Fallback [termination_simp]: "RoutingScope_Fallback s = Some s' \<Longrightarrow> size s' < size s"
  by (cases s) auto

lemma scope_chain_Fallback:
  "scope_chain s = s # (case RoutingScope_Fallback s of None \<Rightarrow> [] | Some s' \<Rightarrow> scope_chain s')"
  by (cases s) (simp_all split: option.splits)

end
