(* ===== verification/Uri.thy ===== *)
theory Uri
  imports Prelude
begin

text \<open>
  \<open>src/src/uri.cpp\<close>: the \<open>Url\<close> class, its authority and string forms, and its comparison
  operators. \<open>operator==\<close> compares fields (record equality here); \<open>operator<\<close> compares the
  string forms. The two agree on node URLs (\<open>node_url\<close>), which is what the ordered containers
  and \<open>SortAndDedupeNodes\<close> rely on.
\<close>

section \<open>Data and operations\<close>

record Url =
  url_scheme :: string
  url_host :: string
  url_port :: u16
  url_path :: string
  url_query :: string

definition Url_default :: Url where
  "Url_default = \<lparr>url_scheme = [], url_host = [], url_port = 0, url_path = [], url_query = []\<rparr>"

definition Url_new :: "string \<Rightarrow> string \<Rightarrow> u16 \<Rightarrow> Url" where
  "Url_new scheme_value host_value port_value =
     Url_default\<lparr>url_scheme := scheme_value, url_host := host_value, url_port := port_value\<rparr>"

definition Url_FromHostPort :: "string \<Rightarrow> string \<Rightarrow> u16 \<Rightarrow> Url" where
  "Url_FromHostPort scheme host port = Url_new scheme host port"

definition FormatHostForAuthority :: "string \<Rightarrow> string" where
  "FormatHostForAuthority host =
     (if CHR '':'' \<in> set host \<and> (host = [] \<or> hd host \<noteq> CHR ''['')
      then ''['' @ host @ '']'' else host)"

definition Url_Empty :: "Url \<Rightarrow> bool" where
  "Url_Empty u \<longleftrightarrow> url_host u = []"

definition Url_Authority :: "Url \<Rightarrow> string" where
  "Url_Authority u =
     FormatHostForAuthority (url_host u) @
     (if url_port u \<noteq> 0 then '':'' @ to_string (unat (url_port u)) else [])"

definition Url_ToString :: "Url \<Rightarrow> string" where
  "Url_ToString u =
     (if url_host u = [] then []
      else url_scheme u @ ''://'' @ Url_Authority u @
        (if url_path u \<noteq> [] then url_path u else []) @
        (if url_query u \<noteq> [] then ''?'' @ url_query u else []))"

definition Url_WithPathAndQuery :: "Url \<Rightarrow> string \<Rightarrow> string \<Rightarrow> Url" where
  "Url_WithPathAndQuery u path_value query_value = u\<lparr>url_path := path_value, url_query := query_value\<rparr>"

definition Url_eq :: "Url \<Rightarrow> Url \<Rightarrow> bool" where
  "Url_eq lhs rhs \<longleftrightarrow>
     url_scheme lhs = url_scheme rhs \<and>
     url_host lhs = url_host rhs \<and>
     url_port lhs = url_port rhs \<and>
     url_path lhs = url_path rhs \<and>
     url_query lhs = url_query rhs"

definition Url_less :: "Url \<Rightarrow> Url \<Rightarrow> bool" where
  "Url_less lhs rhs \<longleftrightarrow> Url_ToString lhs < Url_ToString rhs"

text \<open>
  The URLs the client keeps as nodes: built from a scheme, a host and a port, the host not empty
  and not already in brackets.
\<close>

definition node_url :: "Url \<Rightarrow> bool" where
  "node_url u \<longleftrightarrow>
     CHR '':'' \<notin> set (url_scheme u) \<and> url_host u \<noteq> [] \<and> hd (url_host u) \<noteq> CHR ''['' \<and>
     url_path u = [] \<and> url_query u = []"

section \<open>Basic facts\<close>

lemma Url_eq_iff [simp]: "Url_eq a b \<longleftrightarrow> a = b"
  by (auto simp: Url_eq_def)

lemma Url_new_sel [simp]:
  "url_scheme (Url_new s h p) = s" "url_host (Url_new s h p) = h" "url_port (Url_new s h p) = p"
  "url_path (Url_new s h p) = []" "url_query (Url_new s h p) = []"
  by (simp_all add: Url_new_def Url_default_def)

lemma Url_new_inject [simp]: "Url_new s h p = Url_new s' h' p' \<longleftrightarrow> s = s' \<and> h = h' \<and> p = p'"
  by (auto simp: Url_new_def Url_default_def)

lemma Url_Empty_default [simp]: "Url_Empty Url_default"
  by (simp add: Url_Empty_def Url_default_def)

lemma Url_Empty_new [simp]: "Url_Empty (Url_new s h p) \<longleftrightarrow> h = []"
  by (simp add: Url_Empty_def)

lemma node_url_nonempty [simp]: "node_url u \<Longrightarrow> \<not> Url_Empty u"
  by (simp add: node_url_def Url_Empty_def)

lemma Url_ToString_Empty: "Url_Empty u \<Longrightarrow> Url_ToString u = []"
  by (simp add: Url_ToString_def Url_Empty_def)

lemma Url_ToString_eq_Nil [simp]: "Url_ToString u = [] \<longleftrightarrow> Url_Empty u"
  by (simp add: Url_ToString_def Url_Empty_def)

section \<open>The string form identifies a node\<close>

lemma split_at_first:
  assumes "c \<notin> set xs" "c \<notin> set xs'"
  shows "xs @ c # ys = xs' @ c # ys' \<longleftrightarrow> xs = xs' \<and> ys = ys'"
  using assms
proof (induction xs arbitrary: xs')
  case Nil
  then show ?case by (cases xs') auto
next
  case (Cons x xs)
  then show ?case by (cases xs') auto
qed

lemma split_at_last:
  assumes "c \<notin> set ys" "c \<notin> set ys'"
  shows "xs @ c # ys = xs' @ c # ys' \<longleftrightarrow> xs = xs' \<and> ys = ys'"
proof -
  have "xs @ c # ys = xs' @ c # ys' \<longleftrightarrow> rev ys @ c # rev xs = rev ys' @ c # rev xs'"
    by (metis append_assoc append_Cons append_Nil rev.simps(2) rev_append rev_rev_ident)
  then show ?thesis using assms by (simp add: split_at_first) auto
qed

lemma is_digit_not_punct: "is_digit c \<Longrightarrow> c \<noteq> CHR '']'' \<and> c \<noteq> CHR '':''"
  by (auto simp: is_digit_def)

definition port_suffix :: "u16 \<Rightarrow> string" where
  "port_suffix p = (if p \<noteq> 0 then '':'' @ to_string (unat p) else [])"

lemma port_suffix_inject [simp]: "port_suffix p = port_suffix q \<longleftrightarrow> p = q"
  by (auto simp: port_suffix_def intro: word_unat_eq_iff[THEN iffD2])

lemma port_suffix_no_bracket: "CHR '']'' \<notin> set (port_suffix p)"
  using is_digit_not_punct to_string_digits by (fastforce simp: port_suffix_def)

lemma plain_host_port_inject:
  assumes "CHR '':'' \<notin> set h" "CHR '':'' \<notin> set h'"
  shows "h @ port_suffix p = h' @ port_suffix p' \<longleftrightarrow> h = h' \<and> p = p'"
proof
  assume eq: "h @ port_suffix p = h' @ port_suffix p'"
  have "h = takeWhile (\<lambda>c. c \<noteq> CHR '':'') (h @ port_suffix p)"
    if "CHR '':'' \<notin> set h" for h p
    using that by (auto simp: takeWhile_append port_suffix_def)
  with assms eq have "h = h'" by metis
  with eq show "h = h' \<and> p = p'" by simp
qed simp

lemma Authority_inject:
  assumes "node_url a" "node_url b"
  shows "Url_Authority a = Url_Authority b \<longleftrightarrow> url_host a = url_host b \<and> url_port a = url_port b"
proof -
  have auth: "Url_Authority u = FormatHostForAuthority (url_host u) @ port_suffix (url_port u)" for u
    by (simp add: Url_Authority_def port_suffix_def)
  have plain: "h @ port_suffix p \<noteq> CHR ''['' # t" "CHR ''['' # t \<noteq> h @ port_suffix p"
    if "h \<noteq> []" "hd h \<noteq> CHR ''[''" for h p t
    using that by (cases h; simp)+
  show ?thesis
    using assms
    by (auto simp: plain auth FormatHostForAuthority_def node_url_def plain_host_port_inject
        split_at_last port_suffix_no_bracket)
qed

lemma Url_ToString_inject:
  assumes "node_url a" "node_url b" "Url_ToString a = Url_ToString b"
  shows "a = b"
proof -
  from assms have "url_scheme a @ CHR '':'' # ''//'' @ Url_Authority a =
      url_scheme b @ CHR '':'' # ''//'' @ Url_Authority b"
    by (simp add: Url_ToString_def node_url_def)
  with assms(1,2) have "url_scheme a = url_scheme b \<and> Url_Authority a = Url_Authority b"
    by (simp add: split_at_first node_url_def)
  with assms(1,2) show ?thesis
    by (simp add: Authority_inject) (simp add: node_url_def)
qed

lemma inj_on_Url_ToString: "Ball (set us) node_url \<Longrightarrow> inj_on Url_ToString (set us)"
  by (auto simp: inj_on_def intro: Url_ToString_inject)

text \<open>
  on node URLs \<open>operator<\<close> is a strict total order that agrees with \<open>operator==\<close>: exactly
  one of \<open>a < b\<close>, \<open>a == b\<close>, \<open>b < a\<close> holds, and \<open><\<close> is transitive. This is what makes the
  \<open>std::map\<close>, \<open>std::sort\<close> and \<open>std::unique\<close> of node lists consistent with each other.
\<close>

theorem Url_less_strict_total_order:
  assumes "node_url a" "node_url b" "node_url c"
  shows "(if a = b then \<not> Url_less a b else Url_less a b \<noteq> Url_less b a) \<and>
         (Url_less a b \<and> Url_less b c \<longrightarrow> Url_less a c) \<and>
         (Url_eq a b \<longleftrightarrow> a = b)"
  using assms Url_ToString_inject[of a b] by (auto simp: Url_less_def not_less order_le_less)

theorem Url_less_strict_total_order_witness:
  "Url_less (Url_new ''http'' ''::1'' 8080) (Url_new ''http'' ''a'' 8080) \<and>
   \<not> Url_less (Url_new ''http'' ''a'' 8080) (Url_new ''http'' ''::1'' 8080)"
proof -
  have w: "node_url (Url_new ''http'' ''::1'' 8080)" "node_url (Url_new ''http'' ''a'' 8080)"
    by (simp_all add: node_url_def)
  have "Url_less (Url_new ''http'' ''::1'' 8080) (Url_new ''http'' ''a'' 8080)"
    by (simp add: Url_less_def Url_ToString_def Url_Authority_def FormatHostForAuthority_def)
  with Url_less_strict_total_order[OF w(1) w(2) w(2)] show ?thesis by auto
qed

end
