(* ===== verification/Std_Map.thy ===== *)
theory Std_Map
  imports Prelude
begin

text \<open>
  \<open>std::map<K, V>\<close> as the code uses it. The map orders its keys by a comparator that reads a
  projection of the key (\<open>Url::operator<\<close> compares \<open>ToString()\<close>), so two keys with the same
  projection are one entry. The model is the association list in iteration order; the locale
  \<open>ordered_map\<close> states what the clients rely on and is interpreted on these definitions.
\<close>

section \<open>Operations\<close>

type_synonym ('k, 'v) std_map = "('k \<times> 'v) list"

fun map_find :: "('k \<Rightarrow> 'o) \<Rightarrow> 'k \<Rightarrow> ('k, 'v) std_map \<Rightarrow> 'v option" where
  "map_find key k [] = None"
| "map_find key k ((k', v) # m) = (if key k' = key k then Some v else map_find key k m)"

fun map_emplace :: "('k \<Rightarrow> 'o::linorder) \<Rightarrow> 'k \<Rightarrow> 'v \<Rightarrow> ('k, 'v) std_map \<Rightarrow> ('k, 'v) std_map" where
  "map_emplace key k v [] = [(k, v)]"
| "map_emplace key k v ((k', v') # m) =
     (if key k < key k' then (k, v) # (k', v') # m
      else if key k = key k' then (k', v') # m
      else (k', v') # map_emplace key k v m)"

fun map_assign :: "('k \<Rightarrow> 'o::linorder) \<Rightarrow> 'k \<Rightarrow> 'v \<Rightarrow> ('k, 'v) std_map \<Rightarrow> ('k, 'v) std_map" where
  "map_assign key k v [] = [(k, v)]"
| "map_assign key k v ((k', v') # m) =
     (if key k < key k' then (k, v) # (k', v') # m
      else if key k = key k' then (k', v) # m
      else (k', v') # map_assign key k v m)"

definition map_erase :: "('k \<Rightarrow> 'o) \<Rightarrow> 'k \<Rightarrow> ('k, 'v) std_map \<Rightarrow> ('k, 'v) std_map" where
  "map_erase key k m = filter (\<lambda>(k', v). key k' \<noteq> key k) m"

text \<open>In-place update of the entry an iterator points at (\<open>it->second = f(it->second)\<close>).\<close>

definition map_update :: "('k \<Rightarrow> 'o) \<Rightarrow> 'k \<Rightarrow> ('v \<Rightarrow> 'v) \<Rightarrow> ('k, 'v) std_map \<Rightarrow> ('k, 'v) std_map" where
  "map_update key k f m = map (\<lambda>(k', v). (k', if key k' = key k then f v else v)) m"

definition map_invar :: "('k \<Rightarrow> 'o::linorder) \<Rightarrow> ('k, 'v) std_map \<Rightarrow> bool" where
  "map_invar key m \<longleftrightarrow> sorted_wrt (<) (map (key \<circ> fst) m)"

section \<open>The interface\<close>

locale ordered_map =
  fixes key :: "'k \<Rightarrow> 'o::linorder"
    and find :: "'k \<Rightarrow> 'm \<Rightarrow> 'v option"
    and emplace :: "'k \<Rightarrow> 'v \<Rightarrow> 'm \<Rightarrow> 'm"
    and assign :: "'k \<Rightarrow> 'v \<Rightarrow> 'm \<Rightarrow> 'm"
    and erase :: "'k \<Rightarrow> 'm \<Rightarrow> 'm"
    and invar :: "'m \<Rightarrow> bool"
  assumes find_emplace: "invar m \<Longrightarrow>
      find k (emplace k' v m) = (if key k = key k' \<and> find k' m = None then Some v else find k m)"
    and find_assign: "invar m \<Longrightarrow> find k (assign k' v m) = (if key k = key k' then Some v else find k m)"
    and find_erase: "invar m \<Longrightarrow> find k (erase k' m) = (if key k = key k' then None else find k m)"
    and invar_emplace: "invar m \<Longrightarrow> invar (emplace k v m)"
    and invar_assign: "invar m \<Longrightarrow> invar (assign k v m)"
    and invar_erase: "invar m \<Longrightarrow> invar (erase k m)"
    and find_cong: "key k = key k' \<Longrightarrow> find k m = find k' m"
begin

lemma invar_fold_emplace: "invar m \<Longrightarrow> invar (fold (\<lambda>k. emplace k v) ks m)"
  by (induction ks arbitrary: m) (auto simp: invar_emplace)

lemma find_fold_emplace:
  "invar m \<Longrightarrow> find k (fold (\<lambda>k. emplace k v) ks m) =
     (if find k m = None \<and> key k \<in> key ` set ks then Some v else find k m)"
proof (induction ks arbitrary: m)
  case (Cons k' ks)
  then show ?case
    using find_cong[of k k' m] by (auto simp: invar_emplace find_emplace)
qed simp

lemma invar_fold_erase: "invar m \<Longrightarrow> invar (fold erase ks m)"
  by (induction ks arbitrary: m) (auto simp: invar_erase)

lemma find_fold_erase:
  "invar m \<Longrightarrow> find k (fold erase ks m) = (if key k \<in> key ` set ks then None else find k m)"
  by (induction ks arbitrary: m) (auto simp: invar_erase find_erase)

end

section \<open>The association list implements it\<close>

lemma map_invar_simps [simp]:
  "map_invar key []"
  "map_invar key ((k, v) # m) \<longleftrightarrow> (\<forall>(k', v') \<in> set m. key k < key k') \<and> map_invar key m"
  by (auto simp: map_invar_def)

lemma map_find_eq_Some:
  "map_invar key m \<Longrightarrow> map_find key k m = Some v \<longleftrightarrow> (\<exists>k'. (k', v) \<in> set m \<and> key k' = key k)"
  by (induction m) (force split: if_splits)+

lemma map_find_eq_None: "map_find key k m = None \<longleftrightarrow> key k \<notin> (key \<circ> fst) ` set m"
  by (induction m) (auto split: if_splits)

lemma map_find_cong: "key k = key k' \<Longrightarrow> map_find key k m = map_find key k' m"
  by (induction m) auto

lemma map_find_below: "\<forall>(k', v) \<in> set m. key k < key k' \<Longrightarrow> map_find key k m = None"
  for key :: "'k \<Rightarrow> 'o::linorder"
  by (induction m) auto

lemma set_map_emplace:
  "x \<in> set (map_emplace key k v m) \<Longrightarrow> x = (k, v) \<or> x \<in> set m"
  by (induction m) (auto split: if_splits)

lemma set_map_assign:
  "(k', v') \<in> set (map_assign key k v m) \<Longrightarrow> key k' = key k \<or> (k', v') \<in> set m"
  by (induction m) (auto split: if_splits)

lemma map_invar_emplace: "map_invar key m \<Longrightarrow> map_invar key (map_emplace key k v m)"
proof (induction m)
  case (Cons a m)
  then show ?case by (cases a) (fastforce dest: set_map_emplace)
qed simp

lemma map_invar_assign: "map_invar key m \<Longrightarrow> map_invar key (map_assign key k v m)"
proof (induction m)
  case (Cons a m)
  obtain k1 v1 where a: "a = (k1, v1)" by (cases a)
  have "key k1 < key k'" if "(k', v') \<in> set (map_assign key k v m)" "key k1 < key k" for k' v'
    using that Cons.prems a by (auto dest!: set_map_assign)
  with Cons a show ?case by fastforce
qed simp

lemma map_invar_erase: "map_invar key m \<Longrightarrow> map_invar key (map_erase key k m)"
  by (induction m) (auto simp: map_erase_def)

lemma map_find_emplace:
  "map_invar key m \<Longrightarrow> map_find key k (map_emplace key k' v m) =
     (if key k = key k' \<and> map_find key k' m = None then Some v else map_find key k m)"
proof (induction m)
  case (Cons a m)
  obtain k1 v1 where a: "a = (k1, v1)" by (cases a)
  have "map_find key k' m = None" if "key k' < key k1"
    using that Cons.prems a by (intro map_find_below) fastforce
  with Cons a show ?case by auto
qed simp

lemma map_find_assign:
  "map_invar key m \<Longrightarrow>
     map_find key k (map_assign key k' v m) = (if key k = key k' then Some v else map_find key k m)"
proof (induction m)
  case (Cons a m)
  then show ?case by (cases a) (force simp: map_find_eq_None)
qed simp

lemma map_find_erase:
  "map_find key k (map_erase key k' m) = (if key k = key k' then None else map_find key k m)"
  by (induction m) (auto simp: map_erase_def)

lemma map_find_update:
  "map_find key k (map_update key k' f m) =
     (if key k = key k' then map_option f (map_find key k m) else map_find key k m)"
  by (induction m) (auto simp: map_update_def)

lemma map_fst_update [simp]: "map fst (map_update key k f m) = map fst m"
  by (induction m) (auto simp: map_update_def)

lemma map_invar_update [simp]: "map_invar key (map_update key k f m) = map_invar key m"
  unfolding map_invar_def map_map[symmetric] by simp

text \<open>A map's keys in iteration order are already sorted by the comparator.\<close>

lemma map_invar_keys_sorted: "map_invar key m \<Longrightarrow> sorted (map key (map fst m))"
  by (simp add: map_invar_def strict_sorted_iff comp_assoc)

lemma map_invar_keys_distinct: "map_invar key m \<Longrightarrow> distinct (map key (map fst m))"
  by (simp add: map_invar_def strict_sorted_iff)

interpretation alist_map: ordered_map key "map_find key" "map_emplace key" "map_assign key"
    "map_erase key" "map_invar key" for key :: "'k \<Rightarrow> 'o::linorder"
  by unfold_locales
    (auto simp: map_find_emplace map_find_assign map_find_erase map_invar_emplace
      map_invar_assign map_invar_erase intro: map_find_cong)

end
