(* ===== verification/Node_Health.thy ===== *)
theory Node_Health
  imports Uri Std_Map
begin

text \<open>
  \<open>src/src/node_health.cpp\<close>: the health store. Every node has a status (\<open>Active\<close>, \<open>Quarantined\<close>
  or \<open>Down\<close>, with two 32-bit counters), moved by the observations of its requests. Statuses live
  in a \<open>std::map\<close> ordered by \<open>Url::ToString\<close>. The value of \<open>steady_clock::now()\<close> is an argument
  \<open>now\<close>; a down probe is a function of the outside world \<open>'w\<close> that may throw.

  The status machine is shown to refine one with unbounded counters, so the wrap-around of the
  32-bit counters is never observable, and the invariants are shown of every state that any
  interleaving of the locked operations reaches.
\<close>

section \<open>Data\<close>

type_synonym time_point = int

datatype NodeHealthObservation = Success | ServerError | ConnectionFailure

datatype NodeHealthState = Active | Quarantined | Down

record NodeHealthStoreConfig =
  consecutive_server_error_threshold :: u32
  quarantine_success_threshold :: u32
  down_node_probe_period :: int
  quarantine_traffic_interval :: u32
  nh_disabled :: bool

record NodeHealthStatus =
  nh_state :: NodeHealthState
  consecutive_server_errors :: u32
  consecutive_successes :: u32
  nh_updated :: time_point

record NodeHealthStore =
  nhs_config :: NodeHealthStoreConfig
  nhs_statuses :: "(Url, NodeHealthStatus) std_map"

definition NodeHealthStoreConfig_default :: NodeHealthStoreConfig where
  "NodeHealthStoreConfig_default =
     \<lparr>consecutive_server_error_threshold = 3, quarantine_success_threshold = 3,
      down_node_probe_period = 30000, quarantine_traffic_interval = 10, nh_disabled = False\<rparr>"

section \<open>Operations\<close>

definition NodeHealthStore_GetNodesByState :: "NodeHealthStore \<Rightarrow> NodeHealthState \<Rightarrow> Url list" where
  "NodeHealthStore_GetNodesByState st state =
     sort_key Url_ToString (map fst (filter (\<lambda>(node, status). nh_state status = state) (nhs_statuses st)))"

definition NodeHealthStore_GetActiveNodes :: "NodeHealthStore \<Rightarrow> Url list" where
  "NodeHealthStore_GetActiveNodes st =
     (if nh_disabled (nhs_config st) then sort_key Url_ToString (map fst (nhs_statuses st))
      else NodeHealthStore_GetNodesByState st Active)"

definition NodeHealthStore_GetQuarantinedNodes :: "NodeHealthStore \<Rightarrow> Url list" where
  "NodeHealthStore_GetQuarantinedNodes st =
     (if nh_disabled (nhs_config st) then [] else NodeHealthStore_GetNodesByState st Quarantined)"

definition NodeHealthStore_GetDownNodes :: "NodeHealthStore \<Rightarrow> Url list" where
  "NodeHealthStore_GetDownNodes st =
     (if nh_disabled (nhs_config st) then [] else NodeHealthStore_GetNodesByState st Down)"

definition NodeHealthStore_GetNodeStatus :: "NodeHealthStore \<Rightarrow> Url \<Rightarrow> NodeHealthStatus option" where
  "NodeHealthStore_GetNodeStatus st node = map_find Url_ToString node (nhs_statuses st)"

definition NodeHealthStore_AddNode :: "time_point \<Rightarrow> Url \<Rightarrow> NodeHealthStore \<Rightarrow> NodeHealthStore" where
  "NodeHealthStore_AddNode now node st =
     (if map_find Url_ToString node (nhs_statuses st) \<noteq> None then st
      else st\<lparr>nhs_statuses := map_emplace Url_ToString node
                \<lparr>nh_state = Active, consecutive_server_errors = 0,
                 consecutive_successes = quarantine_success_threshold (nhs_config st),
                 nh_updated = now\<rparr> (nhs_statuses st)\<rparr>)"

definition NodeHealthStore_RemoveNode :: "Url \<Rightarrow> NodeHealthStore \<Rightarrow> NodeHealthStore" where
  "NodeHealthStore_RemoveNode node st =
     st\<lparr>nhs_statuses := map_erase Url_ToString node (nhs_statuses st)\<rparr>"

text \<open>The constructor raises zero thresholds to one before it adds the initial nodes.\<close>

definition NodeHealthStore_normalize :: "NodeHealthStoreConfig \<Rightarrow> NodeHealthStoreConfig" where
  "NodeHealthStore_normalize config =
     config
       \<lparr>consecutive_server_error_threshold :=
          (if consecutive_server_error_threshold config = 0 then 1
           else consecutive_server_error_threshold config),
        quarantine_success_threshold :=
          (if quarantine_success_threshold config = 0 then 1 else quarantine_success_threshold config),
        quarantine_traffic_interval :=
          (if quarantine_traffic_interval config = 0 then 1 else quarantine_traffic_interval config)\<rparr>"

definition NodeHealthStore_new :: "time_point \<Rightarrow> NodeHealthStoreConfig \<Rightarrow> Url list \<Rightarrow> NodeHealthStore" where
  "NodeHealthStore_new now config initial_nodes =
     fold (NodeHealthStore_AddNode now) initial_nodes
       \<lparr>nhs_config = NodeHealthStore_normalize config, nhs_statuses = []\<rparr>"

text \<open>The \<open>switch\<close> of \<open>ReportNodeResult\<close>, on the entry it found; \<open>+ 1\<close> is the 32-bit \<open>++\<close>.\<close>

fun report_status :: "NodeHealthStoreConfig \<Rightarrow> NodeHealthObservation \<Rightarrow> NodeHealthStatus \<Rightarrow> NodeHealthStatus" where
  "report_status config Success s =
     (let s = s\<lparr>consecutive_server_errors := 0\<rparr> in
      case nh_state s of
        Down \<Rightarrow> s\<lparr>nh_state := Quarantined, consecutive_successes := 1\<rparr>
      | Quarantined \<Rightarrow>
          (let s = s\<lparr>consecutive_successes := consecutive_successes s + 1\<rparr> in
           if quarantine_success_threshold config \<le> consecutive_successes s
           then s\<lparr>nh_state := Active, consecutive_successes := quarantine_success_threshold config\<rparr>
           else s)
      | Active \<Rightarrow> s\<lparr>consecutive_successes := quarantine_success_threshold config\<rparr>)"
| "report_status config ServerError s =
     (let s = s\<lparr>consecutive_server_errors := consecutive_server_errors s + 1, consecutive_successes := 0\<rparr> in
      if consecutive_server_error_threshold config \<le> consecutive_server_errors s
      then s\<lparr>nh_state := Down\<rparr> else s)"
| "report_status config ConnectionFailure s =
     s\<lparr>nh_state := Down,
       consecutive_server_errors := consecutive_server_error_threshold config,
       consecutive_successes := 0\<rparr>"

definition NodeHealthStore_ReportNodeResult ::
  "time_point \<Rightarrow> Url \<Rightarrow> NodeHealthObservation \<Rightarrow> NodeHealthStore \<Rightarrow> NodeHealthStore" where
  "NodeHealthStore_ReportNodeResult now node observation st =
     (if nh_disabled (nhs_config st) then st
      else case map_find Url_ToString node (nhs_statuses st) of
             None \<Rightarrow> st
           | Some s \<Rightarrow>
               st\<lparr>nhs_statuses := map_update Url_ToString node
                    (\<lambda>s. (report_status (nhs_config st) observation s)\<lparr>nh_updated := now\<rparr>)
                    (nhs_statuses st)\<rparr>)"

type_synonym 'w DownProbe = "Url \<Rightarrow> NodeHealthStatus \<Rightarrow> 'w \<Rightarrow> NodeHealthObservation result \<times> 'w"

fun ProbeDownNodes_loop ::
  "('w \<Rightarrow> time_point) \<Rightarrow> 'w DownProbe \<Rightarrow> Url list \<Rightarrow> Url list \<Rightarrow> NodeHealthStore \<Rightarrow> 'w \<Rightarrow>
   Url list result \<times> NodeHealthStore \<times> 'w" where
  "ProbeDownNodes_loop now probe [] responsive st w = (Inr responsive, st, w)"
| "ProbeDownNodes_loop now probe (node # candidates) responsive st w =
     (case NodeHealthStore_GetNodeStatus st node of
        None \<Rightarrow> ProbeDownNodes_loop now probe candidates responsive st w
      | Some status \<Rightarrow>
          (case probe node status w of
             (Inl e, w') \<Rightarrow> (Inl e, st, w')
           | (Inr observation, w') \<Rightarrow>
               ProbeDownNodes_loop now probe candidates
                 (if observation = Success then responsive @ [node] else responsive)
                 (NodeHealthStore_ReportNodeResult (now w') node observation st) w'))"

definition NodeHealthStore_ProbeDownNodes ::
  "('w \<Rightarrow> time_point) \<Rightarrow> 'w DownProbe option \<Rightarrow> NodeHealthStore \<Rightarrow> 'w \<Rightarrow>
   Url list result \<times> NodeHealthStore \<times> 'w" where
  "NodeHealthStore_ProbeDownNodes now probe st w =
     (case probe of
        None \<Rightarrow> (Inr [], st, w)
      | Some probe' \<Rightarrow>
          if nh_disabled (nhs_config st) then (Inr [], st, w)
          else ProbeDownNodes_loop now probe' (NodeHealthStore_GetDownNodes st) [] st w)"

section \<open>The status machine without wrap-around\<close>

text \<open>
  The specification of one node: natural-number counters and only what matters in each state, the
  server errors in a row and, in quarantine, the successes in a row.
\<close>

datatype health = HActive nat | HQuarantined nat nat | HDown

fun health_step :: "nat \<Rightarrow> nat \<Rightarrow> NodeHealthObservation \<Rightarrow> health \<Rightarrow> health" where
  "health_step E S ConnectionFailure h = HDown"
| "health_step E S ServerError HDown = HDown"
| "health_step E S ServerError (HActive e) = (if E \<le> e + 1 then HDown else HActive (e + 1))"
| "health_step E S ServerError (HQuarantined e s) = (if E \<le> e + 1 then HDown else HQuarantined (e + 1) 0)"
| "health_step E S Success HDown = HQuarantined 0 1"
| "health_step E S Success (HActive e) = HActive 0"
| "health_step E S Success (HQuarantined e s) = (if S \<le> s + 1 then HActive 0 else HQuarantined 0 (s + 1))"

fun health_state :: "health \<Rightarrow> NodeHealthState" where
  "health_state (HActive e) = Active"
| "health_state (HQuarantined e s) = Quarantined"
| "health_state HDown = Down"

definition abs_status :: "NodeHealthStatus \<Rightarrow> health" where
  "abs_status s = (case nh_state s of
      Active \<Rightarrow> HActive (unat (consecutive_server_errors s))
    | Quarantined \<Rightarrow> HQuarantined (unat (consecutive_server_errors s)) (unat (consecutive_successes s))
    | Down \<Rightarrow> HDown)"

text \<open>The thresholds the constructor establishes, and what every stored status satisfies under them.\<close>

definition config_ok :: "NodeHealthStoreConfig \<Rightarrow> bool" where
  "config_ok c \<longleftrightarrow> consecutive_server_error_threshold c \<noteq> 0 \<and> quarantine_success_threshold c \<noteq> 0 \<and>
     quarantine_traffic_interval c \<noteq> 0"

definition status_ok :: "NodeHealthStoreConfig \<Rightarrow> NodeHealthStatus \<Rightarrow> bool" where
  "status_ok c s \<longleftrightarrow>
     (nh_state s \<noteq> Down \<longrightarrow>
        unat (consecutive_server_errors s) < unat (consecutive_server_error_threshold c)) \<and>
     (nh_state s = Active \<longrightarrow>
        consecutive_successes s =
          (if consecutive_server_errors s = 0 then quarantine_success_threshold c else 0)) \<and>
     (nh_state s = Quarantined \<longrightarrow>
        (consecutive_server_errors s = 0 \<longleftrightarrow> consecutive_successes s \<noteq> 0) \<and>
        unat (consecutive_successes s) < max 2 (unat (quarantine_success_threshold c))) \<and>
     (nh_state s = Down \<longrightarrow> consecutive_successes s = 0)"

lemma unat_inc_below: "unat w < unat t \<Longrightarrow> unat (w + 1) = unat w + 1" for w t :: "'a::len word"
  using le_less_trans[OF Suc_leI unsigned_less[of t]] by (subst unat_add_lem[THEN iffD1]) auto

lemma unat_inc_below_max2: "unat w < max 2 (unat t) \<Longrightarrow> unat (w + 1) = unat w + 1" for w t :: u32
  using unsigned_less[of t, where ?'a = nat] by (subst unat_add_lem[THEN iffD1]) (auto simp: max_def split: if_splits)

lemma health_state_abs [simp]: "health_state (abs_status s) = nh_state s"
  by (simp add: abs_status_def split: NodeHealthState.split)

lemma abs_status_updated [simp]: "abs_status (s\<lparr>nh_updated := t\<rparr>) = abs_status s"
  by (simp add: abs_status_def split: NodeHealthState.split)

lemma status_ok_updated [simp]: "status_ok c (s\<lparr>nh_updated := t\<rparr>) = status_ok c s"
  by (simp add: status_ok_def)

lemma inc_not_zero: "unat (w + 1) = Suc n \<Longrightarrow> w + 1 \<noteq> 0" for w :: "'a::len word"
  by (metis unsigned_0 nat.distinct(1))

lemma status_ok_inc_successes:
  assumes "status_ok c s" "nh_state s = Quarantined"
  shows "unat (consecutive_successes s + 1) = Suc (unat (consecutive_successes s))"
    "consecutive_successes s + 1 \<noteq> 0"
proof -
  show inc: "unat (consecutive_successes s + 1) = Suc (unat (consecutive_successes s))"
    using assms unat_inc_below_max2 by (auto simp: status_ok_def)
  then show "consecutive_successes s + 1 \<noteq> 0" by (rule inc_not_zero)
qed

lemma status_ok_inc_errors:
  assumes "status_ok c s" "nh_state s \<noteq> Down"
  shows "unat (consecutive_server_errors s + 1) = Suc (unat (consecutive_server_errors s))"
    "consecutive_server_errors s + 1 \<noteq> 0"
proof -
  show inc: "unat (consecutive_server_errors s + 1) = Suc (unat (consecutive_server_errors s))"
    using assms unat_inc_below by (auto simp: status_ok_def)
  then show "consecutive_server_errors s + 1 \<noteq> 0" by (rule inc_not_zero)
qed

lemma report_status_ok:
  assumes "config_ok c" "status_ok c s"
  shows "status_ok c (report_status c obs s)"
proof (cases obs)
  case Success
  with assms status_ok_inc_successes[OF assms(2)] show ?thesis
    by (cases "nh_state s")
      (auto simp: Let_def status_ok_def config_ok_def word_le_nat_alt unat_gt_0)
next
  case ServerError
  with assms status_ok_inc_errors[OF assms(2)] show ?thesis
    by (cases "nh_state s") (auto simp: Let_def status_ok_def config_ok_def word_le_nat_alt)
next
  case ConnectionFailure
  then show ?thesis by (simp add: status_ok_def)
qed

lemma report_status_refines:
  assumes "status_ok c s"
  shows "abs_status (report_status c obs s) =
    health_step (unat (consecutive_server_error_threshold c)) (unat (quarantine_success_threshold c)) obs
      (abs_status s)"
proof (cases obs)
  case Success
  with assms status_ok_inc_successes[OF assms] show ?thesis
    by (cases "nh_state s") (auto simp: Let_def abs_status_def word_le_nat_alt)
next
  case ServerError
  with assms status_ok_inc_errors[OF assms] show ?thesis
    by (cases "nh_state s") (auto simp: Let_def abs_status_def word_le_nat_alt)
next
  case ConnectionFailure
  then show ?thesis by (simp add: abs_status_def)
qed

lemma report_run:
  assumes "config_ok c" "status_ok c s"
  shows "status_ok c (fold (report_status c) obs s) \<and>
    abs_status (fold (report_status c) obs s) =
      fold (health_step (unat (consecutive_server_error_threshold c)) (unat (quarantine_success_threshold c)))
        obs (abs_status s)"
  using assms(2) by (induction obs arbitrary: s) (auto simp: report_status_ok[OF assms(1)] report_status_refines)

lemma health_errors_run:
  "e < E \<Longrightarrow> (health_step E S ServerError ^^ k) (HActive e) = (if e + k < E then HActive (e + k) else HDown)"
  by (induction k) auto

lemma health_successes_run:
  "s < max 2 S \<Longrightarrow> (health_step E S Success ^^ k) (HQuarantined 0 s) =
     (if s + k < max 2 S then HQuarantined 0 (s + k) else HActive 0)"
  if "0 < s"
  using that by (induction k) auto

lemma health_recovery_run:
  "(health_step E S Success ^^ k) HDown =
     (if k = 0 then HDown else if k < max 2 S then HQuarantined 0 k else HActive 0)"
proof (cases k)
  case (Suc n)
  then have "(health_step E S Success ^^ k) HDown = (health_step E S Success ^^ n) (HQuarantined 0 1)"
    by (simp add: funpow_swap1)
  with Suc show ?thesis using health_successes_run[of 1 S n E] by simp
qed simp

section \<open>The store\<close>

definition store_ok :: "NodeHealthStore \<Rightarrow> bool" where
  "store_ok st \<longleftrightarrow> config_ok (nhs_config st) \<and> map_invar Url_ToString (nhs_statuses st) \<and>
     (\<forall>(u, s) \<in> set (nhs_statuses st). status_ok (nhs_config st) s)"

lemma config_ok_normalize [simp]: "config_ok (NodeHealthStore_normalize c)"
  by (simp add: config_ok_def NodeHealthStore_normalize_def)

lemma status_ok_initial [simp]:
  "config_ok c \<Longrightarrow> status_ok c \<lparr>nh_state = Active, consecutive_server_errors = 0,
     consecutive_successes = quarantine_success_threshold c, nh_updated = t\<rparr>"
  by (simp add: status_ok_def config_ok_def unat_gt_0)

lemma store_config [simp]:
  "nhs_config (NodeHealthStore_AddNode t u st) = nhs_config st"
  "nhs_config (NodeHealthStore_RemoveNode u st) = nhs_config st"
  "nhs_config (NodeHealthStore_ReportNodeResult t u obs st) = nhs_config st"
  by (simp_all add: NodeHealthStore_AddNode_def NodeHealthStore_RemoveNode_def
      NodeHealthStore_ReportNodeResult_def split: option.split)

lemma store_ok_AddNode [simp]: "store_ok st \<Longrightarrow> store_ok (NodeHealthStore_AddNode t u st)"
  by (auto simp: store_ok_def NodeHealthStore_AddNode_def map_invar_emplace dest!: set_map_emplace)

lemma store_ok_RemoveNode [simp]: "store_ok st \<Longrightarrow> store_ok (NodeHealthStore_RemoveNode u st)"
  by (auto simp: store_ok_def NodeHealthStore_RemoveNode_def map_invar_erase) (auto simp: map_erase_def)

lemma store_ok_ReportNodeResult [simp]:
  "store_ok st \<Longrightarrow> store_ok (NodeHealthStore_ReportNodeResult t u obs st)"
  by (auto simp: store_ok_def NodeHealthStore_ReportNodeResult_def split: option.splits)
    (auto simp: map_update_def report_status_ok)

lemma store_ok_fold_AddNode: "store_ok st \<Longrightarrow> store_ok (fold (NodeHealthStore_AddNode t) us st)"
  by (induction us arbitrary: st) auto

lemma store_ok_new [simp]: "store_ok (NodeHealthStore_new t c us)"
  unfolding NodeHealthStore_new_def by (rule store_ok_fold_AddNode) (simp add: store_ok_def)

lemma GetNodeStatus_AddNode:
  "store_ok st \<Longrightarrow> NodeHealthStore_GetNodeStatus (NodeHealthStore_AddNode t u st) v =
     (if Url_ToString v = Url_ToString u \<and> NodeHealthStore_GetNodeStatus st u = None
      then Some \<lparr>nh_state = Active, consecutive_server_errors = 0,
             consecutive_successes = quarantine_success_threshold (nhs_config st), nh_updated = t\<rparr>
      else NodeHealthStore_GetNodeStatus st v)"
  by (auto simp: NodeHealthStore_GetNodeStatus_def NodeHealthStore_AddNode_def store_ok_def
      alist_map.find_emplace)

lemma GetNodeStatus_RemoveNode:
  "store_ok st \<Longrightarrow> NodeHealthStore_GetNodeStatus (NodeHealthStore_RemoveNode u st) v =
     (if Url_ToString v = Url_ToString u then None else NodeHealthStore_GetNodeStatus st v)"
  by (simp add: NodeHealthStore_GetNodeStatus_def NodeHealthStore_RemoveNode_def store_ok_def
      alist_map.find_erase)

lemma GetNodeStatus_ReportNodeResult:
  "NodeHealthStore_GetNodeStatus (NodeHealthStore_ReportNodeResult t u obs st) v =
     (if Url_ToString v = Url_ToString u \<and> \<not> nh_disabled (nhs_config st)
      then map_option (\<lambda>s. (report_status (nhs_config st) obs s)\<lparr>nh_updated := t\<rparr>)
             (NodeHealthStore_GetNodeStatus st v)
      else NodeHealthStore_GetNodeStatus st v)"
  using map_find_cong[of Url_ToString u v "nhs_statuses st"]
  by (auto simp: NodeHealthStore_GetNodeStatus_def NodeHealthStore_ReportNodeResult_def map_find_update
      split: option.splits)

lemma store_ok_GetNodeStatus:
  "store_ok st \<Longrightarrow> NodeHealthStore_GetNodeStatus st u = Some s \<Longrightarrow> status_ok (nhs_config st) s"
  by (auto simp: store_ok_def NodeHealthStore_GetNodeStatus_def map_find_eq_Some)

section \<open>Sequences of locked operations\<close>

text \<open>
  Every operation that changes the store runs under its mutex, so a concurrent execution is a
  sequence of these operations in the order the mutex was taken.
\<close>

datatype store_op = Op_Add time_point Url | Op_Remove Url | Op_Report time_point Url NodeHealthObservation

fun apply_op :: "store_op \<Rightarrow> NodeHealthStore \<Rightarrow> NodeHealthStore" where
  "apply_op (Op_Add t u) = NodeHealthStore_AddNode t u"
| "apply_op (Op_Remove u) = NodeHealthStore_RemoveNode u"
| "apply_op (Op_Report t u obs) = NodeHealthStore_ReportNodeResult t u obs"

fun op_key :: "store_op \<Rightarrow> string" where
  "op_key (Op_Add t u) = Url_ToString u"
| "op_key (Op_Remove u) = Url_ToString u"
| "op_key (Op_Report t u obs) = Url_ToString u"

text \<open>What an operation means for the one node it names.\<close>

fun node_op :: "NodeHealthStoreConfig \<Rightarrow> store_op \<Rightarrow> health option \<Rightarrow> health option" where
  "node_op c (Op_Add t u) h = (case h of None \<Rightarrow> Some (HActive 0) | Some h \<Rightarrow> Some h)"
| "node_op c (Op_Remove u) h = None"
| "node_op c (Op_Report t u obs) h =
     (if nh_disabled c then h
      else map_option (health_step (unat (consecutive_server_error_threshold c))
             (unat (quarantine_success_threshold c)) obs) h)"

definition node_health :: "NodeHealthStore \<Rightarrow> Url \<Rightarrow> health option" where
  "node_health st u = map_option abs_status (NodeHealthStore_GetNodeStatus st u)"

lemma apply_op_ok [simp]: "store_ok st \<Longrightarrow> store_ok (apply_op x st)"
  by (cases x) auto

lemma apply_op_config [simp]: "nhs_config (apply_op x st) = nhs_config st"
  by (cases x) auto

lemma node_health_cong: "Url_ToString u = Url_ToString v \<Longrightarrow> node_health st u = node_health st v"
  by (simp add: node_health_def NodeHealthStore_GetNodeStatus_def map_find_cong[of Url_ToString u v])

lemma apply_op_refines:
  assumes "store_ok st"
  shows "node_health (apply_op x st) u =
    (if op_key x = Url_ToString u then node_op (nhs_config st) x (node_health st u) else node_health st u)"
proof (cases x)
  case (Op_Add t v)
  then show ?thesis
    using assms node_health_cong[of u v st]
    by (auto simp: node_health_def GetNodeStatus_AddNode abs_status_def split: option.splits)
next
  case (Op_Remove v)
  then show ?thesis using assms by (simp add: node_health_def GetNodeStatus_RemoveNode)
next
  case (Op_Report t v obs)
  have "abs_status (report_status (nhs_config st) obs s) =
      health_step (unat (consecutive_server_error_threshold (nhs_config st)))
        (unat (quarantine_success_threshold (nhs_config st))) obs (abs_status s)"
    if "NodeHealthStore_GetNodeStatus st u = Some s" for s
    using that assms by (intro report_status_refines store_ok_GetNodeStatus)
  with Op_Report show ?thesis
    by (auto simp: node_health_def GetNodeStatus_ReportNodeResult option.map_comp comp_def
        intro: option.map_cong)
qed

lemma run_ops:
  assumes "store_ok st"
  shows "store_ok (fold apply_op ops st) \<and> nhs_config (fold apply_op ops st) = nhs_config st \<and>
    node_health (fold apply_op ops st) u =
      fold (node_op (nhs_config st)) (filter (\<lambda>x. op_key x = Url_ToString u) ops) (node_health st u)"
  using assms by (induction ops arbitrary: st) (auto simp: apply_op_refines)

lemma NodeHealthStore_new_ops:
  "NodeHealthStore_new t c us =
     fold apply_op (map (Op_Add t) us) \<lparr>nhs_config = NodeHealthStore_normalize c, nhs_statuses = []\<rparr>"
  unfolding NodeHealthStore_new_def by (simp add: fold_map comp_def cong: fold_cong)

lemma fold_node_op_Add:
  "fold (node_op c) (map (Op_Add t) us) h = (case h of None \<Rightarrow> if us = [] then None else Some (HActive 0) | Some h \<Rightarrow> Some h)"
  by (induction us arbitrary: h) (auto split: option.splits)

lemma node_health_new:
  "node_health (NodeHealthStore_new t c us) u =
     (if Url_ToString u \<in> Url_ToString ` set us then Some (HActive 0) else None)"
proof -
  let ?st = "\<lparr>nhs_config = NodeHealthStore_normalize c, nhs_statuses = []\<rparr>"
  have "store_ok ?st" by (simp add: store_ok_def)
  moreover have "node_health ?st u = None" by (simp add: node_health_def NodeHealthStore_GetNodeStatus_def)
  moreover have "filter (\<lambda>x. op_key x = Url_ToString u) (map (Op_Add t) us) =
      map (Op_Add t) (filter (\<lambda>v. Url_ToString v = Url_ToString u) us)"
    by (induction us) auto
  ultimately show ?thesis
    by (auto simp: NodeHealthStore_new_ops run_ops fold_node_op_Add filter_empty_conv image_iff split: option.splits)
      metis
qed

lemma NodeHealthStore_new_config [simp]: "nhs_config (NodeHealthStore_new t c us) = NodeHealthStore_normalize c"
proof -
  have "nhs_config (fold (NodeHealthStore_AddNode t) us st) = nhs_config st" for st
    by (induction us arbitrary: st) auto
  then show ?thesis by (simp add: NodeHealthStore_new_def)
qed

section \<open>The node lists\<close>

lemma sorted_keys_filter: "map_invar key m \<Longrightarrow> sorted (map key (map fst (filter P m)))"
  by (induction m) (fastforce simp: less_imp_le)+

lemma GetNodesByState_filter:
  assumes "store_ok st"
  shows "NodeHealthStore_GetNodesByState st x =
    map fst (filter (\<lambda>(node, status). nh_state status = x) (nhs_statuses st))"
  using assms unfolding NodeHealthStore_GetNodesByState_def store_ok_def
  by (intro sort_key_id_if_sorted sorted_keys_filter) auto

lemma GetNodesByState_sorted [simp]: "sorted (map Url_ToString (NodeHealthStore_GetNodesByState st x))"
  by (simp add: NodeHealthStore_GetNodesByState_def)

lemma GetNodesByState_distinct: "store_ok st \<Longrightarrow> distinct (map Url_ToString (NodeHealthStore_GetNodesByState st x))"
proof -
  assume st: "store_ok st"
  then have "distinct (map (Url_ToString \<circ> fst) (nhs_statuses st))"
    by (simp add: store_ok_def map_invar_def strict_sorted_iff)
  then have "distinct (map (Url_ToString \<circ> fst) (filter P (nhs_statuses st)))" for P
    by (metis distinct_map_filter)
  then show ?thesis by (simp add: GetNodesByState_filter[OF st])
qed

lemma GetNodesByState_status:
  assumes "store_ok st"
  shows "Url_ToString u \<in> Url_ToString ` set (NodeHealthStore_GetNodesByState st x) \<longleftrightarrow>
    (\<exists>s. NodeHealthStore_GetNodeStatus st u = Some s \<and> nh_state s = x)"
proof -
  have "map_invar Url_ToString (nhs_statuses st)" using assms by (simp add: store_ok_def)
  then show ?thesis
    by (fastforce simp: GetNodesByState_filter[OF assms] NodeHealthStore_GetNodeStatus_def map_find_eq_Some image_iff)
qed

lemma mset_by_state:
  "mset (filter (\<lambda>(u, s). nh_state s = Active) m) + mset (filter (\<lambda>(u, s). nh_state s = Quarantined) m) +
   mset (filter (\<lambda>(u, s). nh_state s = Down) m) = mset m"
proof (induction m)
  case (Cons a m)
  obtain u s where "a = (u, s)" by (cases a)
  with Cons show ?case by (cases "nh_state s") (auto simp: ac_simps)
qed simp

lemma node_lists_mset:
  assumes "store_ok st"
  shows "mset (NodeHealthStore_GetActiveNodes st) + mset (NodeHealthStore_GetQuarantinedNodes st) +
      mset (NodeHealthStore_GetDownNodes st) = mset (map fst (nhs_statuses st))"
  using arg_cong[OF mset_by_state[of "nhs_statuses st"], of "image_mset fst"]
  by (simp add: NodeHealthStore_GetActiveNodes_def NodeHealthStore_GetQuarantinedNodes_def
      NodeHealthStore_GetDownNodes_def GetNodesByState_filter[OF assms])

section \<open>Probing\<close>

lemma probe_loop_ops:
  assumes "ProbeDownNodes_loop now probe us acc st w = (r, st', w')"
  shows "\<exists>ops. st' = fold apply_op ops st \<and>
    (\<forall>x \<in> set ops. \<exists>t u obs. x = Op_Report t u obs \<and> u \<in> set us)"
  using assms
proof (induction us arbitrary: acc st w)
  case Nil
  then show ?case by (intro exI[of _ "[]"]) simp
next
  case (Cons u us)
  show ?case
  proof (cases "NodeHealthStore_GetNodeStatus st u")
    case None
    with Cons show ?thesis by fastforce
  next
    case (Some s)
    obtain o1 w1 where p: "probe u s w = (o1, w1)" by (cases "probe u s w")
    show ?thesis
    proof (cases o1)
      case (Inl e)
      with Cons.prems Some p show ?thesis by (intro exI[of _ "[]"]) simp
    next
      case (Inr ob)
      with Cons.prems Some p obtain ops where
        "st' = fold apply_op ops (NodeHealthStore_ReportNodeResult (now w1) u ob st)"
        "\<forall>x \<in> set ops. \<exists>t v ob'. x = Op_Report t v ob' \<and> v \<in> set us"
        using Cons.IH by auto metis
      then show ?thesis by (intro exI[of _ "Op_Report (now w1) u ob # ops"]) auto
    qed
  qed
qed

lemma probe_loop_returns:
  assumes "\<And>u s w. fst (probe u s w) = Inr (obs u)"
    and "\<forall>u \<in> set us. node_health st u \<noteq> None" "store_ok st" "distinct (map Url_ToString us)"
  shows "\<exists>st' w'. ProbeDownNodes_loop now probe us acc st w =
      (Inr (acc @ filter (\<lambda>u. obs u = Success) us), st', w') \<and>
    (\<forall>v. node_health st' v =
      (case filter (\<lambda>u. Url_ToString u = Url_ToString v) us of
         [] \<Rightarrow> node_health st v
       | u # _ \<Rightarrow> node_op (nhs_config st) (Op_Report 0 u (obs u)) (node_health st v)))"
  using assms(2-)
proof (induction us arbitrary: acc st w)
  case (Cons u us)
  obtain s where s: "NodeHealthStore_GetNodeStatus st u = Some s"
    using Cons.prems(1) by (auto simp: node_health_def)
  obtain w1 where p: "probe u s w = (Inr (obs u), w1)" by (metis assms(1) surjective_pairing)
  define st1 where "st1 = apply_op (Op_Report (now w1) u (obs u)) st"
  have st1: "store_ok st1" "nhs_config st1 = nhs_config st"
    "\<And>v. node_health st1 v = (if Url_ToString u = Url_ToString v
        then node_op (nhs_config st) (Op_Report 0 u (obs u)) (node_health st v) else node_health st v)"
    using Cons.prems(2) apply_op_refines[OF Cons.prems(2), of "Op_Report (now w1) u (obs u)"]
    by (simp_all add: st1_def)
  have "\<forall>v \<in> set us. node_health st1 v \<noteq> None"
    using Cons.prems(1) by (auto simp: st1(3))
  with Cons.prems(3) st1(1) obtain st' w' where
    IH: "ProbeDownNodes_loop now probe us (if obs u = Success then acc @ [u] else acc) st1 w1 =
      (Inr ((if obs u = Success then acc @ [u] else acc) @ filter (\<lambda>u. obs u = Success) us), st', w')"
    "\<And>v. node_health st' v = (case filter (\<lambda>u. Url_ToString u = Url_ToString v) us of
         [] \<Rightarrow> node_health st1 v
       | u # _ \<Rightarrow> node_op (nhs_config st1) (Op_Report 0 u (obs u)) (node_health st1 v))"
    using Cons.IH[of st1 "if obs u = Success then acc @ [u] else acc" w1] by auto
  have "filter (\<lambda>x. Url_ToString x = Url_ToString u) us = []"
    using Cons.prems(3) by (auto simp: filter_empty_conv image_iff)
  then have fl: "filter (\<lambda>x. Url_ToString x = Url_ToString v) us = []" if "Url_ToString u = Url_ToString v" for v
    using that by metis
  have "node_health st' v =
      (case filter (\<lambda>u. Url_ToString u = Url_ToString v) (u # us) of
         [] \<Rightarrow> node_health st v
       | u # _ \<Rightarrow> node_op (nhs_config st) (Op_Report 0 u (obs u)) (node_health st v))" for v
    using fl[of v] by (simp add: IH(2) st1(2,3) split: list.split)
  moreover have "ProbeDownNodes_loop now probe (u # us) acc st w =
      (Inr (acc @ filter (\<lambda>u. obs u = Success) (u # us)), st', w')"
    using s p IH(1) by (simp add: st1_def)
  ultimately show ?case by blast
qed simp

lemma filter_key_unique: "distinct (map f xs) \<Longrightarrow> u \<in> set xs \<Longrightarrow> filter (\<lambda>v. f v = f u) xs = [u]"
proof (induction xs)
  case (Cons a xs)
  have "filter (\<lambda>v. f v = f a) xs = []" using Cons.prems(1) by (auto simp: filter_empty_conv image_iff)
  with Cons show ?case by (auto simp: image_iff)
qed simp

lemma GetDownNodes_health:
  assumes "store_ok st" "u \<in> set (NodeHealthStore_GetDownNodes st)"
  shows "node_health st u = Some HDown"
proof -
  have "Url_ToString u \<in> Url_ToString ` set (NodeHealthStore_GetNodesByState st Down)"
    using assms(2) by (auto simp: NodeHealthStore_GetDownNodes_def split: if_splits)
  then obtain s where "NodeHealthStore_GetNodeStatus st u = Some s" "nh_state s = Down"
    using GetNodesByState_status[OF assms(1)] by blast
  then show ?thesis by (simp add: node_health_def abs_status_def)
qed

lemma fold_node_op_reports:
  "\<not> nh_disabled c \<Longrightarrow> fold (node_op c) (map (\<lambda>t. Op_Report t u obs) ts) (Some h) =
     Some ((health_step (unat (consecutive_server_error_threshold c))
       (unat (quarantine_success_threshold c)) obs ^^ length ts) h)"
  by (induction ts arbitrary: h) (auto simp: funpow_swap1)

lemma normalize_sel [simp]:
  "nh_disabled (NodeHealthStore_normalize c) = nh_disabled c"
  "unat (consecutive_server_error_threshold (NodeHealthStore_normalize c)) =
     max 1 (unat (consecutive_server_error_threshold c))"
  "unat (quarantine_success_threshold (NodeHealthStore_normalize c)) = max 1 (unat (quarantine_success_threshold c))"
  by (auto simp: NodeHealthStore_normalize_def max_def Suc_le_eq unat_gt_0)

lemma node_health_state:
  "node_health st u = Some h \<Longrightarrow> \<exists>s. NodeHealthStore_GetNodeStatus st u = Some s \<and> nh_state s = health_state h"
  by (auto simp: node_health_def)

text \<open>The stored nodes themselves, when they are node URLs.\<close>

abbreviation stored :: "NodeHealthStore \<Rightarrow> Url set" where
  "stored st \<equiv> fst ` set (nhs_statuses st)"

lemma stored_status:
  assumes "store_ok st" "u \<in> stored st"
  shows "u \<in> set (NodeHealthStore_GetNodesByState st x) \<longleftrightarrow>
    (\<exists>h. node_health st u = Some h \<and> health_state h = x)"
proof -
  have inv: "map_invar Url_ToString (nhs_statuses st)" using assms(1) by (simp add: store_ok_def)
  have find: "NodeHealthStore_GetNodeStatus st u = Some s" if "(u, s) \<in> set (nhs_statuses st)" for s
    using that inv by (auto simp: NodeHealthStore_GetNodeStatus_def map_find_eq_Some)
  obtain s where s: "(u, s) \<in> set (nhs_statuses st)" using assms(2) by auto
  have "u \<in> set (NodeHealthStore_GetNodesByState st x) \<longleftrightarrow> (\<exists>s'. (u, s') \<in> set (nhs_statuses st) \<and> nh_state s' = x)"
    by (force simp: GetNodesByState_filter[OF assms(1)])
  also have "\<dots> \<longleftrightarrow> nh_state s = x" using s find by (metis option.inject)
  finally show ?thesis using find[OF s] by (simp add: node_health_def)
qed

lemma map_update_keys: "fst ` set (map_update key k f m) = fst ` set m"
  by (metis map_fst_update set_map)

lemma stored_Report [simp]: "stored (NodeHealthStore_ReportNodeResult t u obs st) = stored st"
  by (simp add: NodeHealthStore_ReportNodeResult_def map_update_keys split: option.split)

lemma stored_find:
  assumes "Ball (insert u (stored st)) node_url"
  shows "map_find Url_ToString u (nhs_statuses st) = None \<longleftrightarrow> u \<notin> stored st"
proof -
  have "Url_ToString u \<in> Url_ToString ` stored st \<longleftrightarrow> u \<in> stored st"
    using assms Url_ToString_inject by blast
  then show ?thesis by (simp add: map_find_eq_None image_comp)
qed

lemma map_emplace_keys: "map_find key k m = None \<Longrightarrow> fst ` set (map_emplace key k v m) = insert k (fst ` set m)"
proof (induction m)
  case (Cons a m)
  then show ?case by (cases a) (simp add: insert_commute split: if_splits)
qed simp

lemma stored_AddNode:
  assumes "Ball (insert u (stored st)) node_url"
  shows "stored (NodeHealthStore_AddNode t u st) = insert u (stored st)"
  using stored_find[OF assms] by (auto simp: NodeHealthStore_AddNode_def map_emplace_keys)

lemma stored_RemoveNode:
  assumes "Ball (insert u (stored st)) node_url"
  shows "stored (NodeHealthStore_RemoveNode u st) = stored st - {u}"
proof -
  have "Url_ToString v \<noteq> Url_ToString u \<longleftrightarrow> v \<noteq> u" if "v \<in> stored st" for v
    using that assms Url_ToString_inject by blast
  then show ?thesis by (force simp: NodeHealthStore_RemoveNode_def map_erase_def)
qed

lemma stored_fold_AddNode:
  "Ball (set us \<union> stored st) node_url \<Longrightarrow> stored (fold (NodeHealthStore_AddNode t) us st) = set us \<union> stored st"
proof (induction us arbitrary: st)
  case (Cons u us)
  then have "stored (NodeHealthStore_AddNode t u st) = insert u (stored st)" by (intro stored_AddNode) auto
  with Cons show ?case by simp
qed simp

lemma stored_fold_RemoveNode:
  "Ball (set us \<union> stored st) node_url \<Longrightarrow> stored (fold NodeHealthStore_RemoveNode us st) = stored st - set us"
proof (induction us arbitrary: st)
  case (Cons u us)
  then have r: "stored (NodeHealthStore_RemoveNode u st) = stored st - {u}" by (intro stored_RemoveNode) auto
  with Cons.prems have "Ball (set us \<union> stored (NodeHealthStore_RemoveNode u st)) node_url" by auto
  from Cons.IH[OF this] r show ?case by auto
qed simp

lemma stored_new:
  assumes "Ball (set us) node_url"
  shows "stored (NodeHealthStore_new t c us) = set us"
  using stored_fold_AddNode[of us "\<lparr>nhs_config = NodeHealthStore_normalize c, nhs_statuses = []\<rparr>" t] assms
  by (simp add: NodeHealthStore_new_def)

section \<open>Properties\<close>

text \<open>
  \<^bold>\<open>C2\<close>: the health store refines the status machine with unbounded counters. After any sequence
  of locked operations on a new store, the health of every node is what the specification computes
  from the operations that name this node, in order; in particular the 32-bit counters never wrap
  in a state that reads them, and operations on other nodes do not interfere.
\<close>

theorem health_store_refines_spec:
  "store_ok (fold apply_op ops (NodeHealthStore_new t c us)) \<and>
   node_health (fold apply_op ops (NodeHealthStore_new t c us)) u =
     fold (node_op (NodeHealthStore_normalize c)) (filter (\<lambda>x. op_key x = Url_ToString u) ops)
       (if Url_ToString u \<in> Url_ToString ` set us then Some (HActive 0) else None)"
  using run_ops[OF store_ok_new, of ops t c us u] by (simp add: node_health_new)



text \<open>
  a node that is down recovers in two stages. After \<open>n\<close> successful observations in a row it is
  still down for \<open>n = 0\<close>, quarantined until \<open>n\<close> reaches the success threshold, and active from then
  on; since the first success only lifts it into quarantine, at least two are needed even when the
  threshold is one.
\<close>

theorem down_node_recovers:
  assumes "store_ok st" "node_health st u = Some HDown" "\<not> nh_disabled (nhs_config st)"
    and "filter (\<lambda>x. op_key x = Url_ToString u) ops = map (\<lambda>t. Op_Report t u Success) ts"
  shows "\<exists>s. NodeHealthStore_GetNodeStatus (fold apply_op ops st) u = Some s \<and>
    nh_state s = (if ts = [] then Down
      else if length ts < max 2 (unat (quarantine_success_threshold (nhs_config st))) then Quarantined
      else Active)"
proof -
  let ?E = "unat (consecutive_server_error_threshold (nhs_config st))"
    and ?S = "unat (quarantine_success_threshold (nhs_config st))"
  have "node_health (fold apply_op ops st) u =
      Some (if ts = [] then HDown else if length ts < max 2 ?S then HQuarantined 0 (length ts) else HActive 0)"
    using run_ops[OF assms(1), of ops u] assms(2-) by (simp add: fold_node_op_reports health_recovery_run)
  from node_health_state[OF this] show ?thesis by (simp split: if_splits)
qed

theorem down_node_recovers_witness:
  "\<exists>s. NodeHealthStore_GetNodeStatus
     (fold apply_op [Op_Report 1 (Url_new ''http'' ''a'' 1) Success, Op_Report 2 (Url_new ''http'' ''a'' 1) Success]
       (fold apply_op [Op_Report 0 (Url_new ''http'' ''a'' 1) ConnectionFailure]
         (NodeHealthStore_new 0 NodeHealthStoreConfig_default [Url_new ''http'' ''a'' 1])))
     (Url_new ''http'' ''a'' 1) = Some s \<and> nh_state s = Quarantined"
proof -
  let ?a = "Url_new ''http'' ''a'' 1"
  let ?st = "fold apply_op [Op_Report 0 ?a ConnectionFailure] (NodeHealthStore_new 0 NodeHealthStoreConfig_default [?a])"
  have "store_ok ?st \<and> nhs_config ?st = NodeHealthStore_normalize NodeHealthStoreConfig_default \<and>
      node_health ?st ?a = Some HDown"
    using run_ops[OF store_ok_new, of "[Op_Report 0 ?a ConnectionFailure]" 0 NodeHealthStoreConfig_default "[?a]" ?a]
    by (simp add: node_health_new NodeHealthStoreConfig_default_def)
  with down_node_recovers[of ?st ?a "[Op_Report 1 ?a Success, Op_Report 2 ?a Success]" "[1, 2]"]
  show ?thesis
    by (simp add: NodeHealthStoreConfig_default_def del: fold.simps)
qed

text \<open>
  the three node lists partition the stored nodes: each is sorted by string form without
  duplicates, together they hold every stored node once, and a node is listed in the state its status
  has. With health tracking disabled every node is active.
\<close>

theorem node_lists_partition:
  assumes "store_ok st"
  shows "mset (NodeHealthStore_GetActiveNodes st) + mset (NodeHealthStore_GetQuarantinedNodes st) +
      mset (NodeHealthStore_GetDownNodes st) = mset (map fst (nhs_statuses st)) \<and>
    (nh_disabled (nhs_config st) \<longrightarrow>
      NodeHealthStore_GetActiveNodes st = map fst (nhs_statuses st) \<and>
      NodeHealthStore_GetQuarantinedNodes st = [] \<and> NodeHealthStore_GetDownNodes st = []) \<and>
    (\<forall>x. sorted (map Url_ToString (NodeHealthStore_GetNodesByState st x)) \<and>
      distinct (map Url_ToString (NodeHealthStore_GetNodesByState st x)) \<and>
      (\<forall>u. Url_ToString u \<in> Url_ToString ` set (NodeHealthStore_GetNodesByState st x) \<longleftrightarrow>
        (\<exists>s. NodeHealthStore_GetNodeStatus st u = Some s \<and> nh_state s = x)))"
proof (intro conjI allI impI)
  have srt: "sort_key Url_ToString (map fst (nhs_statuses st)) = map fst (nhs_statuses st)"
    using assms by (intro sort_key_id_if_sorted map_invar_keys_sorted) (simp add: store_ok_def)
  show "mset (NodeHealthStore_GetActiveNodes st) + mset (NodeHealthStore_GetQuarantinedNodes st) +
      mset (NodeHealthStore_GetDownNodes st) = mset (map fst (nhs_statuses st))"
    by (rule node_lists_mset[OF assms])
  show "NodeHealthStore_GetActiveNodes st = map fst (nhs_statuses st)" if "nh_disabled (nhs_config st)"
    using that by (simp add: NodeHealthStore_GetActiveNodes_def srt)
qed (use assms in \<open>simp_all add: GetNodesByState_distinct GetNodesByState_status
      NodeHealthStore_GetQuarantinedNodes_def NodeHealthStore_GetDownNodes_def\<close>)

theorem node_lists_partition_witness:
  "mset (NodeHealthStore_GetActiveNodes (NodeHealthStore_new 0 NodeHealthStoreConfig_default [Url_new ''http'' ''a'' 1])) +
   mset (NodeHealthStore_GetQuarantinedNodes (NodeHealthStore_new 0 NodeHealthStoreConfig_default [Url_new ''http'' ''a'' 1])) +
   mset (NodeHealthStore_GetDownNodes (NodeHealthStore_new 0 NodeHealthStoreConfig_default [Url_new ''http'' ''a'' 1])) =
   {#Url_new ''http'' ''a'' 1#}"
  using node_lists_partition[OF store_ok_new, of 0 NodeHealthStoreConfig_default "[Url_new ''http'' ''a'' 1]"]
  by (auto simp: NodeHealthStore_new_def NodeHealthStore_AddNode_def)

text \<open>
  probing asks each down node once, in order, returns those that answered with success, and
  moves exactly these into quarantine; the other down nodes stay down and no other node changes.
\<close>

theorem ProbeDownNodes_moves_responsive_to_quarantine:
  assumes "store_ok st" "\<not> nh_disabled (nhs_config st)" "\<And>u s w. fst (probe u s w) = Inr (obs u)"
  shows "\<exists>st' w'. NodeHealthStore_ProbeDownNodes now (Some probe) st w =
      (Inr (filter (\<lambda>u. obs u = Success) (NodeHealthStore_GetDownNodes st)), st', w') \<and> store_ok st' \<and>
    (\<forall>u \<in> set (NodeHealthStore_GetDownNodes st).
       node_health st' u = Some (if obs u = Success then HQuarantined 0 1 else HDown)) \<and>
    (\<forall>u. node_health st u \<noteq> Some HDown \<longrightarrow> node_health st' u = node_health st u)"
proof -
  let ?down = "NodeHealthStore_GetDownNodes st"
  have dist: "distinct (map Url_ToString ?down)"
    by (simp add: NodeHealthStore_GetDownNodes_def GetNodesByState_distinct assms(1))
  then obtain st' w' where r:
    "ProbeDownNodes_loop now probe ?down [] st w = (Inr (filter (\<lambda>u. obs u = Success) ?down), st', w')"
    "\<And>v. node_health st' v = (case filter (\<lambda>u. Url_ToString u = Url_ToString v) ?down of
         [] \<Rightarrow> node_health st v
       | u # _ \<Rightarrow> node_op (nhs_config st) (Op_Report 0 u (obs u)) (node_health st v))"
    using probe_loop_returns[of probe obs ?down st now "[]" w] assms GetDownNodes_health[OF assms(1)] by auto
  have "node_health st' u = Some (if obs u = Success then HQuarantined 0 1 else HDown)"
    if u: "u \<in> set ?down" for u
  proof -
    have "filter (\<lambda>v. Url_ToString v = Url_ToString u) ?down = [u]"
      by (rule filter_key_unique[OF dist u])
    then show ?thesis
      using GetDownNodes_health[OF assms(1) u] assms(2) by (cases "obs u") (simp_all add: r(2))
  qed
  moreover have "node_health st' u = node_health st u" if "node_health st u \<noteq> Some HDown" for u
  proof -
    have "filter (\<lambda>v. Url_ToString v = Url_ToString u) ?down = []"
      unfolding filter_empty_conv using that GetDownNodes_health[OF assms(1)] by (metis node_health_cong)
    then show ?thesis by (simp add: r(2))
  qed
  moreover have "store_ok st'" using probe_loop_ops[OF r(1)] run_ops[OF assms(1)] by blast
  ultimately show ?thesis
    using r(1) assms(2) by (auto simp: NodeHealthStore_ProbeDownNodes_def)
qed

theorem ProbeDownNodes_moves_responsive_to_quarantine_witness:
  "\<exists>st' w'. NodeHealthStore_ProbeDownNodes (\<lambda>w. 0) (Some (\<lambda>u s w. (Inr Success, w)))
     (NodeHealthStore_ReportNodeResult 0 (Url_new ''http'' ''a'' 1) ConnectionFailure
       (NodeHealthStore_new 0 NodeHealthStoreConfig_default [Url_new ''http'' ''a'' 1])) () =
     (Inr [Url_new ''http'' ''a'' 1], st', w') \<and> node_health st' (Url_new ''http'' ''a'' 1) = Some (HQuarantined 0 1)"
proof -
  let ?a = "Url_new ''http'' ''a'' 1"
  let ?st = "NodeHealthStore_ReportNodeResult 0 ?a ConnectionFailure (NodeHealthStore_new 0 NodeHealthStoreConfig_default [?a])"
  have "store_ok ?st" by simp
  moreover have "\<not> nh_disabled (nhs_config ?st)" by (simp add: NodeHealthStoreConfig_default_def)
  moreover have "NodeHealthStore_GetDownNodes ?st = [?a]"
    by (simp add: NodeHealthStore_GetDownNodes_def NodeHealthStore_GetNodesByState_def NodeHealthStore_new_def
        NodeHealthStore_AddNode_def NodeHealthStore_ReportNodeResult_def map_update_def
        NodeHealthStoreConfig_default_def NodeHealthStore_normalize_def)
  ultimately show ?thesis
    using ProbeDownNodes_moves_responsive_to_quarantine[of ?st "\<lambda>u s w. (Inr Success, w)" "\<lambda>_. Success" "\<lambda>w. 0" "()"]
    by auto
qed

end
