(* ===== verification/Go_Random.thy ===== *)
theory Go_Random
  imports Go_Random_Table
begin

text \<open>
  \<open>src/src/go_random.cpp\<close>: Go's additive lagged Fibonacci generator, which the query plans use
  so that every client language orders the nodes of a partition key the same way. \<open>tap_\<close> and
  \<open>feed_\<close> are \<open>int\<close>, the state vector holds 64-bit words and additions wrap around. The
  rejection loop of \<open>Int31n\<close> is a \<open>partial_function\<close>, so that a loop that never ends is \<open>None\<close>;
  it is proved to end from every well-formed generator.
\<close>

section \<open>State and operations\<close>

definition rng_len :: int where "rng_len = 607"

definition rng_tap :: int where "rng_tap = 273"

definition int32_max :: int where "int32_max = 2 ^ 31 - 1"

definition rng_mask :: u64 where "rng_mask = push_bit 63 1 - 1"

record GoRandom =
  gr_tap :: int
  gr_feed :: int
  gr_vec :: "i64 list"

text \<open>\<open>SeedRand\<close> works on \<open>std::int32_t\<close>; \<open>SeedRand_in_range\<close> shows that no step overflows.\<close>

definition SeedRand :: "int \<Rightarrow> int" where
  "SeedRand x =
     (let a = 48271; q = 44488; r = 3399;
          hi = x sdiv q;
          lo = x smod q;
          x' = a * lo - r * hi
      in if x' < 0 then x' + int32_max else x')"

function Seed_loop :: "int \<Rightarrow> int \<Rightarrow> i64 list \<Rightarrow> i64 list" where
  "Seed_loop i x vec =
     (if i < rng_len then
        (let x1 = SeedRand x in
         if 0 \<le> i then
           (let u1 = push_bit 40 (word_of_int x1);
                x2 = SeedRand x1;
                u2 = u1 XOR push_bit 20 (word_of_int x2);
                x3 = SeedRand x2;
                u3 = u2 XOR word_of_int x3;
                u4 = u3 XOR rng_cooked ! nat i
            in Seed_loop (i + 1) x3 (vec[nat i := u4]))
         else Seed_loop (i + 1) x1 vec)
      else vec)"
  by pat_completeness auto
termination
  by (relation "measure (\<lambda>(i, x, vec). nat (rng_len - i))") (auto simp: rng_len_def)

declare Seed_loop.simps [simp del]

definition Seed_start :: "i64 \<Rightarrow> int" where
  "Seed_start seed =
     (let s = sint seed smod int32_max;
          s = (if s < 0 then s + int32_max else s)
      in if s = 0 then 89482311 else s)"

definition GoRandom_Seed :: "i64 \<Rightarrow> GoRandom" where
  "GoRandom_Seed seed =
     \<lparr>gr_tap = 0, gr_feed = rng_len - rng_tap, gr_vec = Seed_loop (- 20) (Seed_start seed) (replicate 607 0)\<rparr>"

definition GoRandom_new :: "i64 \<Rightarrow> GoRandom" where
  "GoRandom_new seed = GoRandom_Seed seed"

definition Uint64 :: "GoRandom \<Rightarrow> u64 \<times> GoRandom" where
  "Uint64 g =
     (let tap = (if gr_tap g - 1 < 0 then gr_tap g - 1 + rng_len else gr_tap g - 1);
          feed = (if gr_feed g - 1 < 0 then gr_feed g - 1 + rng_len else gr_feed g - 1);
          x = gr_vec g ! nat feed + gr_vec g ! nat tap
      in (x, g\<lparr>gr_tap := tap, gr_feed := feed, gr_vec := (gr_vec g)[nat feed := x]\<rparr>))"

definition Int63 :: "GoRandom \<Rightarrow> i64 \<times> GoRandom" where
  "Int63 g = (let (u, g') = Uint64 g in (u AND rng_mask, g'))"

definition Int31 :: "GoRandom \<Rightarrow> i32 \<times> GoRandom" where
  "Int31 g = (let (u, g') = Int63 g in (ucast (drop_bit 32 u), g'))"

partial_function (option) Int31n_loop :: "i32 \<Rightarrow> i32 \<Rightarrow> GoRandom \<Rightarrow> (i32 \<times> GoRandom) option" where
  "Int31n_loop vmax v g =
     (if sint vmax < sint v then (case Int31 g of (v', g') \<Rightarrow> Int31n_loop vmax v' g')
      else Some (v, g))"

declare Int31n_loop.simps [code]

definition Int31n_max :: "i32 \<Rightarrow> i32" where
  "Int31n_max n = push_bit 31 1 - 1 - push_bit 31 1 mod n"

definition Int31n :: "i32 \<Rightarrow> GoRandom \<Rightarrow> (i32 \<times> GoRandom) result" where
  "Int31n n g =
     (if sint n \<le> 0 then Inl (Invalid_Argument ''GoRandom::Int31n requires n > 0'')
      else if n AND (n - 1) = 0 then (let (v, g') = Int31 g in Inr (v AND (n - 1), g'))
      else (let (v, g') = Int31 g in
            case Int31n_loop (Int31n_max n) v g' of
              None \<Rightarrow> Inl Diverges
            | Some (v', g'') \<Rightarrow> Inr (word_of_int (sint v' smod sint n), g'')))"

text \<open>The state between calls: the two indices stay in range and a fixed distance apart.\<close>

definition rng_ok :: "GoRandom \<Rightarrow> bool" where
  "rng_ok g \<longleftrightarrow> length (gr_vec g) = 607 \<and> 0 \<le> gr_tap g \<and> gr_tap g < rng_len \<and>
     gr_feed g = (gr_tap g + (rng_len - rng_tap)) mod rng_len"

section \<open>Seeding\<close>

lemma SeedRand_Schrage:
  assumes "0 \<le> x" "x < int32_max"
  shows "SeedRand x = 48271 * x mod int32_max"
proof -
  define hi lo where "hi = x div 44488" and "lo = x mod 44488"
  have x: "x = 44488 * hi + lo" and lo: "0 \<le> lo" "lo < 44488" and hi: "0 \<le> hi" "hi \<le> 48271"
    using assms by (auto simp: hi_def lo_def int32_max_def)
  have sd: "x sdiv 44488 = hi" "x smod 44488 = lo"
    using assms by (auto simp: signed_divide_int_def signed_modulo_int_def hi_def lo_def sgn_if)
  define y where "y = 48271 * lo - 3399 * hi"
  have y: "y = 48271 * x - hi * int32_max"
    unfolding y_def x int32_max_def by simp
  have range: "- int32_max < y" "y < int32_max"
    using lo hi by (auto simp: y_def int32_max_def)
  have "48271 * x mod int32_max = y mod int32_max"
    by (simp add: y mod_diff_eq[symmetric] mod_mult_self2_is_0 algebra_simps)
  also have "\<dots> = (if y < 0 then y + int32_max else y)"
  proof (cases "y < 0")
    case True
    have "y mod int32_max = (y + int32_max) mod int32_max" by simp
    also have "\<dots> = y + int32_max" using True range by (intro mod_pos_pos_trivial) auto
    finally show ?thesis using True by simp
  next
    case False
    then show ?thesis using range by simp
  qed
  also have "\<dots> = SeedRand x"
    by (simp add: SeedRand_def Let_def sd y_def)
  finally show ?thesis by simp
qed

lemma SeedRand_in_range:
  assumes "0 < x" "x < int32_max"
  shows "0 < SeedRand x \<and> SeedRand x < int32_max"
proof -
  have "coprime (48271::int) int32_max" by (simp add: int32_max_def coprime_iff_gcd_eq_1 gcd_non_0_int)
  moreover have "\<not> int32_max dvd x" using assms by (simp add: zdvd_not_zless)
  ultimately have "\<not> int32_max dvd 48271 * x"
    by (metis coprime_commute coprime_dvd_mult_right_iff)
  then have "48271 * x mod int32_max \<noteq> 0" by (simp add: dvd_eq_mod_eq_0)
  moreover have "0 \<le> 48271 * x mod int32_max" "48271 * x mod int32_max < int32_max"
    by (simp_all add: int32_max_def)
  ultimately show ?thesis using assms by (simp add: SeedRand_Schrage less_le)
qed

lemma Seed_start_in_range: "0 < Seed_start seed \<and> Seed_start seed < int32_max"
proof -
  have "\<bar>sint seed smod int32_max\<bar> < int32_max"
    by (simp add: signed_modulo_int_def int32_max_def abs_mult sgn_if)
  then show ?thesis by (auto simp: Seed_start_def Let_def int32_max_def)
qed

lemma length_Seed_loop [simp]: "length (Seed_loop i x vec) = length vec"
proof (induction i x vec rule: Seed_loop.induct)
  case (1 i x vec)
  then show ?case by (subst Seed_loop.simps) (simp add: Let_def)
qed

lemma rng_ok_new [simp]: "rng_ok (GoRandom_new seed)"
  by (simp add: GoRandom_new_def GoRandom_Seed_def rng_ok_def rng_len_def rng_tap_def)

text \<open>Seeding writes the vector front to back: a linear form of the loop.\<close>

fun Seed_fill :: "int \<Rightarrow> i64 list \<Rightarrow> i64 list" where
  "Seed_fill x [] = []"
| "Seed_fill x (c # cs) =
     (let x1 = SeedRand x; x2 = SeedRand x1; x3 = SeedRand x2
      in (push_bit 40 (word_of_int x1) XOR push_bit 20 (word_of_int x2) XOR word_of_int x3 XOR c)
         # Seed_fill x3 cs)"

lemma Seed_loop_warm_up:
  "i \<le> 0 \<Longrightarrow> Seed_loop i x vec = Seed_loop 0 ((SeedRand ^^ nat (- i)) x) vec"
proof (induction "nat (- i)" arbitrary: i x)
  case (Suc k)
  then have i: "i < 0" "nat (- i) = Suc (nat (- (i + 1)))" by auto
  have "Seed_loop i x vec = Seed_loop (i + 1) (SeedRand x) vec"
    using i(1) by (subst Seed_loop.simps) (simp add: rng_len_def)
  also have "\<dots> = Seed_loop 0 ((SeedRand ^^ nat (- (i + 1))) (SeedRand x)) vec"
    using Suc i by (intro Suc.hyps(1)) auto
  finally show ?case by (simp only: i(2) funpow.simps funpow_swap1 o_apply)
qed simp

lemma Seed_loop_fill:
  "k \<le> 607 \<Longrightarrow> length vec = 607 \<Longrightarrow>
     Seed_loop (int k) x vec = take k vec @ Seed_fill x (drop k rng_cooked)"
proof (induction "607 - k" arbitrary: k x vec)
  case 0
  then show ?case by (subst Seed_loop.simps) (simp add: rng_len_def)
next
  case (Suc d)
  then have k: "k < 607" "d = 607 - Suc k" by auto
  have drop: "drop k rng_cooked = rng_cooked ! k # drop (Suc k) rng_cooked"
    using k by (simp add: Cons_nth_drop_Suc)
  define u where "u = (let x1 = SeedRand x; x2 = SeedRand x1; x3 = SeedRand x2
      in push_bit 40 (word_of_int x1) XOR push_bit 20 (word_of_int x2) XOR word_of_int x3 XOR rng_cooked ! k)"
  let ?x = "SeedRand (SeedRand (SeedRand x))"
  have "Seed_loop (int k) x vec = Seed_loop (int (Suc k)) ?x (vec[k := u])"
    using k(1) by (subst Seed_loop.simps) (simp add: rng_len_def Let_def u_def add.commute xor.assoc)
  also have "\<dots> = take (Suc k) (vec[k := u]) @ Seed_fill ?x (drop (Suc k) rng_cooked)"
    using Suc k by (intro Suc.hyps(1)) auto
  also have "\<dots> = take k vec @ Seed_fill x (drop k rng_cooked)"
    using k(1) Suc.prems by (simp add: drop take_Suc_conv_app_nth u_def Let_def)
  finally show ?case .
qed

lemma Seed_vec: "gr_vec (GoRandom_new seed) = Seed_fill ((SeedRand ^^ 20) (Seed_start seed)) rng_cooked"
proof -
  have "Seed_loop (- 20) x vec = Seed_fill ((SeedRand ^^ 20) x) rng_cooked" if "length vec = 607" for x vec
    using that Seed_loop_warm_up[of "- 20" x vec] Seed_loop_fill[of 0 vec "(SeedRand ^^ 20) x"] by simp
  then show ?thesis by (simp add: GoRandom_new_def GoRandom_Seed_def)
qed

section \<open>The generator is the lagged Fibonacci recurrence\<close>

text \<open>
  Abstractly the generator is a queue of the last 607 outputs, oldest first. A step adds the
  oldest one and the one 273 steps back and enqueues the sum.
\<close>

definition rng_queue :: "GoRandom \<Rightarrow> u64 list" where
  "rng_queue g = map (\<lambda>j. gr_vec g ! nat ((gr_feed g - 1 - int j) mod rng_len)) [0..<607]"

definition alfg_step :: "u64 list \<Rightarrow> u64 \<times> u64 list" where
  "alfg_step q = (let x = q ! 0 + q ! 334 in (x, tl q @ [x]))"

lemma length_rng_queue [simp]: "length (rng_queue g) = 607"
  by (simp add: rng_queue_def)

lemma dec_mod: "0 \<le> i \<Longrightarrow> i < rng_len \<Longrightarrow> (if i - 1 < 0 then i - 1 + rng_len else i - 1) = (i - 1) mod rng_len"
proof (cases "i = 0")
  case False
  moreover assume "0 \<le> i" "i < rng_len"
  ultimately show ?thesis by simp
qed (simp add: rng_len_def)

lemma rng_ok_feed: "rng_ok g \<Longrightarrow> 0 \<le> gr_feed g \<and> gr_feed g < rng_len"
  by (simp add: rng_ok_def rng_len_def)

lemma Uint64_mod:
  assumes "rng_ok g"
  shows "Uint64 g =
     (let tap = (gr_tap g - 1) mod rng_len; feed = (gr_feed g - 1) mod rng_len;
          x = gr_vec g ! nat feed + gr_vec g ! nat tap
      in (x, g\<lparr>gr_tap := tap, gr_feed := feed, gr_vec := (gr_vec g)[nat feed := x]\<rparr>))"
  using assms rng_ok_feed[OF assms] unfolding Uint64_def
  by (simp only: rng_ok_def dec_mod)

lemma rng_ok_Uint64: "rng_ok g \<Longrightarrow> rng_ok (snd (Uint64 g))"
  by (simp add: Uint64_mod Let_def) (simp add: rng_ok_def rng_len_def rng_tap_def mod_simps algebra_simps)

lemma queue_index_unchanged:
  assumes "j < 606"
  shows "nat ((f - 1) mod rng_len) \<noteq> nat (((f - 1) mod rng_len - 1 - int j) mod rng_len)"
    and "((f - 1) mod rng_len - 1 - int j) mod rng_len = (f - 1 - int (Suc j)) mod rng_len"
proof -
  show "((f - 1) mod rng_len - 1 - int j) mod rng_len = (f - 1 - int (Suc j)) mod rng_len"
    by (simp add: mod_simps algebra_simps)
  have "(f - 1) mod rng_len \<noteq> ((f - 1) mod rng_len - 1 - int j) mod rng_len"
  proof
    assume "(f - 1) mod rng_len = ((f - 1) mod rng_len - 1 - int j) mod rng_len"
    then have "(f - 1) mod rng_len = (f - 1 - (1 + int j)) mod rng_len"
      by (simp add: mod_simps algebra_simps)
    then have "rng_len dvd 1 + int j"
      by (simp add: mod_eq_dvd_iff)
    with assms show False by (auto simp: rng_len_def dest: zdvd_imp_le)
  qed
  then show "nat ((f - 1) mod rng_len) \<noteq> nat (((f - 1) mod rng_len - 1 - int j) mod rng_len)"
    by (simp add: rng_len_def eq_nat_nat_iff)
qed

lemma Uint64_refines_alfg:
  assumes "rng_ok g"
  shows "alfg_step (rng_queue g) = (fst (Uint64 g), rng_queue (snd (Uint64 g)))"
proof -
  let ?f = "(gr_feed g - 1) mod rng_len" and ?t = "(gr_tap g - 1) mod rng_len"
  have len: "length (gr_vec g) = 607" using assms by (simp add: rng_ok_def)
  have q0: "rng_queue g ! 0 = gr_vec g ! nat ?f" by (simp add: rng_queue_def)
  have "(gr_feed g - 1 - 334) mod rng_len = ?t"
    using assms by (simp add: rng_ok_def rng_len_def rng_tap_def mod_simps algebra_simps)
  then have q334: "rng_queue g ! 334 = gr_vec g ! nat ?t"
    by (simp add: rng_queue_def algebra_simps)
  define x where "x = gr_vec g ! nat ?f + gr_vec g ! nat ?t"
  have f: "nat ?f < 607" by (simp add: rng_len_def nat_less_iff)
  have "tl (rng_queue g) @ [x] = rng_queue (g\<lparr>gr_tap := ?t, gr_feed := ?f, gr_vec := (gr_vec g)[nat ?f := x]\<rparr>)"
  proof (rule nth_equalityI)
    fix j assume "j < length (tl (rng_queue g) @ [x])"
    then have "j < 606 \<or> j = 606" by auto
    then show "(tl (rng_queue g) @ [x]) ! j =
        rng_queue (g\<lparr>gr_tap := ?t, gr_feed := ?f, gr_vec := (gr_vec g)[nat ?f := x]\<rparr>) ! j"
    proof
      assume "j < 606"
      then show ?thesis
        using queue_index_unchanged[of j "gr_feed g"]
        by (simp add: nth_append nth_tl rng_queue_def nth_list_update_neq)
    next
      assume "j = 606"
      moreover have "(?f - 1 - 606) mod rng_len = ?f"
        by (simp add: rng_len_def mod_simps)
      ultimately show ?thesis
        using f len by (simp add: nth_append rng_queue_def)
    qed
  qed simp
  then show ?thesis
    using assms by (simp add: alfg_step_def q0 q334 Uint64_mod Let_def x_def)
qed

section \<open>Bounded draws\<close>

definition int31_of :: "u64 \<Rightarrow> i32" where
  "int31_of x = ucast (drop_bit 32 (x AND rng_mask))"

lemma Int31_eq: "Int31 g = (int31_of (fst (Uint64 g)), snd (Uint64 g))"
  by (simp add: Int31_def Int63_def int31_of_def case_prod_beta)

lemma rng_mask_mask: "rng_mask = mask 63"
  by (simp add: rng_mask_def mask_eq_exp_minus_1)

lemma unat_int31_of: "unat (int31_of x) = unat x mod 2 ^ 63 div 2 ^ 32"
proof -
  have "unat (drop_bit 32 (x AND rng_mask)) = unat x mod 2 ^ 63 div 2 ^ 32"
    by (simp add: rng_mask_mask flip: take_bit_eq_mask)
      (simp add: unsigned_drop_bit_eq unsigned_take_bit_eq take_bit_eq_mod drop_bit_eq_div
        unat_div_distrib unat_mod_distrib)
  moreover have "unat x mod 2 ^ 63 div 2 ^ 32 < (2::nat) ^ 31"
    by (simp add: less_mult_imp_div_less)
  ultimately show ?thesis
    by (simp add: int31_of_def unsigned_ucast_eq take_bit_nat_eq_self_iff)
qed

lemma unat_int31_of_less: "unat (int31_of x) < 2 ^ 31"
  by (simp add: unat_int31_of less_mult_imp_div_less)

lemma sint_int31_of: "sint (int31_of x) = int (unat (int31_of x))"
  using unat_int31_of_less[of x] by (simp add: sint_eq_unat)

lemma sint_Int31n_max:
  assumes "0 < sint n"
  shows "unat (Int31n_max n) = 2 ^ 31 - 1 - 2 ^ 31 mod unat n"
    and "sint (Int31n_max n) = 2 ^ 31 - 1 - 2 ^ 31 mod sint n"
    and "2 ^ 30 \<le> unat (Int31n_max n)"
proof -
  define k where "k = unat n"
  have k: "0 < k" "k < 2 ^ 31" "sint n = int k"
    using assms sint_nonneg_unat[of n] by (auto simp: k_def simp del: of_nat_unat)
  define r where "r = (2::nat) ^ 31 mod k"
  have r: "r < 2 ^ 30"
  proof (cases "k \<le> 2 ^ 30")
    case True
    then show ?thesis using k(1) by (simp add: r_def mod_less_divisor[THEN less_le_trans])
  next
    case False
    then have "r = 2 ^ 31 - k" using k(2) by (simp add: r_def mod_if)
    then show ?thesis using False by simp
  qed
  have "unat (2147483648 mod n) = r"
    by (simp add: unat_mod_distrib r_def k_def)
  then have "unat (Int31n_max n) = 2 ^ 31 - 1 - r"
    using r by (simp add: Int31n_max_def unat_sub word_le_nat_alt)
  then show "unat (Int31n_max n) = 2 ^ 31 - 1 - 2 ^ 31 mod unat n" by (simp add: r_def k_def)
  with r show "2 ^ 30 \<le> unat (Int31n_max n)" by (simp add: r_def k_def)
  show "sint (Int31n_max n) = 2 ^ 31 - 1 - 2 ^ 31 mod sint n"
    using \<open>unat (Int31n_max n) = 2 ^ 31 - 1 - r\<close> r k(3)
    by (simp add: sint_eq_unat r_def of_nat_diff zmod_int)
qed

lemma sint_Int31n_max_nonneg: "0 < sint n \<Longrightarrow> 0 \<le> sint (Int31n_max n)"
  using sint_Int31n_max(1)[of n] by (simp add: sint_eq_unat)

text \<open>How far the low 63 bits of an output are below their maximum.\<close>

definition deficit :: "u64 \<Rightarrow> nat" where
  "deficit x = 2 ^ 63 - unat x mod 2 ^ 63"

definition small_deficit :: "u64 \<Rightarrow> bool" where
  "small_deficit x \<longleftrightarrow> deficit x < 2 ^ 62"

lemma deficit_pos: "0 < deficit x"
  by (simp add: deficit_def)

lemma deficit_add:
  assumes "small_deficit x" "small_deficit y"
  shows "deficit (x + y) = deficit x + deficit y"
proof -
  define a b where "a = unat x mod 2 ^ 63" and "b = unat y mod 2 ^ 63"
  have "unat (x + y) mod 2 ^ 63 = (unat x + unat y) mod 2 ^ 63"
    by (simp add: unat_word_ariths mod_mod_cancel)
  also have "\<dots> = (a + b) mod 2 ^ 63" by (simp add: a_def b_def mod_simps)
  also have "\<dots> = a + b - 2 ^ 63"
  proof -
    have "a < 2 ^ 63" "b < 2 ^ 63" "2 ^ 63 \<le> a + b"
      using assms by (auto simp: a_def b_def small_deficit_def deficit_def)
    then show ?thesis by (simp add: mod_if)
  qed
  finally have "deficit (x + y) = 2 ^ 63 - (a + b - 2 ^ 63)" by (simp add: deficit_def)
  moreover have "a < 2 ^ 63" "b < 2 ^ 63" "2 ^ 63 \<le> a + b"
    using assms by (auto simp: a_def b_def small_deficit_def deficit_def)
  moreover have "deficit x = 2 ^ 63 - a" "deficit y = 2 ^ 63 - b"
    by (simp_all add: deficit_def a_def b_def)
  ultimately show ?thesis by simp
qed

lemma rejected_small_deficit:
  assumes "0 < sint n" "sint (Int31n_max n) < sint (int31_of x)"
  shows "small_deficit x"
proof -
  have "unat (Int31n_max n) < unat (int31_of x)"
    using assms sint_nonneg_unat[of "Int31n_max n"] sint_Int31n_max_nonneg[OF assms(1)]
    by (simp add: sint_int31_of del: of_nat_unat)
  with sint_Int31n_max(3)[OF assms(1)] have "2 ^ 30 + 1 \<le> unat x mod 2 ^ 63 div 2 ^ 32"
    by (simp add: unat_int31_of)
  then have "(2 ^ 30 + 1) * 2 ^ 32 \<le> unat x mod 2 ^ 63"
    by (simp add: less_eq_div_iff_mult_less_eq)
  then show ?thesis by (simp add: small_deficit_def deficit_def)
qed

definition queue_deficit :: "GoRandom \<Rightarrow> nat" where
  "queue_deficit g = sum_list (map deficit (rng_queue g))"

definition all_small :: "nat \<Rightarrow> GoRandom \<Rightarrow> bool" where
  "all_small k g \<longleftrightarrow> (\<forall>x \<in> set (drop k (rng_queue g)). small_deficit x)"

lemma queue_Uint64:
  assumes "rng_ok g"
  shows "rng_queue (snd (Uint64 g)) = tl (rng_queue g) @ [fst (Uint64 g)]"
    and "fst (Uint64 g) = rng_queue g ! 0 + rng_queue g ! 334"
  using Uint64_refines_alfg[OF assms] by (auto simp: alfg_step_def Let_def)

lemma all_small_Uint64:
  assumes "rng_ok g" "all_small (Suc k) g" "k < 607" "small_deficit (fst (Uint64 g))"
  shows "all_small k (snd (Uint64 g))"
  using assms by (auto simp: all_small_def queue_Uint64 drop_Suc)

lemma queue_deficit_increases:
  assumes "rng_ok g" "all_small 0 g"
  shows "queue_deficit g < queue_deficit (snd (Uint64 g))"
proof -
  let ?q = "rng_queue g"
  obtain q0 qs where q: "?q = q0 # qs" "length qs = 606"
    using length_rng_queue[of g] by (cases ?q) auto
  have mem: "?q ! 0 \<in> set ?q" "?q ! 334 \<in> set ?q" by (simp_all add: nth_mem)
  then have "deficit (fst (Uint64 g)) = deficit (?q ! 0) + deficit (?q ! 334)"
    using assms by (simp add: queue_Uint64 deficit_add all_small_def)
  then show ?thesis
    using assms(1) q deficit_pos[of "?q ! 334"] by (simp add: queue_deficit_def queue_Uint64)
qed

lemma queue_deficit_bound: "all_small 0 g \<Longrightarrow> queue_deficit g \<le> 607 * 2 ^ 62"
proof -
  assume "all_small 0 g"
  then have "queue_deficit g \<le> sum_list (map (\<lambda>_. 2 ^ 62) (rng_queue g))"
    unfolding queue_deficit_def
    by (intro sum_list_mono) (auto simp: all_small_def small_deficit_def)
  then show ?thesis by (simp add: sum_list_triv)
qed

text \<open>What a rejection loop returns: an accepted draw and a well-formed generator.\<close>

definition loop_returns :: "i32 \<Rightarrow> i32 \<Rightarrow> GoRandom \<Rightarrow> bool" where
  "loop_returns n v g \<longleftrightarrow> (\<exists>v' g'. Int31n_loop (Int31n_max n) v g = Some (v', g') \<and> rng_ok g' \<and>
     0 \<le> sint v' \<and> sint v' \<le> sint (Int31n_max n))"

lemma loop_returns_step:
  assumes "0 \<le> sint v" "rng_ok g"
    and "sint (Int31n_max n) < sint v \<Longrightarrow> loop_returns n (int31_of (fst (Uint64 g))) (snd (Uint64 g))"
  shows "loop_returns n v g"
  using assms unfolding loop_returns_def
  by (subst Int31n_loop.simps) (auto simp: Int31_eq)

lemma loop_returns_accepted:
  "0 \<le> sint v \<Longrightarrow> rng_ok g \<Longrightarrow> sint v \<le> sint (Int31n_max n) \<Longrightarrow> loop_returns n v g"
  by (rule loop_returns_step) auto

lemma loop_returns_all_small:
  assumes "0 < sint n"
  shows "rng_ok g \<Longrightarrow> all_small 0 g \<Longrightarrow> 0 \<le> sint v \<Longrightarrow> loop_returns n v g"
proof (induction "607 * 2 ^ 62 - queue_deficit g" arbitrary: g v rule: less_induct)
  case less
  let ?x = "fst (Uint64 g)" and ?g = "snd (Uint64 g)"
  have ok: "rng_ok ?g" using less.prems(1) by (rule rng_ok_Uint64)
  show ?case
  proof (rule loop_returns_step[OF less.prems(3,1)])
    show "loop_returns n (int31_of ?x) ?g"
    proof (cases "sint (Int31n_max n) < sint (int31_of ?x)")
      case True
      then have "small_deficit ?x" using assms by (rule rejected_small_deficit[rotated])
      with less.prems(1,2) have small: "all_small 0 ?g"
        by (intro all_small_Uint64) (auto simp: all_small_def dest: in_set_dropD)
      have "queue_deficit g < queue_deficit ?g"
        using less.prems by (intro queue_deficit_increases)
      moreover have "queue_deficit ?g \<le> 607 * 2 ^ 62"
        using small by (rule queue_deficit_bound)
      ultimately show ?thesis using ok small by (intro less.hyps) (auto simp: sint_int31_of)
    next
      case False
      with ok show ?thesis by (intro loop_returns_accepted) (auto simp: sint_int31_of)
    qed
  qed
qed

lemma loop_returns_from:
  assumes "0 < sint n"
  shows "rng_ok g \<Longrightarrow> k \<le> 607 \<Longrightarrow> all_small k g \<Longrightarrow> 0 \<le> sint v \<Longrightarrow> loop_returns n v g"
proof (induction k arbitrary: g v)
  case 0
  then show ?case using assms by (intro loop_returns_all_small)
next
  case (Suc k)
  let ?x = "fst (Uint64 g)" and ?g = "snd (Uint64 g)"
  have ok: "rng_ok ?g" using Suc.prems(1) by (rule rng_ok_Uint64)
  show ?case
  proof (rule loop_returns_step[OF Suc.prems(4,1)])
    show "loop_returns n (int31_of ?x) ?g"
    proof (cases "sint (Int31n_max n) < sint (int31_of ?x)")
      case True
      then have "small_deficit ?x" using assms by (rule rejected_small_deficit[rotated])
      with Suc.prems have "all_small k ?g" by (intro all_small_Uint64) auto
      with Suc.prems(2) ok show ?thesis by (intro Suc.IH) (auto simp: sint_int31_of)
    next
      case False
      with ok show ?thesis by (intro loop_returns_accepted) (auto simp: sint_int31_of)
    qed
  qed
qed

lemma Int31n_loop_returns:
  assumes "0 < sint n" "rng_ok g" "0 \<le> sint v"
  shows "loop_returns n v g"
  using assms by (intro loop_returns_from[of n g 607]) (auto simp: all_small_def)

lemma Int31n_returns:
  assumes "0 < sint n" "rng_ok g"
  obtains v g' where "Int31n n g = Inr (v, g')" "rng_ok g'" "0 \<le> sint v" "sint v < sint n"
proof (cases "n AND (n - 1) = 0")
  case True
  let ?v = "int31_of (fst (Uint64 g)) AND (n - 1)"
  have n: "unat n < 2 ^ 31" "sint n = int (unat n)" "0 < unat n"
    using assms(1) sint_nonneg_unat[of n] by (auto simp del: of_nat_unat)
  have "?v \<le> n - 1" by (rule word_and_le1)
  also have "n - 1 < n" using n(3) by (simp add: word_less_nat_alt unat_gt_0 unat_minus_one)
  finally have "unat ?v < unat n" by (simp add: word_less_nat_alt)
  moreover from this n have "sint ?v = int (unat ?v)" by (intro sint_eq_unat) simp
  ultimately show thesis
    using assms True n rng_ok_Uint64[OF assms(2)]
    by (intro that[of ?v "snd (Uint64 g)"]) (auto simp: Int31n_def Int31_eq simp del: of_nat_unat)
next
  case False
  let ?x = "fst (Uint64 g)" and ?g = "snd (Uint64 g)"
  have "loop_returns n (int31_of ?x) ?g"
    using assms by (intro Int31n_loop_returns rng_ok_Uint64) (auto simp: sint_int31_of)
  then obtain v' g' where loop: "Int31n_loop (Int31n_max n) (int31_of ?x) ?g = Some (v', g')"
    "rng_ok g'" "0 \<le> sint v'" by (auto simp: loop_returns_def)
  have "0 \<le> sint v' smod sint n" "sint v' smod sint n < sint n"
    using assms(1) loop(3) by (auto simp: signed_modulo_int_def sgn_if)
  moreover have "sint n < 2 ^ 31" using sint_lt[of n] by simp
  ultimately have "sint (word_of_int (sint v' smod sint n) :: i32) = sint v' smod sint n"
    by (simp add: sint_sbintrunc' signed_take_bit_int_eq_self)
  with loop False assms \<open>0 \<le> sint v' smod sint n\<close> \<open>sint v' smod sint n < sint n\<close> show thesis
    by (intro that[of "word_of_int (sint v' smod sint n)" g']) (auto simp: Int31n_def Int31_eq)
qed

section \<open>Properties\<close>

text \<open>
  Schrage's form in \<open>SeedRand\<close> computes \<open>48271 * x mod (2^31 - 1)\<close> for every state the
  seeding loop can be in, stays in the range \<open>1 .. 2^31 - 2\<close>, and none of its \<open>std::int32_t\<close>
  intermediate values overflows.
\<close>

theorem SeedRand_correct:
  assumes "0 < x" "x < int32_max"
  shows "SeedRand x = 48271 * x mod int32_max \<and> 0 < SeedRand x \<and> SeedRand x < int32_max \<and>
    48271 * (x smod 44488) \<le> int32_max \<and> 3399 * (x sdiv 44488) \<le> int32_max \<and>
    \<bar>48271 * (x smod 44488) - 3399 * (x sdiv 44488)\<bar> \<le> int32_max"
proof -
  have "0 \<le> x smod 44488" "x smod 44488 < 44488" "0 \<le> x sdiv 44488" "x sdiv 44488 \<le> 48271"
    using assms by (auto simp: signed_divide_int_def signed_modulo_int_def int32_max_def)
  then show ?thesis
    using assms SeedRand_in_range[OF assms] by (simp add: SeedRand_Schrage int32_max_def)
qed

theorem SeedRand_correct_witness:
  "(0::int) < 42 \<and> 42 < int32_max \<and> SeedRand 42 = 2027382"
  using SeedRand_correct[of 42] by (simp add: int32_max_def)

text \<open>The \<open>k\<close>-th output of a generator, and the generator after \<open>k\<close> outputs.\<close>

fun rng_stream :: "nat \<Rightarrow> GoRandom \<Rightarrow> u64" where
  "rng_stream 0 g = fst (Uint64 g)"
| "rng_stream (Suc k) g = rng_stream k (snd (Uint64 g))"

definition rng_after :: "nat \<Rightarrow> GoRandom \<Rightarrow> GoRandom" where
  "rng_after k g = ((\<lambda>g. snd (Uint64 g)) ^^ k) g"

lemma rng_after_Suc: "rng_after (Suc k) g = snd (Uint64 (rng_after k g))"
  by (simp add: rng_after_def)

lemma rng_ok_after: "rng_ok g \<Longrightarrow> rng_ok (rng_after k g)"
  by (induction k) (auto simp: rng_after_Suc rng_ok_Uint64, simp add: rng_after_def)

lemma rng_stream_after: "rng_stream k g = fst (Uint64 (rng_after k g))"
proof (induction k arbitrary: g)
  case (Suc k)
  then show ?case using funpow_swap1[of "\<lambda>g. snd (Uint64 g)" k g] by (simp add: rng_after_def)
qed (simp add: rng_after_def)

lemma queue_holds_stream:
  "rng_ok g \<Longrightarrow> j < 607 \<Longrightarrow> 607 \<le> k + j \<Longrightarrow> rng_queue (rng_after k g) ! j = rng_stream (k + j - 607) g"
proof (induction k arbitrary: j)
  case (Suc k)
  have step: "rng_queue (rng_after (Suc k) g) = tl (rng_queue (rng_after k g)) @ [rng_stream k g]"
    using rng_ok_after[OF Suc.prems(1)] by (simp add: rng_after_Suc queue_Uint64 rng_stream_after)
  show ?case
  proof (cases "j = 606")
    case True
    then show ?thesis by (simp add: step nth_append)
  next
    case False
    with Suc.prems have "rng_queue (rng_after k g) ! Suc j = rng_stream (k + Suc j - 607) g"
      by (intro Suc.IH) auto
    with False Suc.prems show ?thesis by (simp add: step nth_append nth_tl)
  qed
qed simp

text \<open>
  \<^bold>\<open>C6\<close>: the generator produces the additive lagged Fibonacci sequence \<open>x(k) = x(k-607) + x(k-273)\<close>
  modulo \<open>2^64\<close>, although the code only keeps a vector and two moving indices.
\<close>

theorem Uint64_lagged_fibonacci:
  assumes "rng_ok g"
  shows "rng_stream (k + 607) g = rng_stream k g + rng_stream (k + 334) g"
proof -
  have "rng_stream (k + 607) g = rng_queue (rng_after (k + 607) g) ! 0 + rng_queue (rng_after (k + 607) g) ! 334"
    using rng_ok_after[OF assms] by (simp add: rng_stream_after queue_Uint64)
  then show ?thesis using assms by (simp add: queue_holds_stream add.commute)
qed

theorem Uint64_lagged_fibonacci_witness:
  "rng_stream (5 + 607) (GoRandom_new 42) =
     rng_stream 5 (GoRandom_new 42) + rng_stream (5 + 334) (GoRandom_new 42)"
  by (rule Uint64_lagged_fibonacci) simp

text \<open>
  \<^bold>\<open>C5\<close>: \<open>Int31n\<close> rejects a non-positive bound with \<open>std::invalid_argument\<close>; for every positive
  bound and every well-formed generator its rejection loop ends, the draw is in \<open>0 .. n-1\<close> and the
  generator stays well-formed. (A run of rejections adds up: the distance of the state to its
  maximum grows with each one, so it cannot go on.)
\<close>

theorem Int31n_terminates_in_range:
  assumes "rng_ok g"
  shows "if sint n \<le> 0 then Int31n n g = Inl (Invalid_Argument ''GoRandom::Int31n requires n > 0'')
    else \<exists>v g'. Int31n n g = Inr (v, g') \<and> rng_ok g' \<and> 0 \<le> sint v \<and> sint v < sint n"
proof (cases "sint n \<le> 0")
  case False
  then have "0 < sint n" by simp
  from Int31n_returns[OF this assms] False show ?thesis by metis
qed (simp add: Int31n_def)

theorem Int31n_terminates_in_range_witness:
  "rng_ok (GoRandom_new 42) \<and>
   (\<exists>v g'. Int31n 10 (GoRandom_new 42) = Inr (v, g') \<and> rng_ok g' \<and> 0 \<le> sint v \<and> sint v < sint (10 :: i32))"
  using Int31n_terminates_in_range[of "GoRandom_new 42" 10] by simp

text \<open>
  \<open>Int31n\<close> has no modulo bias: of the draws its loop accepts, every residue modulo \<open>n\<close>
  comes from the same number of values.
\<close>

theorem Int31n_unbiased:
  assumes "0 < sint n" "r < unat n"
  shows "card {v::nat. v \<le> unat (Int31n_max n) \<and> v mod unat n = r} = (unat (Int31n_max n) + 1) div unat n"
proof -
  define k where "k = unat n"
  define q where "q = (2::nat) ^ 31 div k"
  have k: "0 < k" "r < k" using assms(2) by (auto simp: k_def)
  have mx: "unat (Int31n_max n) + 1 = q * k"
  proof -
    have "2 ^ 31 mod k + q * k = 2 ^ 31" by (simp add: q_def mod_div_mult_eq)
    moreover have "2 ^ 30 \<le> unat (Int31n_max n)" "unat (Int31n_max n) = 2 ^ 31 - 1 - 2 ^ 31 mod k"
      using sint_Int31n_max[OF assms(1)] by (auto simp: k_def)
    ultimately show ?thesis by simp
  qed
  have "{v. v \<le> unat (Int31n_max n) \<and> v mod k = r} = (\<lambda>i. i * k + r) ` {..<q}"
  proof (intro set_eqI iffI)
    fix v assume "v \<in> {v. v \<le> unat (Int31n_max n) \<and> v mod k = r}"
    then have v: "v < q * k" "v = v div k * k + r" using mx by (auto simp: div_mult_mod_eq)
    then have "v div k < q" by (simp add: less_mult_imp_div_less)
    with v(2) show "v \<in> (\<lambda>i. i * k + r) ` {..<q}" by blast
  next
    fix v assume "v \<in> (\<lambda>i. i * k + r) ` {..<q}"
    then obtain i where i: "i < q" "v = i * k + r" by blast
    then have "v < Suc i * k" using k by simp
    also have "\<dots> \<le> q * k" using i(1) by (intro mult_le_mono1) simp
    finally show "v \<in> {v. v \<le> unat (Int31n_max n) \<and> v mod k = r}" using mx k i by auto
  qed
  moreover have "inj_on (\<lambda>i. i * k + r) {..<q}" using k by (auto simp: inj_on_def)
  ultimately have "card {v. v \<le> unat (Int31n_max n) \<and> v mod k = r} = q"
    by (simp add: card_image)
  then show ?thesis using mx k by (simp add: k_def)
qed

theorem Int31n_unbiased_witness:
  "card {v::nat. v \<le> unat (Int31n_max 10) \<and> v mod unat (10::i32) = 3} = (unat (Int31n_max 10) + 1) div 10"
  using Int31n_unbiased[of 10 3] by simp

end
