(* ===== verification/Query_Plan.thy ===== *)
theory Query_Plan
  imports Uri Go_Random
begin

text \<open>
  \<open>src/src/query_plan.cpp\<close>: the per-request node order. A plan is lazily prepared, hands out its
  preferred nodes first and then picks from the remaining ones, either front to back or with the
  seeded generator. The clock seed of the public constructor is an argument. \<open>DrainPlan\<close> is the
  helper of \<open>src/src/key_route_affinity.cpp\<close> that runs a plan to its end.
\<close>

section \<open>State and operations\<close>

record QueryPlan =
  qp_nodes :: "Url list"
  qp_seed :: i64
  qp_go_rng :: "GoRandom option"
  qp_deterministic_order :: bool
  qp_sort_nodes :: bool
  qp_prepared :: bool
  qp_preferred_nodes :: "Url list"

definition PopNode :: "Url list \<Rightarrow> Url \<Rightarrow> (Url \<times> Url list) option" where
  "PopNode nodes target = (if target \<in> set nodes then Some (target, remove1 target nodes) else None)"

fun DedupePreservingOrder_loop :: "Url list \<Rightarrow> Url list \<Rightarrow> Url list" where
  "DedupePreservingOrder_loop out [] = out"
| "DedupePreservingOrder_loop out (node # nodes) =
     (if Url_Empty node then DedupePreservingOrder_loop out nodes
      else if node \<notin> set out then DedupePreservingOrder_loop (out @ [node]) nodes
      else DedupePreservingOrder_loop out nodes)"

definition DedupePreservingOrder :: "Url list \<Rightarrow> Url list" where
  "DedupePreservingOrder nodes = DedupePreservingOrder_loop [] nodes"

definition QueryPlan_new :: "Url list \<Rightarrow> u64 \<Rightarrow> bool \<Rightarrow> bool \<Rightarrow> Url list \<Rightarrow> QueryPlan" where
  "QueryPlan_new nodes seed deterministic_order sort_nodes preferred_nodes =
     \<lparr>qp_nodes = nodes, qp_seed = seed, qp_go_rng = None,
      qp_deterministic_order = deterministic_order, qp_sort_nodes = sort_nodes,
      qp_prepared = False, qp_preferred_nodes = preferred_nodes\<rparr>"

definition QueryPlan_FromClock :: "u64 \<Rightarrow> Url list \<Rightarrow> QueryPlan" where
  "QueryPlan_FromClock clock nodes = QueryPlan_new nodes clock False False []"

definition QueryPlan_WithSeed :: "Url list \<Rightarrow> i64 \<Rightarrow> QueryPlan" where
  "QueryPlan_WithSeed nodes seed = QueryPlan_new nodes seed False False []"

definition QueryPlan_WithSortedSeed :: "Url list \<Rightarrow> i64 \<Rightarrow> QueryPlan" where
  "QueryPlan_WithSortedSeed nodes seed = QueryPlan_new nodes seed False True []"

definition QueryPlan_WithPreferredNodes :: "Url list \<Rightarrow> Url list \<Rightarrow> QueryPlan" where
  "QueryPlan_WithPreferredNodes nodes preferred_nodes = QueryPlan_new nodes 0 True True preferred_nodes"

definition QueryPlan_WithPreferredNode :: "Url list \<Rightarrow> Url \<Rightarrow> QueryPlan" where
  "QueryPlan_WithPreferredNode nodes preferred_node =
     QueryPlan_WithPreferredNodes nodes (if \<not> Url_Empty preferred_node then [preferred_node] else [])"

definition QueryPlan_FromOrderedNodes :: "Url list \<Rightarrow> QueryPlan" where
  "QueryPlan_FromOrderedNodes nodes = QueryPlan_new (DedupePreservingOrder nodes) 0 True False []"

definition QueryPlan_Prepare :: "QueryPlan \<Rightarrow> QueryPlan" where
  "QueryPlan_Prepare p =
     (if qp_prepared p then p
      else if qp_sort_nodes p then p\<lparr>qp_prepared := True, qp_nodes := sort_key Url_ToString (qp_nodes p)\<rparr>
      else p\<lparr>qp_prepared := True\<rparr>)"

definition QueryPlan_PickAndRemove :: "QueryPlan \<Rightarrow> (Url \<times> QueryPlan) result" where
  "QueryPlan_PickAndRemove p =
     (let nodes = qp_nodes p in
      if qp_deterministic_order p then Inr (hd nodes, p\<lparr>qp_nodes := tl nodes\<rparr>)
      else
        (let g = (case qp_go_rng p of None \<Rightarrow> GoRandom_new (qp_seed p) | Some g \<Rightarrow> g) in
         rbind (Int31n (word_of_nat (length nodes)) g) (\<lambda>(v, g').
           let idx = unat v in
           Inr (nodes ! idx,
                p\<lparr>qp_go_rng := Some g', qp_nodes := butlast (nodes[idx := last nodes])\<rparr>))))"

text \<open>The \<open>while\<close> loop of \<open>Next\<close>: the node found, and what is left of the two lists.\<close>

fun QueryPlan_NextPreferred :: "Url list \<Rightarrow> Url list \<Rightarrow> Url option \<times> Url list \<times> Url list" where
  "QueryPlan_NextPreferred [] nodes = (None, [], nodes)"
| "QueryPlan_NextPreferred (preferred_node # preferred_nodes) nodes =
     (if Url_Empty preferred_node then QueryPlan_NextPreferred preferred_nodes nodes
      else case PopNode nodes preferred_node of
             Some (out, nodes') \<Rightarrow> (Some out, preferred_nodes, nodes')
           | None \<Rightarrow> QueryPlan_NextPreferred preferred_nodes nodes)"

definition QueryPlan_Next :: "QueryPlan \<Rightarrow> (Url \<times> QueryPlan) result" where
  "QueryPlan_Next p0 =
     (let p = QueryPlan_Prepare p0 in
      case QueryPlan_NextPreferred (qp_preferred_nodes p) (qp_nodes p) of
        (Some out, preferred_nodes, nodes) \<Rightarrow>
          Inr (out, p\<lparr>qp_preferred_nodes := preferred_nodes, qp_nodes := nodes\<rparr>)
      | (None, preferred_nodes, nodes) \<Rightarrow>
          (let p' = p\<lparr>qp_preferred_nodes := preferred_nodes, qp_nodes := nodes\<rparr> in
           if nodes \<noteq> [] then QueryPlan_PickAndRemove p' else Inr (Url_default, p')))"

definition SortAndDedupeNodes :: "Url list \<Rightarrow> Url list" where
  "SortAndDedupeNodes nodes = remdups_adj (sort_key Url_ToString nodes)"

definition FirstNodeWithSeed :: "Url list \<Rightarrow> i64 \<Rightarrow> Url result" where
  "FirstNodeWithSeed nodes0 seed =
     (let nodes = SortAndDedupeNodes nodes0 in
      if nodes = [] then Inr Url_default
      else rbind (Int31n (word_of_nat (length nodes)) (GoRandom_new seed)) (\<lambda>(v, g).
             Inr (nodes ! unat v)))"

section \<open>Drawing an element\<close>

text \<open>
  What the plans need from the generator: a bounded draw that always returns and keeps the
  generator usable. The swap-with-last removal then takes out exactly the drawn element.
\<close>

locale index_source =
  fixes draw :: "i32 \<Rightarrow> 'g \<Rightarrow> (i32 \<times> 'g) result"
    and ok :: "'g \<Rightarrow> bool"
  assumes draw_returns: "0 < sint n \<Longrightarrow> ok g \<Longrightarrow>
      \<exists>v g'. draw n g = Inr (v, g') \<and> ok g' \<and> 0 \<le> sint v \<and> sint v < sint n"
begin

lemma draw_index:
  assumes "xs \<noteq> []" "length xs < 2 ^ 31" "ok g"
  obtains v g' where "draw (word_of_nat (length xs)) g = Inr (v, g')" "ok g'" "unat v < length xs"
proof -
  let ?n = "word_of_nat (length xs) :: i32"
  have n: "unat ?n = length xs"
    using assms(2) by (simp add: unsigned_of_nat take_bit_nat_eq_self)
  then have sn: "sint ?n = int (length xs)"
    using assms(2) sint_eq_unat[of ?n] by (simp del: of_nat_unat)
  with assms(1) have "0 < sint ?n" by simp
  then obtain v g' where d: "draw ?n g = Inr (v, g')" "ok g'" "0 \<le> sint v" "sint v < sint ?n"
    using draw_returns assms(3) by blast
  from d(3) have "sint v = int (unat v)" using sint_nonneg_unat by blast
  with d(4) sn have "unat v < length xs" by (simp del: of_nat_unat)
  with d that show thesis by blast
qed

end

interpretation go_rng: index_source Int31n rng_ok
  by unfold_locales (metis Int31n_returns)

lemma mset_swap_remove:
  assumes "i < length xs"
  shows "mset xs = add_mset (xs ! i) (mset (butlast (xs[i := last xs])))"
proof -
  obtain ys y where xs: "xs = ys @ [y]" using assms by (cases xs rule: rev_cases) auto
  show ?thesis
  proof (cases "i < length ys")
    case True
    then have "mset (butlast (xs[i := last xs])) = mset (ys[i := y])"
      by (simp add: xs list_update_append)
    with True show ?thesis by (simp add: xs nth_append mset_update)
  next
    case False
    with assms xs have "i = length ys" by simp
    then show ?thesis by (simp add: xs list_update_append)
  qed
qed

section \<open>Running a plan\<close>

definition plan_ok :: "QueryPlan \<Rightarrow> bool" where
  "plan_ok p \<longleftrightarrow> length (qp_nodes p) < 2 ^ 31 \<and> (\<forall>g. qp_go_rng p = Some g \<longrightarrow> rng_ok g)"

lemma plan_ok_new [simp]: "length nodes < 2 ^ 31 \<Longrightarrow> plan_ok (QueryPlan_new nodes s d srt pref)"
  by (simp add: plan_ok_def QueryPlan_new_def)

lemma Prepare_nodes [simp]:
  "mset (qp_nodes (QueryPlan_Prepare p)) = mset (qp_nodes p)"
  "length (qp_nodes (QueryPlan_Prepare p)) = length (qp_nodes p)"
  "plan_ok (QueryPlan_Prepare p) = plan_ok p"
  by (auto simp: QueryPlan_Prepare_def plan_ok_def)

lemma NextPreferred_spec:
  assumes "QueryPlan_NextPreferred ps nodes = (r, ps', nodes')"
  shows "case r of
      None \<Rightarrow> nodes' = nodes \<and> ps' = []
    | Some u \<Rightarrow> u \<in> set ps \<and> \<not> Url_Empty u \<and> mset nodes = add_mset u (mset nodes')"
  using assms
  by (induction ps nodes rule: QueryPlan_NextPreferred.induct)
    (auto simp: PopNode_def split: if_splits option.splits)

lemma PickAndRemove_spec:
  assumes "plan_ok p" "qp_nodes p \<noteq> []"
  obtains u p' where "QueryPlan_PickAndRemove p = Inr (u, p')" "plan_ok p'"
    "mset (qp_nodes p) = add_mset u (mset (qp_nodes p'))"
proof (cases "qp_deterministic_order p")
  case True
  with assms show thesis
    by (intro that[of "hd (qp_nodes p)" "p\<lparr>qp_nodes := tl (qp_nodes p)\<rparr>"])
      (auto simp: QueryPlan_PickAndRemove_def plan_ok_def neq_Nil_conv)
next
  case False
  let ?g = "case qp_go_rng p of None \<Rightarrow> GoRandom_new (qp_seed p) | Some g \<Rightarrow> g"
  have "rng_ok ?g" using assms(1) by (auto simp: plan_ok_def split: option.splits)
  with assms obtain v g' where d: "Int31n (word_of_nat (length (qp_nodes p))) ?g = Inr (v, g')"
    "rng_ok g'" "unat v < length (qp_nodes p)"
    by (metis go_rng.draw_index plan_ok_def)
  with False assms(1) mset_swap_remove[OF d(3)] show thesis
    by (intro that[of "qp_nodes p ! unat v"
          "p\<lparr>qp_go_rng := Some g', qp_nodes := butlast ((qp_nodes p)[unat v := last (qp_nodes p)])\<rparr>"])
      (auto simp: QueryPlan_PickAndRemove_def plan_ok_def Let_def)
qed

lemma Next_spec:
  assumes "plan_ok p"
  obtains u p' where "QueryPlan_Next p = Inr (u, p')" "plan_ok p'"
    "if qp_nodes p = [] then u = Url_default \<and> qp_nodes p' = []
     else mset (qp_nodes p) = add_mset u (mset (qp_nodes p'))"
proof -
  let ?p = "QueryPlan_Prepare p"
  obtain r ps nodes where np: "QueryPlan_NextPreferred (qp_preferred_nodes ?p) (qp_nodes ?p) = (r, ps, nodes)"
    by (metis prod_cases3)
  let ?p' = "?p\<lparr>qp_preferred_nodes := ps, qp_nodes := nodes\<rparr>"
  note spec = NextPreferred_spec[OF np]
  have nil: "qp_nodes ?p = [] \<longleftrightarrow> qp_nodes p = []" by (metis Prepare_nodes(2) length_0_conv)
  have ok: "plan_ok ?p" using assms by simp
  show thesis
  proof (cases r)
    case (Some u)
    with spec have m: "mset (qp_nodes ?p) = add_mset u (mset nodes)" by simp
    then have "length nodes \<le> length (qp_nodes ?p)" by (metis size_add_mset size_mset lessI less_imp_le_nat)
    with ok have "plan_ok ?p'" by (auto simp: plan_ok_def)
    with Some np m show thesis
      by (intro that[of u ?p']) (auto simp: QueryPlan_Next_def Let_def)
  next
    case None
    with spec have n: "nodes = qp_nodes ?p" "ps = []" by auto
    with ok have ok': "plan_ok ?p'" by (auto simp: plan_ok_def)
    show thesis
    proof (cases "nodes = []")
      case True
      with n nil None np ok' show thesis
        by (intro that[of Url_default ?p']) (auto simp: QueryPlan_Next_def Let_def)
    next
      case False
      then have "qp_nodes ?p' \<noteq> []" by simp
      from PickAndRemove_spec[OF ok' this]
      obtain u p'' where "QueryPlan_PickAndRemove ?p' = Inr (u, p'')" "plan_ok p''"
        "mset (qp_nodes ?p') = add_mset u (mset (qp_nodes p''))" by blast
      with False n nil None np show thesis
        by (intro that[of u p'']) (auto simp: QueryPlan_Next_def Let_def)
    qed
  qed
qed

lemma PickAndRemove_shrinks:
  "QueryPlan_PickAndRemove p = Inr (u, p') \<Longrightarrow> qp_nodes p \<noteq> [] \<Longrightarrow>
     length (qp_nodes p') < length (qp_nodes p)"
  by (auto simp: QueryPlan_PickAndRemove_def Let_def result_simps split: if_splits prod.splits)

lemma Next_shrinks:
  assumes "QueryPlan_Next p = Inr (u, p')" "\<not> Url_Empty u"
  shows "length (qp_nodes p') < length (qp_nodes p)"
proof -
  obtain r ps nodes where np: "QueryPlan_NextPreferred (qp_preferred_nodes (QueryPlan_Prepare p))
      (qp_nodes (QueryPlan_Prepare p)) = (r, ps, nodes)"
    by (metis prod_cases3)
  note spec = NextPreferred_spec[OF np]
  show ?thesis
  proof (cases r)
    case (Some v)
    with spec have "mset (qp_nodes (QueryPlan_Prepare p)) = add_mset v (mset nodes)" by simp
    then have "length (qp_nodes (QueryPlan_Prepare p)) = Suc (length nodes)"
      by (metis size_add_mset size_mset)
    with Some np assms(1) show ?thesis by (auto simp: QueryPlan_Next_def Let_def)
  next
    case None
    let ?p' = "QueryPlan_Prepare p\<lparr>qp_preferred_nodes := ps, qp_nodes := nodes\<rparr>"
    from None spec have "nodes = qp_nodes (QueryPlan_Prepare p)" by simp
    then have len: "length nodes = length (qp_nodes p)" by simp
    from None np have "QueryPlan_Next p =
        (if nodes \<noteq> [] then QueryPlan_PickAndRemove ?p' else Inr (Url_default, ?p'))"
      by (simp add: QueryPlan_Next_def)
    with assms have "nodes \<noteq> []" "QueryPlan_PickAndRemove ?p' = Inr (u, p')" by (auto split: if_splits)
    then show ?thesis using PickAndRemove_shrinks[of ?p' u p'] len by simp
  qed
qed

function DrainPlan :: "QueryPlan \<Rightarrow> Url list result" where
  "DrainPlan plan =
     (case QueryPlan_Next plan of
        Inl e \<Rightarrow> Inl e
      | Inr (node, plan') \<Rightarrow>
          if Url_Empty node then Inr []
          else (case DrainPlan plan' of Inl e \<Rightarrow> Inl e | Inr out \<Rightarrow> Inr (node # out)))"
  by pat_completeness auto
termination
  by (relation "measure (\<lambda>p. length (qp_nodes p))") (auto dest: Next_shrinks)

declare DrainPlan.simps [simp del]

lemma DrainPlan_permutation:
  "plan_ok p \<Longrightarrow> \<forall>u \<in> set (qp_nodes p). \<not> Url_Empty u \<Longrightarrow>
     \<exists>us. DrainPlan p = Inr us \<and> mset us = mset (qp_nodes p)"
proof (induction p rule: DrainPlan.induct)
  case (1 p)
  from "1.prems"(1) obtain u p' where n: "QueryPlan_Next p = Inr (u, p')" "plan_ok p'"
    "if qp_nodes p = [] then u = Url_default \<and> qp_nodes p' = []
     else mset (qp_nodes p) = add_mset u (mset (qp_nodes p'))" by (rule Next_spec)
  show ?case
  proof (cases "qp_nodes p = []")
    case True
    with n show ?thesis by (subst DrainPlan.simps) simp
  next
    case False
    with n have m: "mset (qp_nodes p) = add_mset u (mset (qp_nodes p'))" by simp
    then have sub: "set (qp_nodes p) = insert u (set (qp_nodes p'))"
      by (metis set_mset_add_mset_insert set_mset_mset)
    with "1.prems"(2) have u: "\<not> Url_Empty u" by simp
    from "1.prems"(2) sub have "\<forall>u \<in> set (qp_nodes p'). \<not> Url_Empty u" by simp
    with "1.IH"[OF n(1) refl u n(2)] obtain us where "DrainPlan p' = Inr us" "mset us = mset (qp_nodes p')"
      by blast
    with n(1) u m show ?thesis by (subst DrainPlan.simps) simp
  qed
qed

section \<open>Deterministic orders\<close>

fun preferred_then_rest :: "Url list \<Rightarrow> Url list \<Rightarrow> Url list" where
  "preferred_then_rest [] nodes = nodes"
| "preferred_then_rest (p # ps) nodes =
     (if \<not> Url_Empty p \<and> p \<in> set nodes then p # preferred_then_rest ps (remove1 p nodes)
      else preferred_then_rest ps nodes)"

lemma NextPreferred_order:
  "QueryPlan_NextPreferred ps nodes = (r, ps', nodes') \<Longrightarrow>
     preferred_then_rest ps nodes = (case r of None \<Rightarrow> nodes | Some u \<Rightarrow> u # preferred_then_rest ps' nodes')"
  by (induction ps nodes rule: QueryPlan_NextPreferred.induct)
    (auto simp: PopNode_def split: if_splits option.splits)

lemma DrainPlan_deterministic:
  "qp_deterministic_order p \<Longrightarrow> qp_prepared p \<Longrightarrow> \<forall>u \<in> set (qp_nodes p). \<not> Url_Empty u \<Longrightarrow>
     DrainPlan p = Inr (preferred_then_rest (qp_preferred_nodes p) (qp_nodes p))"
proof (induction p rule: DrainPlan.induct)
  case (1 p)
  let ?ps = "qp_preferred_nodes p" and ?ns = "qp_nodes p"
  obtain r ps ns where np: "QueryPlan_NextPreferred ?ps ?ns = (r, ps, ns)" by (metis prod_cases3)
  note spec = NextPreferred_spec[OF np] and order = NextPreferred_order[OF np]
  have prep: "QueryPlan_Prepare p = p" using "1.prems"(2) by (simp add: QueryPlan_Prepare_def)
  let ?p = "p\<lparr>qp_preferred_nodes := ps, qp_nodes := ns\<rparr>"
  show ?case
  proof (cases r)
    case (Some u)
    with spec have u: "\<not> Url_Empty u" and m: "mset ?ns = add_mset u (mset ns)" by auto
    then have "set ns \<subseteq> set ?ns" by (metis set_mset_add_mset_insert set_mset_mset subset_insertI)
    moreover have next_p: "QueryPlan_Next p = Inr (u, ?p)"
      using Some np prep by (simp add: QueryPlan_Next_def)
    ultimately have "DrainPlan ?p = Inr (preferred_then_rest ps ns)"
      using "1.IH"[OF next_p refl u] "1.prems" by auto
    with next_p u order Some show ?thesis by (subst DrainPlan.simps) simp
  next
    case None
    with spec have ns: "ns = ?ns" "ps = []" by auto
    show ?thesis
    proof (cases ?ns)
      case Nil
      with None np prep ns order show ?thesis
        by (subst DrainPlan.simps) (simp add: QueryPlan_Next_def)
    next
      case (Cons u us)
      with "1.prems" have u: "\<not> Url_Empty u" by simp
      let ?q = "?p\<lparr>qp_nodes := us\<rparr>"
      have next_p: "QueryPlan_Next p = Inr (u, ?q)"
        using None np prep ns Cons "1.prems"(1)
        by (simp add: QueryPlan_Next_def QueryPlan_PickAndRemove_def)
      have "DrainPlan ?q = Inr us"
        using "1.IH"[OF next_p refl u] "1.prems" Cons ns by auto
      with next_p u order None Cons ns show ?thesis by (subst DrainPlan.simps) simp
    qed
  qed
qed

lemma DrainPlan_Prepare: "DrainPlan (QueryPlan_Prepare p) = DrainPlan p"
proof -
  have "QueryPlan_Prepare (QueryPlan_Prepare p) = QueryPlan_Prepare p" by (simp add: QueryPlan_Prepare_def)
  then have "QueryPlan_Next (QueryPlan_Prepare p) = QueryPlan_Next p" by (simp add: QueryPlan_Next_def)
  then show ?thesis by (subst (1 2) DrainPlan.simps) simp
qed

section \<open>Sorted and deduplicated node lists\<close>

lemma Dedupe_loop_append:
  "DedupePreservingOrder_loop out nodes = out @ filter (\<lambda>u. u \<notin> set out) (DedupePreservingOrder nodes)"
proof (induction nodes arbitrary: out)
  case (Cons node nodes)
  show ?case
    using Cons[of "out @ [node]"] Cons[of out] Cons[of "[node]"]
    by (auto simp: DedupePreservingOrder_def intro!: filter_cong)
qed (simp add: DedupePreservingOrder_def)

lemma Dedupe_Cons:
  "DedupePreservingOrder (u # us) =
     (if Url_Empty u then DedupePreservingOrder us
      else u # filter (\<lambda>v. v \<noteq> u) (DedupePreservingOrder us))"
  using Dedupe_loop_append[of "[u]" us] by (simp add: DedupePreservingOrder_def)

lemma Dedupe_Nil [simp]: "DedupePreservingOrder [] = []"
  by (simp add: DedupePreservingOrder_def)

lemma set_Dedupe [simp]: "set (DedupePreservingOrder us) = {u \<in> set us. \<not> Url_Empty u}"
  by (induction us) (auto simp: Dedupe_Cons)

lemma distinct_Dedupe [simp]: "distinct (DedupePreservingOrder us)"
  by (induction us) (auto simp: Dedupe_Cons)

lemma Dedupe_id: "distinct us \<Longrightarrow> \<forall>u \<in> set us. \<not> Url_Empty u \<Longrightarrow> DedupePreservingOrder us = us"
  by (induction us) (auto simp: Dedupe_Cons filter_id_conv)

lemma preferred_then_rest_distinct:
  assumes "distinct nodes" "\<forall>u \<in> set nodes. \<not> Url_Empty u"
  shows "preferred_then_rest ps nodes =
     filter (\<lambda>u. u \<in> set nodes) (DedupePreservingOrder ps) @ filter (\<lambda>u. u \<notin> set ps) nodes"
  using assms
proof (induction ps arbitrary: nodes)
  case (Cons p ps)
  have rem: "filter (\<lambda>u. u \<notin> set ps) (remove1 p nodes) = filter (\<lambda>u. u \<notin> set (p # ps)) nodes"
    using Cons.prems(1) by (simp add: distinct_remove1_removeAll removeAll_filter_not_eq)
      (metis (mono_tags, lifting) filter_cong)
  show ?case
  proof (cases "\<not> Url_Empty p \<and> p \<in> set nodes")
    case True
    with Cons.IH[of "remove1 p nodes"] Cons.prems rem show ?thesis
      by (simp add: Dedupe_Cons notin_set_remove1) (auto intro!: filter_cong)
  next
    case False
    moreover have "filter (\<lambda>u. u \<notin> set ps) nodes = filter (\<lambda>u. u \<notin> set (p # ps)) nodes"
      using False Cons.prems(2) by (auto intro!: filter_cong)
    moreover have "filter (\<lambda>u. u \<in> set nodes) (DedupePreservingOrder (p # ps)) =
        filter (\<lambda>u. u \<in> set nodes) (DedupePreservingOrder ps)"
      using False by (auto simp: Dedupe_Cons intro!: filter_cong)
    ultimately show ?thesis using Cons.IH[OF Cons.prems] by auto
  qed
qed simp

lemma set_SortAndDedupe [simp]: "set (SortAndDedupeNodes us) = set us"
  by (simp add: SortAndDedupeNodes_def)

lemma sorted_SortAndDedupe: "sorted (map Url_ToString (SortAndDedupeNodes us))"
  by (simp add: SortAndDedupeNodes_def sorted_map_remdups_adj)

lemma SortAndDedupe_eq_Nil [simp]: "SortAndDedupeNodes us = [] \<longleftrightarrow> us = []"
  by (metis set_SortAndDedupe set_empty)

lemma length_SortAndDedupe: "length (SortAndDedupeNodes us) \<le> length us"
  by (metis SortAndDedupeNodes_def length_sort remdups_adj_length)

lemma distinct_SortAndDedupe:
  assumes "Ball (set us) node_url"
  shows "distinct (map Url_ToString (SortAndDedupeNodes us))"
proof -
  have inj: "inj_on Url_ToString (set (sort_key Url_ToString us))"
    using inj_on_Url_ToString[OF assms] by simp
  have "map Url_ToString (SortAndDedupeNodes us) = remdups_adj (map Url_ToString (sort_key Url_ToString us))"
    unfolding SortAndDedupeNodes_def using inj by (simp add: remdups_adj_map_inj_on)
  then show ?thesis by (simp add: distinct_remdups_adj_sorted)
qed

lemma distinct_SortAndDedupe_nodes [simp]: "Ball (set us) node_url \<Longrightarrow> distinct (SortAndDedupeNodes us)"
  using distinct_SortAndDedupe distinct_map by blast

text \<open>Two sorted duplicate-free node lists with the same elements are equal.\<close>

lemma sorted_nodes_unique:
  assumes "sorted (map Url_ToString us)" "sorted (map Url_ToString vs)"
    and "distinct us" "distinct vs" "set us = set vs" "Ball (set us) node_url"
  shows "us = vs"
proof -
  have "mset us = mset vs" using assms by (simp add: set_eq_iff_mset_eq_distinct)
  then show ?thesis
    using assms sorted_permutation_unique[of us us Url_ToString] sorted_permutation_unique[of vs us Url_ToString]
    by (simp add: inj_on_Url_ToString)
qed

lemma SortAndDedupe_cong:
  "set us = set vs \<Longrightarrow> Ball (set us) node_url \<Longrightarrow> SortAndDedupeNodes us = SortAndDedupeNodes vs"
  by (rule sorted_nodes_unique) (auto simp: sorted_SortAndDedupe)

lemma SortAndDedupe_distinct:
  "distinct us \<Longrightarrow> Ball (set us) node_url \<Longrightarrow> SortAndDedupeNodes us = sort_key Url_ToString us"
  by (rule sorted_nodes_unique) (auto simp: sorted_SortAndDedupe)

lemma SortAndDedupe_idem [simp]:
  "Ball (set us) node_url \<Longrightarrow> SortAndDedupeNodes (SortAndDedupeNodes us) = SortAndDedupeNodes us"
  by (rule SortAndDedupe_cong) auto

section \<open>The first node of a seeded plan\<close>

lemma FirstNodeWithSeed_returns:
  assumes "nodes \<noteq> []" "length nodes < 2 ^ 31"
  obtains u where "FirstNodeWithSeed nodes seed = Inr u" "u \<in> set nodes"
proof -
  let ?ns = "SortAndDedupeNodes nodes"
  have "?ns \<noteq> []" "length ?ns < 2 ^ 31"
    using assms length_SortAndDedupe[of nodes] by (simp_all add: le_less_trans)
  then obtain v g' where d: "Int31n (word_of_nat (length ?ns)) (GoRandom_new seed) = Inr (v, g')"
    "unat v < length ?ns" by (metis go_rng.draw_index rng_ok_new)
  with \<open>?ns \<noteq> []\<close> have "FirstNodeWithSeed nodes seed = Inr (?ns ! unat v)"
    by (simp add: FirstNodeWithSeed_def)
  moreover from d(2) have "?ns ! unat v \<in> set nodes" using nth_mem by fastforce
  ultimately show thesis by (rule that)
qed

lemma FirstNodeWithSeed_cong:
  "set us = set vs \<Longrightarrow> Ball (set us) node_url \<Longrightarrow> FirstNodeWithSeed us seed = FirstNodeWithSeed vs seed"
  by (simp add: FirstNodeWithSeed_def SortAndDedupe_cong[of us vs])

lemma FirstNodeWithSeed_Next:
  assumes "distinct nodes" "Ball (set nodes) node_url"
  shows "FirstNodeWithSeed nodes seed = rbind (QueryPlan_Next (QueryPlan_WithSortedSeed nodes seed)) (\<lambda>(u, p). Inr u)"
  using assms
  by (cases "Int31n (word_of_nat (length nodes)) (GoRandom_new seed)")
    (auto simp: FirstNodeWithSeed_def SortAndDedupe_distinct QueryPlan_Next_def QueryPlan_Prepare_def
      QueryPlan_WithSortedSeed_def QueryPlan_new_def QueryPlan_PickAndRemove_def Let_def)

lemma DrainPlan_sorted_seed:
  assumes "length nodes < 2 ^ 31" "\<forall>u \<in> set nodes. \<not> Url_Empty u"
  obtains us where "DrainPlan (QueryPlan_WithSortedSeed nodes seed) = Inr us" "mset us = mset nodes"
proof -
  let ?p = "QueryPlan_WithSortedSeed nodes seed"
  have "plan_ok ?p" "qp_nodes ?p = nodes"
    using plan_ok_new[OF assms(1)] by (simp_all add: QueryPlan_WithSortedSeed_def) (simp add: QueryPlan_new_def)
  with DrainPlan_permutation[of ?p] assms(2) that show thesis by auto
qed

lemma DrainPlan_ordered: "DrainPlan (QueryPlan_FromOrderedNodes nodes) = Inr (DedupePreservingOrder nodes)"
proof -
  let ?p = "QueryPlan_Prepare (QueryPlan_FromOrderedNodes nodes)"
  have "DrainPlan ?p = Inr (preferred_then_rest [] (DedupePreservingOrder nodes))"
    using DrainPlan_deterministic[of ?p]
    by (simp add: QueryPlan_Prepare_def QueryPlan_FromOrderedNodes_def QueryPlan_new_def)
  then show ?thesis by (simp add: DrainPlan_Prepare)
qed

lemma DrainPlan_new:
  assumes "length nodes < 2 ^ 31" "\<forall>u \<in> set nodes. \<not> Url_Empty u"
  shows "\<exists>us. DrainPlan (QueryPlan_new nodes seed det srt preferred) = Inr us \<and> mset us = mset nodes"
  using DrainPlan_permutation[OF plan_ok_new[OF assms(1), of seed det srt preferred]] assms(2)
  by (simp add: QueryPlan_new_def)

section \<open>Properties\<close>

text \<open>
  \<^bold>\<open>C1\<close>: every kind of query plan, run to its end, returns, and hands out each of its nodes exactly
  once, whatever the seed, the order flags and the preferred nodes are.
\<close>

theorem plan_visits_each_node_once:
  assumes "length nodes < 2 ^ 31" "\<forall>u \<in> set nodes. \<not> Url_Empty u"
  shows "\<exists>us. DrainPlan (QueryPlan_new nodes seed det srt preferred) = Inr us \<and> mset us = mset nodes"
  by (rule DrainPlan_new[OF assms])

theorem plan_visits_each_node_once_witness:
  "\<exists>us. DrainPlan (QueryPlan_new [Url_new ''http'' ''a'' 1, Url_new ''http'' ''b'' 1] 42 False False []) = Inr us \<and>
     mset us = {#Url_new ''http'' ''a'' 1, Url_new ''http'' ''b'' 1#}"
  using plan_visits_each_node_once[of "[Url_new ''http'' ''a'' 1, Url_new ''http'' ''b'' 1]" 42 False False "[]"]
  by simp

text \<open>
  a plan with preferred nodes hands out first those of them it contains, in the order they
  are given and without repetition, then the other nodes sorted by their string form.
\<close>

theorem preferred_plan_order:
  assumes "distinct nodes" "\<forall>u \<in> set nodes. \<not> Url_Empty u"
  shows "DrainPlan (QueryPlan_WithPreferredNodes nodes preferred) =
    Inr (filter (\<lambda>u. u \<in> set nodes) (DedupePreservingOrder preferred) @
         filter (\<lambda>u. u \<notin> set preferred) (sort_key Url_ToString nodes))"
proof -
  let ?p = "QueryPlan_Prepare (QueryPlan_WithPreferredNodes nodes preferred)"
  have p: "qp_deterministic_order ?p" "qp_prepared ?p" "qp_nodes ?p = sort_key Url_ToString nodes"
    "qp_preferred_nodes ?p = preferred"
    by (simp_all add: QueryPlan_Prepare_def QueryPlan_WithPreferredNodes_def QueryPlan_new_def)
  then have "DrainPlan ?p = Inr (preferred_then_rest preferred (sort_key Url_ToString nodes))"
    using DrainPlan_deterministic[of ?p] assms(2) by simp
  then show ?thesis
    using assms by (simp add: preferred_then_rest_distinct DrainPlan_Prepare)
qed

theorem preferred_plan_order_witness:
  "DrainPlan (QueryPlan_WithPreferredNode
      [Url_new ''http'' ''c'' 1, Url_new ''http'' ''b'' 1, Url_new ''http'' ''a'' 1] (Url_new ''http'' ''b'' 1)) =
   Inr [Url_new ''http'' ''b'' 1, Url_new ''http'' ''a'' 1, Url_new ''http'' ''c'' 1]"
  using preferred_plan_order[of "[Url_new ''http'' ''c'' 1, Url_new ''http'' ''b'' 1, Url_new ''http'' ''a'' 1]"
      "[Url_new ''http'' ''b'' 1]"]
  by (simp add: QueryPlan_WithPreferredNode_def Dedupe_Cons sort_key_simps Url_ToString_def
      Url_Authority_def FormatHostForAuthority_def)

text \<open>
  a plan over ordered nodes hands them out in that order, dropping empty URLs and repeated ones.
\<close>

theorem ordered_plan_order:
  "DrainPlan (QueryPlan_FromOrderedNodes nodes) = Inr (DedupePreservingOrder nodes) \<and>
   distinct (DedupePreservingOrder nodes) \<and>
   set (DedupePreservingOrder nodes) = {u \<in> set nodes. \<not> Url_Empty u}"
  by (simp add: DrainPlan_ordered)

text \<open>
  for one seed, the order of a sorted plan does not depend on the order in which discovery
  listed the nodes: any two orderings of the same nodes give the same sequence of picks.
\<close>

theorem sorted_seed_plan_order_independent:
  assumes "mset nodes = mset nodes'" "Ball (set nodes) node_url"
  shows "DrainPlan (QueryPlan_WithSortedSeed nodes seed) = DrainPlan (QueryPlan_WithSortedSeed nodes' seed)"
proof -
  have "sort_key Url_ToString nodes = sort_key Url_ToString nodes'"
    using assms by (intro sorted_permutation_unique) (auto intro: inj_on_Url_ToString dest: mset_eq_setD)
  then have "QueryPlan_Prepare (QueryPlan_WithSortedSeed nodes seed) =
      QueryPlan_Prepare (QueryPlan_WithSortedSeed nodes' seed)"
    by (simp add: QueryPlan_Prepare_def QueryPlan_WithSortedSeed_def QueryPlan_new_def)
  then show ?thesis by (metis DrainPlan_Prepare)
qed

theorem sorted_seed_plan_order_independent_witness:
  "DrainPlan (QueryPlan_WithSortedSeed [Url_new ''http'' ''a'' 1, Url_new ''http'' ''b'' 1] 7) =
   DrainPlan (QueryPlan_WithSortedSeed [Url_new ''http'' ''b'' 1, Url_new ''http'' ''a'' 1] 7)"
  by (rule sorted_seed_plan_order_independent) (auto simp: node_url_def)

text \<open>
  \<^bold>\<open>C3\<close>: \<open>FirstNodeWithSeed\<close> is the node the sorted seeded plan over the same nodes hands out first;
  it is one of the nodes and, like the plan, depends only on the set of nodes and the seed.
\<close>

theorem FirstNodeWithSeed_is_plan_head:
  assumes "nodes \<noteq> []" "length nodes < 2 ^ 31" "Ball (set nodes) node_url" "set nodes' = set nodes"
  shows "\<exists>u p. FirstNodeWithSeed nodes seed = Inr u \<and> u \<in> set nodes \<and>
    FirstNodeWithSeed nodes' seed = Inr u \<and>
    QueryPlan_Next (QueryPlan_WithSortedSeed (SortAndDedupeNodes nodes) seed) = Inr (u, p)"
proof -
  obtain u where u: "FirstNodeWithSeed nodes seed = Inr u" "u \<in> set nodes"
    using assms by (metis FirstNodeWithSeed_returns)
  have "FirstNodeWithSeed (SortAndDedupeNodes nodes) seed = Inr u"
    using u assms(3) by (metis FirstNodeWithSeed_cong set_SortAndDedupe)
  then have "\<exists>p. QueryPlan_Next (QueryPlan_WithSortedSeed (SortAndDedupeNodes nodes) seed) = Inr (u, p)"
    using assms(3) FirstNodeWithSeed_Next[of "SortAndDedupeNodes nodes" seed]
    by (auto simp: rbind_eq_Inr)
  moreover have "FirstNodeWithSeed nodes' seed = Inr u"
    using u assms(3,4) by (metis FirstNodeWithSeed_cong)
  ultimately show ?thesis using u by blast
qed

theorem FirstNodeWithSeed_is_plan_head_witness:
  "\<exists>u. FirstNodeWithSeed [Url_new ''http'' ''b'' 1, Url_new ''http'' ''a'' 1] 5 = Inr u \<and>
       FirstNodeWithSeed [Url_new ''http'' ''a'' 1, Url_new ''http'' ''b'' 1] 5 = Inr u"
proof -
  let ?a = "Url_new ''http'' ''a'' 1" and ?b = "Url_new ''http'' ''b'' 1"
  have "node_url ?a" "node_url ?b" by (simp_all add: node_url_def)
  then have "Ball (set [?b, ?a]) node_url" by simp
  moreover have "set [?a, ?b] = set [?b, ?a]" using insert_commute[of ?a ?b "{}"] by (simp only: list.set)
  moreover have "[?b, ?a] \<noteq> []" by (rule list.distinct)
  moreover have "length [?b, ?a] < 2 ^ 31" by (simp only: list.size) simp
  ultimately show ?thesis using FirstNodeWithSeed_is_plan_head[of "[?b, ?a]" "[?a, ?b]" 5] by blast
qed

text \<open>
  \<open>SortAndDedupeNodes\<close> is a canonical form of a set of nodes: sorted by string form, without
  duplicates, with exactly the given elements, and equal for any two lists of the same nodes.
\<close>

theorem SortAndDedupeNodes_canonical:
  assumes "Ball (set us) node_url"
  shows "sorted (map Url_ToString (SortAndDedupeNodes us)) \<and> distinct (SortAndDedupeNodes us) \<and>
    set (SortAndDedupeNodes us) = set us \<and>
    (set us = set vs \<longrightarrow> SortAndDedupeNodes us = SortAndDedupeNodes vs)"
  using assms SortAndDedupe_cong[of us vs] by (simp add: sorted_SortAndDedupe)

theorem SortAndDedupeNodes_canonical_witness:
  "SortAndDedupeNodes [Url_new ''http'' ''b'' 1, Url_new ''http'' ''a'' 1, Url_new ''http'' ''b'' 1] =
   SortAndDedupeNodes [Url_new ''http'' ''a'' 1, Url_new ''http'' ''b'' 1]"
proof -
  let ?a = "Url_new ''http'' ''a'' 1" and ?b = "Url_new ''http'' ''b'' 1"
  have "node_url ?a" "node_url ?b" by (simp_all add: node_url_def)
  then have "Ball (set [?b, ?a, ?b]) node_url" "set [?b, ?a, ?b] = set [?a, ?b]" by auto
  with SortAndDedupeNodes_canonical[of "[?b, ?a, ?b]" "[?a, ?b]"] show ?thesis by blast
qed

end
