(* ===== verification/Key_Route_Affinity.thy ===== *)
theory Key_Route_Affinity
  imports Attribute_Value Query_Plan Std_Map "HOL-Library.Product_Lexorder"
begin

text \<open>
  \<open>src/src/key_route_affinity.cpp\<close>: which writes are routed by their partition key, the hash of a
  key, and the query plans of a single-item write and of a batch write.

  The plans read the node lists through the class \<open>NodesSource\<close> of \<open>query_plan.h\<close>. Its virtual
  methods are the fields of the record \<open>NodesSource\<close>, over a state \<open>'s\<close> because the mutable fields
  of an implementation change in \<open>const\<close> calls; the locale \<open>nodes_source\<close> states what a plan
  relies on, and is interpreted on a static list here and on the live nodes in \<open>Live_Nodes\<close>.
\<close>

section \<open>Data\<close>

record 's NodesSource =
  ns_GetActiveNodes :: "'s \<Rightarrow> Url list"
  ns_GetQueryPlanNodes :: "'s \<Rightarrow> Url list \<times> 's"
  ns_GetQueryPlanNodesForHash :: "i64 \<Rightarrow> 's \<Rightarrow> Url list result \<times> 's"
  ns_GetDownNodes :: "'s \<Rightarrow> Url list"

text \<open>A source that overrides only the two pure virtual methods inherits these defaults.\<close>

definition NodesSource_default :: "('s \<Rightarrow> Url list) \<Rightarrow> ('s \<Rightarrow> Url list) \<Rightarrow> 's NodesSource" where
  "NodesSource_default active down =
     \<lparr>ns_GetActiveNodes = active,
      ns_GetQueryPlanNodes = (\<lambda>s. (active s, s)),
      ns_GetQueryPlanNodesForHash = (\<lambda>hash s. (Inr (active s), s)),
      ns_GetDownNodes = down\<rparr>"

datatype KeyRouteAffinityMode = Mode_None | ReadBeforeWrite | AnyWrite

record KeyRouteAffinityConfig =
  kra_mode :: KeyRouteAffinityMode
  kra_partition_key_by_table :: "(string, string) std_map"
  partition_key_discovery_attempts :: u32
  partition_key_discovery_initial_backoff :: int

record PartitionKeyMetadata =
  pkm_partition_key_by_table :: "(string, string) std_map"

record AttributeValue =
  av_type :: AttributeValueType
  av_text :: string
  av_binary :: "u8 list"

type_synonym AttributeMap = "(string, AttributeValue) std_map"

datatype WriteOperationKind = PutItem | UpdateItem | DeleteItem

datatype ReturnValues = RV_NotSet | RV_None | RV_AllOld | RV_UpdatedOld | RV_AllNew | RV_UpdatedNew

datatype AttributeAction = Action_Put | Action_Add | Action_Delete

record AttributeUpdate =
  au_action :: AttributeAction
  au_has_value :: bool

record WriteOperationOptions =
  has_update_expression :: bool
  has_condition_expression :: bool
  has_expected :: bool
  return_values :: ReturnValues
  attribute_updates :: "AttributeUpdate list"

record BatchWriteOperation =
  bw_table_name :: string
  bw_values :: AttributeMap

section \<open>Operations\<close>

definition PartitionKeyMetadata_new :: "(string, string) std_map \<Rightarrow> PartitionKeyMetadata" where
  "PartitionKeyMetadata_new partition_key_by_table = \<lparr>pkm_partition_key_by_table = partition_key_by_table\<rparr>"

definition SetPartitionKeyName :: "string \<Rightarrow> string \<Rightarrow> PartitionKeyMetadata \<Rightarrow> PartitionKeyMetadata" where
  "SetPartitionKeyName table_name partition_key_name md =
     md\<lparr>pkm_partition_key_by_table :=
          map_assign id table_name partition_key_name (pkm_partition_key_by_table md)\<rparr>"

definition GetPartitionKeyName :: "PartitionKeyMetadata \<Rightarrow> string \<Rightarrow> string" where
  "GetPartitionKeyName md table_name =
     (case map_find id table_name (pkm_partition_key_by_table md) of None \<Rightarrow> [] | Some name \<Rightarrow> name)"

definition PartitionKeyMetadata_Snapshot :: "PartitionKeyMetadata \<Rightarrow> (string, string) std_map" where
  "PartitionKeyMetadata_Snapshot md = pkm_partition_key_by_table md"

definition AttributeValue_String :: "string \<Rightarrow> AttributeValue" where
  "AttributeValue_String value = \<lparr>av_type = String_Type, av_text = value, av_binary = []\<rparr>"

definition AttributeValue_Number :: "string \<Rightarrow> AttributeValue" where
  "AttributeValue_Number value = \<lparr>av_type = Number_Type, av_text = value, av_binary = []\<rparr>"

definition AttributeValue_Binary :: "u8 list \<Rightarrow> AttributeValue" where
  "AttributeValue_Binary value = \<lparr>av_type = Binary_Type, av_text = [], av_binary = value\<rparr>"

definition AttributeValue_Hash :: "AttributeValue \<Rightarrow> i64" where
  "AttributeValue_Hash v =
     (if av_type v = Binary_Type then HashBinaryAttributeValue (av_binary v)
      else HashAttributeValue (av_type v) (av_text v))"

definition BatchWriteOperation_Put :: "string \<Rightarrow> AttributeMap \<Rightarrow> BatchWriteOperation" where
  "BatchWriteOperation_Put table_name item = \<lparr>bw_table_name = table_name, bw_values = item\<rparr>"

definition BatchWriteOperation_Delete :: "string \<Rightarrow> AttributeMap \<Rightarrow> BatchWriteOperation" where
  "BatchWriteOperation_Delete table_name key = \<lparr>bw_table_name = table_name, bw_values = key\<rparr>"

fun update_reads :: "AttributeUpdate list \<Rightarrow> bool" where
  "update_reads [] = False"
| "update_reads (update # updates) =
     (if au_action update = Action_Add then True
      else if au_action update = Action_Delete \<and> au_has_value update then True
      else update_reads updates)"

fun DoesWriteNeedReadBeforeWrite :: "WriteOperationKind \<Rightarrow> WriteOperationOptions \<Rightarrow> bool" where
  "DoesWriteNeedReadBeforeWrite PutItem options =
     (has_expected options \<or> has_condition_expression options \<or> return_values options = RV_AllOld)"
| "DoesWriteNeedReadBeforeWrite DeleteItem options =
     (has_expected options \<or> has_condition_expression options \<or> return_values options = RV_AllOld)"
| "DoesWriteNeedReadBeforeWrite UpdateItem options =
     (if has_update_expression options \<or> has_condition_expression options \<or> has_expected options then True
      else if return_values options \<in> {RV_AllOld, RV_UpdatedOld, RV_AllNew} then True
      else update_reads (attribute_updates options))"

fun ShouldUseKeyRouteAffinity :: "KeyRouteAffinityMode \<Rightarrow> WriteOperationKind \<Rightarrow> WriteOperationOptions \<Rightarrow> bool" where
  "ShouldUseKeyRouteAffinity Mode_None kind options = False"
| "ShouldUseKeyRouteAffinity ReadBeforeWrite kind options = DoesWriteNeedReadBeforeWrite kind options"
| "ShouldUseKeyRouteAffinity AnyWrite kind options = True"

definition HashPartitionKey :: "AttributeMap \<Rightarrow> string \<Rightarrow> PartitionKeyMetadata \<Rightarrow> i64 result" where
  "HashPartitionKey values table_name md =
     (let key_name = GetPartitionKeyName md table_name in
      if key_name = [] then
        Inl (Invalid_Argument (''partition key information not found for table '' @ table_name))
      else case map_find id key_name values of
             None \<Rightarrow> Inl (Invalid_Argument (''value for partition key '' @ key_name @ '' not found''))
           | Some v \<Rightarrow> Inr (AttributeValue_Hash v))"

fun AppendMissingNodes :: "Url list \<Rightarrow> Url list \<Rightarrow> Url list" where
  "AppendMissingNodes out [] = out"
| "AppendMissingNodes out (node # nodes) =
     AppendMissingNodes (if \<not> Url_Empty node \<and> node \<notin> set out then out @ [node] else out) nodes"

fun NodesMissingFrom_loop :: "Url list \<Rightarrow> Url list \<Rightarrow> Url list \<Rightarrow> Url list" where
  "NodesMissingFrom_loop out [] present = out"
| "NodesMissingFrom_loop out (node # nodes) present =
     NodesMissingFrom_loop
       (if \<not> Url_Empty node \<and> node \<notin> set present \<and> node \<notin> set out then out @ [node] else out)
       nodes present"

definition NodesMissingFrom :: "Url list \<Rightarrow> Url list \<Rightarrow> Url list" where
  "NodesMissingFrom nodes present = NodesMissingFrom_loop [] nodes present"

fun BatchWriteHashes :: "BatchWriteOperation list \<Rightarrow> PartitionKeyMetadata \<Rightarrow> i64 list" where
  "BatchWriteHashes [] md = []"
| "BatchWriteHashes (operation # operations) md =
     (let key_name = GetPartitionKeyName md (bw_table_name operation) in
      if key_name = [] then BatchWriteHashes operations md
      else case map_find id key_name (bw_values operation) of
             None \<Rightarrow> BatchWriteHashes operations md
           | Some v \<Rightarrow> AttributeValue_Hash v # BatchWriteHashes operations md)"

fun QueryPlanNodesForHashes_loop ::
  "'s NodesSource \<Rightarrow> i64 list \<Rightarrow> Url list \<Rightarrow> 's \<Rightarrow> Url list result \<times> 's" where
  "QueryPlanNodesForHashes_loop nodes [] out s = (Inr out, s)"
| "QueryPlanNodesForHashes_loop nodes (hash # hashes) out s =
     (case ns_GetQueryPlanNodesForHash nodes hash s of
        (Inl e, s') \<Rightarrow> (Inl e, s')
      | (Inr us, s') \<Rightarrow> QueryPlanNodesForHashes_loop nodes hashes (AppendMissingNodes out us) s')"

definition QueryPlanNodesForHashes :: "'s NodesSource \<Rightarrow> i64 list \<Rightarrow> 's \<Rightarrow> Url list result \<times> 's" where
  "QueryPlanNodesForHashes nodes hashes s =
     (case QueryPlanNodesForHashes_loop nodes hashes [] s of
        (Inl e, s') \<Rightarrow> (Inl e, s')
      | (Inr out, s') \<Rightarrow>
          if out = [] then (let (us, s'') = ns_GetQueryPlanNodes nodes s' in (Inr us, s''))
          else (Inr out, s'))"

definition AffinityNodes :: "'s NodesSource \<Rightarrow> 's \<Rightarrow> Url list \<times> 's" where
  "AffinityNodes nodes s =
     (let active_nodes = ns_GetActiveNodes nodes s in
      if active_nodes \<noteq> [] then (SortAndDedupeNodes active_nodes, s)
      else ns_GetQueryPlanNodes nodes s)"

text \<open>The votes are a \<open>std::map<Url, int>\<close>; \<open>++votes[node]\<close> starts an absent entry at zero.\<close>

definition add_vote :: "Url \<Rightarrow> (Url, int) std_map \<Rightarrow> (Url, int) std_map" where
  "add_vote node votes =
     map_assign Url_ToString node
       ((case map_find Url_ToString node votes of None \<Rightarrow> 0 | Some n \<Rightarrow> n) + 1) votes"

fun count_votes ::
  "Url list \<Rightarrow> BatchWriteOperation list \<Rightarrow> PartitionKeyMetadata \<Rightarrow> (Url, int) std_map \<Rightarrow>
   (Url, int) std_map result" where
  "count_votes candidate_nodes [] md votes = Inr votes"
| "count_votes candidate_nodes (operation # operations) md votes =
     (let key_name = GetPartitionKeyName md (bw_table_name operation) in
      if key_name = [] then count_votes candidate_nodes operations md votes
      else case map_find id key_name (bw_values operation) of
             None \<Rightarrow> count_votes candidate_nodes operations md votes
           | Some v \<Rightarrow>
               rbind (FirstNodeWithSeed candidate_nodes (AttributeValue_Hash v)) (\<lambda>node.
                 count_votes candidate_nodes operations md
                   (if \<not> Url_Empty node then add_vote node votes else votes)))"

text \<open>
  The comparator of the final sort puts more votes first and orders equal ones by string form,
  which is the lexicographic order of the pairs below.
\<close>

definition votes_at :: "(Url, int) std_map \<Rightarrow> Url \<Rightarrow> int" where
  "votes_at votes node = (case map_find Url_ToString node votes of None \<Rightarrow> 0 | Some n \<Rightarrow> n)"

definition SelectBatchWritePreferredNodesForCandidates ::
  "Url list \<Rightarrow> BatchWriteOperation list \<Rightarrow> PartitionKeyMetadata \<Rightarrow> Url list result" where
  "SelectBatchWritePreferredNodesForCandidates candidate_nodes operations md =
     (if candidate_nodes = [] then
        Inl (Invalid_Argument ''batch write request does not have candidate nodes'')
      else rbind (count_votes candidate_nodes operations md []) (\<lambda>votes.
        if votes = [] then
          Inl (Invalid_Argument ''batch write request does not have usable preferred nodes'')
        else Inr (sort_key (\<lambda>node. (- votes_at votes node, Url_ToString node))
               (map fst (filter (\<lambda>(node, count). 0 < count) votes)))))"

definition QueryPlanForPartitionKey ::
  "'s NodesSource \<Rightarrow> AttributeMap \<Rightarrow> string \<Rightarrow> PartitionKeyMetadata \<Rightarrow> 's \<Rightarrow> QueryPlan result \<times> 's" where
  "QueryPlanForPartitionKey nodes values table_name md s =
     (case HashPartitionKey values table_name md of
        Inl e \<Rightarrow> (Inl e, s)
      | Inr seed \<Rightarrow>
          (let active_nodes = ns_GetActiveNodes nodes s in
           case ns_GetQueryPlanNodesForHash nodes seed s of
             (Inl e, s') \<Rightarrow> (Inl e, s')
           | (Inr query_plan_nodes, s') \<Rightarrow>
               if active_nodes = [] then (Inr (QueryPlan_WithSortedSeed query_plan_nodes seed), s')
               else
                 (let active_nodes = SortAndDedupeNodes active_nodes;
                      ordered_nodes = NodesMissingFrom query_plan_nodes active_nodes
                  in (rbind (DrainPlan (QueryPlan_WithSortedSeed active_nodes seed)) (\<lambda>drained.
                        Inr (QueryPlan_FromOrderedNodes (AppendMissingNodes ordered_nodes drained))), s'))))"

definition SelectBatchWritePreferredNodes ::
  "'s NodesSource \<Rightarrow> BatchWriteOperation list \<Rightarrow> PartitionKeyMetadata \<Rightarrow> 's \<Rightarrow> Url list result \<times> 's" where
  "SelectBatchWritePreferredNodes nodes operations md s =
     (let (candidates, s') = AffinityNodes nodes s
      in (SelectBatchWritePreferredNodesForCandidates candidates operations md, s'))"

definition QueryPlanForBatchWrite ::
  "'s NodesSource \<Rightarrow> BatchWriteOperation list \<Rightarrow> PartitionKeyMetadata \<Rightarrow> 's \<Rightarrow> QueryPlan result \<times> 's" where
  "QueryPlanForBatchWrite nodes operations md s =
     (let active_nodes = ns_GetActiveNodes nodes s in
      case QueryPlanNodesForHashes nodes (BatchWriteHashes operations md) s of
        (Inl e, s') \<Rightarrow> (Inl e, s')
      | (Inr query_plan_nodes, s') \<Rightarrow>
          if active_nodes = [] then
            (rbind (SelectBatchWritePreferredNodesForCandidates query_plan_nodes operations md) (\<lambda>preferred.
               Inr (QueryPlan_WithPreferredNodes query_plan_nodes preferred)), s')
          else
            (let active_nodes = SortAndDedupeNodes active_nodes;
                 ordered_nodes = NodesMissingFrom query_plan_nodes active_nodes
             in (rbind (SelectBatchWritePreferredNodesForCandidates active_nodes operations md) (\<lambda>preferred.
                   Inr (QueryPlan_FromOrderedNodes
                     (AppendMissingNodes (AppendMissingNodes ordered_nodes preferred) active_nodes))), s')))"

section \<open>Appending and subtracting node lists\<close>

lemma AppendMissing_loop: "AppendMissingNodes out nodes = DedupePreservingOrder_loop out nodes"
  by (induction nodes arbitrary: out) auto

lemma AppendMissing: "AppendMissingNodes out nodes = out @ filter (\<lambda>u. u \<notin> set out) (DedupePreservingOrder nodes)"
  by (simp add: AppendMissing_loop Dedupe_loop_append)

lemma NodesMissing_loop:
  "NodesMissingFrom_loop out nodes present =
     out @ filter (\<lambda>u. u \<notin> set out \<union> set present) (DedupePreservingOrder nodes)"
proof (induction nodes arbitrary: out)
  case (Cons node nodes)
  show ?case
    using Cons[of "out @ [node]"] Cons[of out]
    by (auto simp: Dedupe_Cons filter_filter intro!: filter_cong)
qed simp

lemma NodesMissing: "NodesMissingFrom nodes present = filter (\<lambda>u. u \<notin> set present) (DedupePreservingOrder nodes)"
  by (simp add: NodesMissingFrom_def NodesMissing_loop)

section \<open>Votes\<close>

definition nodes_ok :: "Url list \<Rightarrow> bool" where
  "nodes_ok us \<longleftrightarrow> Ball (set us) node_url \<and> length us < 2 ^ 31"

definition votes_for :: "Url list \<Rightarrow> i64 list \<Rightarrow> Url \<Rightarrow> int" where
  "votes_for candidates hashes u = int (length (filter (\<lambda>h. FirstNodeWithSeed candidates h = Inr u) hashes))"

fun vote_hashes :: "Url list \<Rightarrow> i64 list \<Rightarrow> (Url, int) std_map \<Rightarrow> (Url, int) std_map result" where
  "vote_hashes cs [] votes = Inr votes"
| "vote_hashes cs (h # hs) votes =
     rbind (FirstNodeWithSeed cs h) (\<lambda>node. vote_hashes cs hs (if \<not> Url_Empty node then add_vote node votes else votes))"

lemma count_votes_hashes: "count_votes cs ops md votes = vote_hashes cs (BatchWriteHashes ops md) votes"
  by (induction ops arbitrary: votes) (auto simp: Let_def split: option.splits)

definition votes_ok :: "Url list \<Rightarrow> (Url, int) std_map \<Rightarrow> bool" where
  "votes_ok cs votes \<longleftrightarrow> map_invar Url_ToString votes \<and> (\<forall>(u, n) \<in> set votes. u \<in> set cs \<and> 0 < n)"

lemma set_map_assign_cases:
  "(k', v') \<in> set (map_assign key k v m) \<Longrightarrow> (\<exists>k1. k' = k1 \<and> v' = v \<and> (k1 = k \<or> k1 \<in> fst ` set m)) \<or> (k', v') \<in> set m"
  by (induction m) (force split: if_splits)+

lemma map_assign_not_Nil [simp]: "map_assign key k v m \<noteq> []"
  by (cases m) (auto split: if_splits)

lemma votes_at_pos:
  assumes "votes_ok cs votes"
  shows "0 \<le> votes_at votes u"
proof (cases "map_find Url_ToString u votes")
  case (Some n)
  then obtain k where "(k, n) \<in> set votes" using assms by (auto simp: votes_ok_def map_find_eq_Some)
  with assms Some show ?thesis by (force simp: votes_ok_def votes_at_def)
qed (simp add: votes_at_def)

lemma add_vote_eq: "add_vote u votes = map_assign Url_ToString u (votes_at votes u + 1) votes"
  by (simp add: add_vote_def votes_at_def)

lemma add_vote_ok: "votes_ok cs votes \<Longrightarrow> u \<in> set cs \<Longrightarrow> votes_ok cs (add_vote u votes)"
  using votes_at_pos[of cs votes u]
  by (force simp: votes_ok_def add_vote_eq map_invar_assign dest: set_map_assign_cases)

lemma votes_at_add_vote:
  "votes_ok cs votes \<Longrightarrow> votes_at (add_vote u votes) v = votes_at votes v + (if Url_ToString v = Url_ToString u then 1 else 0)"
  using map_find_cong[of Url_ToString v u votes]
  by (auto simp: votes_ok_def add_vote_eq votes_at_def alist_map.find_assign)

lemma vote_hashes_spec:
  assumes "nodes_ok cs" "cs \<noteq> []" "votes_ok cs votes"
  shows "\<exists>votes'. vote_hashes cs hs votes = Inr votes' \<and> votes_ok cs votes' \<and>
    (\<forall>u \<in> set cs. votes_at votes' u = votes_at votes u + votes_for cs hs u) \<and>
    (votes' = [] \<longleftrightarrow> votes = [] \<and> hs = [])"
  using assms(3)
proof (induction hs arbitrary: votes)
  case (Cons h hs)
  obtain u where u: "FirstNodeWithSeed cs h = Inr u" "u \<in> set cs"
    using assms by (metis FirstNodeWithSeed_returns nodes_ok_def)
  then have ne: "\<not> Url_Empty u" using assms(1) by (auto simp: nodes_ok_def)
  have ok: "votes_ok cs (add_vote u votes)" using Cons.prems u(2) by (rule add_vote_ok)
  from Cons.IH[OF ok] obtain votes' where v:
    "vote_hashes cs hs (add_vote u votes) = Inr votes'" "votes_ok cs votes'"
    "\<forall>v \<in> set cs. votes_at votes' v = votes_at (add_vote u votes) v + votes_for cs hs v"
    "votes' \<noteq> []"
    by (auto simp: add_vote_eq)
  have "Url_ToString v = Url_ToString u \<longleftrightarrow> v = u" if "v \<in> set cs" for v
    using that u(2) assms(1) Url_ToString_inject by (auto simp: nodes_ok_def)
  with v u ne Cons.prems show ?case
    by (auto simp: votes_at_add_vote votes_for_def)
qed (simp add: votes_for_def)

lemma votes_ok_Nil [simp]: "votes_ok cs []"
  by (simp add: votes_ok_def)

lemma votes_ok_node:
  assumes "votes_ok cs votes" "nodes_ok cs" "u \<in> set cs"
  shows "(u, n) \<in> set votes \<longleftrightarrow> 0 < n \<and> votes_at votes u = n"
proof -
  have find: "map_find Url_ToString u votes = Some n \<longleftrightarrow> (\<exists>k. (k, n) \<in> set votes \<and> Url_ToString k = Url_ToString u)"
    using assms(1) by (auto simp: votes_ok_def map_find_eq_Some)
  also have "\<dots> \<longleftrightarrow> (u, n) \<in> set votes"
  proof
    assume "\<exists>k. (k, n) \<in> set votes \<and> Url_ToString k = Url_ToString u"
    then obtain k where k: "(k, n) \<in> set votes" "Url_ToString k = Url_ToString u" by blast
    with assms(1) have "k \<in> set cs" by (auto simp: votes_ok_def)
    with k(2) assms(2,3) have "k = u" by (intro Url_ToString_inject) (auto simp: nodes_ok_def)
    with k show "(u, n) \<in> set votes" by simp
  qed blast
  finally show ?thesis
    using assms(1) by (auto simp: votes_at_def votes_ok_def split: option.splits)
qed

lemma votes_ok_filter:
  assumes "votes_ok cs votes" "nodes_ok cs"
  shows "distinct (map fst (filter (\<lambda>(node, count). 0 < count) votes))"
    "set (map fst (filter (\<lambda>(node, count). 0 < count) votes)) = {u \<in> set cs. 0 < votes_at votes u}"
proof -
  have "distinct (map fst votes)"
    using assms(1) map_invar_keys_distinct distinct_map by (metis votes_ok_def)
  then show "distinct (map fst (filter (\<lambda>(node, count). 0 < count) votes))" by (rule distinct_map_filter)
  show "set (map fst (filter (\<lambda>(node, count). 0 < count) votes)) = {u \<in> set cs. 0 < votes_at votes u}"
  proof (intro set_eqI iffI)
    fix u assume "u \<in> set (map fst (filter (\<lambda>(node, count). 0 < count) votes))"
    then obtain n where n: "(u, n) \<in> set votes" by auto
    with assms(1) have "u \<in> set cs" by (auto simp: votes_ok_def)
    with n votes_ok_node[OF assms this] show "u \<in> {u \<in> set cs. 0 < votes_at votes u}" by auto
  next
    fix u assume "u \<in> {u \<in> set cs. 0 < votes_at votes u}"
    then have "(u, votes_at votes u) \<in> set votes" "0 < votes_at votes u"
      using votes_ok_node[OF assms, of u "votes_at votes u"] by auto
    then show "u \<in> set (map fst (filter (\<lambda>(node, count). 0 < count) votes))" by force
  qed
qed

text \<open>The voted nodes, most votes first.\<close>

definition by_votes :: "Url list \<Rightarrow> i64 list \<Rightarrow> Url list" where
  "by_votes cs hs =
     sort_key (\<lambda>u. (- votes_for cs hs u, Url_ToString u))
       (filter (\<lambda>u. 0 < votes_for cs hs u) (SortAndDedupeNodes cs))"

lemma set_by_votes: "set (by_votes cs hs) = {u \<in> set cs. 0 < votes_for cs hs u}"
  by (auto simp: by_votes_def)

lemma distinct_by_votes: "Ball (set cs) node_url \<Longrightarrow> distinct (by_votes cs hs)"
  by (simp add: by_votes_def)

lemma SelectBatchWrite_eq:
  assumes "nodes_ok cs" "cs \<noteq> []"
  shows "SelectBatchWritePreferredNodesForCandidates cs ops md =
    (if BatchWriteHashes ops md = []
     then Inl (Invalid_Argument ''batch write request does not have usable preferred nodes'')
     else Inr (by_votes cs (BatchWriteHashes ops md)))"
proof -
  let ?hs = "BatchWriteHashes ops md"
  from vote_hashes_spec[OF assms votes_ok_Nil, of ?hs] obtain votes where v:
    "vote_hashes cs ?hs [] = Inr votes" "votes_ok cs votes"
    "\<And>u. u \<in> set cs \<Longrightarrow> votes_at votes u = votes_for cs ?hs u" "votes = [] \<longleftrightarrow> ?hs = []"
    by (auto simp: votes_at_def)
  let ?us = "map fst (filter (\<lambda>(node, count). 0 < count) votes)"
  let ?key = "\<lambda>u. (- votes_for cs ?hs u, Url_ToString u)"
  let ?sorted = "sort_key (\<lambda>u. (- votes_at votes u, Url_ToString u)) ?us"
  note us = votes_ok_filter[OF v(2) assms(1)]
  have "?sorted = by_votes cs ?hs"
    unfolding by_votes_def
  proof (rule sorted_permutation_unique)
    have "set ?us = set (filter (\<lambda>u. 0 < votes_for cs ?hs u) (SortAndDedupeNodes cs))"
      using us(2) v(3) by auto
    moreover have "distinct (filter (\<lambda>u. 0 < votes_for cs ?hs u) (SortAndDedupeNodes cs))"
      using assms(1) by (simp add: nodes_ok_def)
    ultimately have "mset ?us = mset (filter (\<lambda>u. 0 < votes_for cs ?hs u) (SortAndDedupeNodes cs))"
      using us(1) set_eq_iff_mset_eq_distinct by blast
    then show "mset ?sorted = mset (filter (\<lambda>u. 0 < votes_for cs ?hs u) (SortAndDedupeNodes cs))"
      by (simp only: mset_sort)
    have "map ?key ?sorted = map (\<lambda>u. (- votes_at votes u, Url_ToString u)) ?sorted"
      using us(2) v(3) by (intro map_cong) (auto simp del: set_map)
    then show "sorted (map ?key ?sorted)" by (simp only: sorted_sort_key)
    show "inj_on ?key (set (filter (\<lambda>u. 0 < votes_for cs ?hs u) (SortAndDedupeNodes cs)))"
      using assms(1) Url_ToString_inject by (auto simp: inj_on_def nodes_ok_def)
  qed
  with assms(2) v show ?thesis
    by (simp add: SelectBatchWritePreferredNodesForCandidates_def count_votes_hashes)
qed

section \<open>The contract of a source of nodes\<close>

text \<open>
  \<open>inv\<close> is an invariant of the source's state and \<open>extra\<close> the nodes beside the active ones that a
  routing call may add (the quarantined ones). A routing call keeps the invariant and both sets,
  returns every active node and, for a hash, at most one extra node.
\<close>

locale nodes_source =
  fixes nodes :: "'s NodesSource"
    and inv :: "'s \<Rightarrow> bool"
    and extra :: "'s \<Rightarrow> Url set"
  assumes active_ok: "inv s \<Longrightarrow> nodes_ok (ns_GetActiveNodes nodes s)"
    and plan_nodes: "inv s \<Longrightarrow> ns_GetQueryPlanNodes nodes s = (us, s') \<Longrightarrow>
      inv s' \<and> ns_GetActiveNodes nodes s' = ns_GetActiveNodes nodes s \<and> extra s' = extra s \<and>
      nodes_ok us \<and> set (ns_GetActiveNodes nodes s) \<subseteq> set us \<and>
      set us \<subseteq> set (ns_GetActiveNodes nodes s) \<union> extra s"
    and hash_nodes: "inv s \<Longrightarrow> \<exists>us s'. ns_GetQueryPlanNodesForHash nodes h s = (Inr us, s') \<and>
      inv s' \<and> ns_GetActiveNodes nodes s' = ns_GetActiveNodes nodes s \<and> extra s' = extra s \<and>
      nodes_ok us \<and> set (ns_GetActiveNodes nodes s) \<subseteq> set us \<and>
      set us \<subseteq> set (ns_GetActiveNodes nodes s) \<union> extra s \<and>
      card (set us - set (ns_GetActiveNodes nodes s)) \<le> 1"
begin

abbreviation active :: "'s \<Rightarrow> Url list" where
  "active s \<equiv> SortAndDedupeNodes (ns_GetActiveNodes nodes s)"

lemma active_nodes:
  assumes "inv s"
  shows "Ball (set (active s)) node_url" "distinct (active s)" "length (active s) < 2 ^ 31"
    "nodes_ok (active s)"
  using active_ok[OF assms] length_SortAndDedupe[of "ns_GetActiveNodes nodes s"] by (auto simp: nodes_ok_def)

lemma drain_active:
  assumes "inv s"
  obtains us where "DrainPlan (QueryPlan_WithSortedSeed (active s) seed) = Inr us" "distinct us"
    "set us = set (active s)" "\<forall>u \<in> set us. \<not> Url_Empty u"
proof -
  note a = active_nodes[OF assms]
  then have ne: "\<forall>u \<in> set (active s). \<not> Url_Empty u" by auto
  obtain us where us: "DrainPlan (QueryPlan_WithSortedSeed (active s) seed) = Inr us" "mset us = mset (active s)"
    using DrainPlan_sorted_seed[OF a(3) ne] .
  show thesis
    by (rule that[OF us(1)])
      (use mset_eq_setD[OF us(2)] mset_eq_imp_distinct_iff[OF us(2)] a(2) ne in simp_all)
qed

text \<open>The plan of a single key: at most one extra node, then the active nodes in the seeded order.\<close>

lemma partition_key_plan:
  assumes "inv s" "HashPartitionKey values table md = Inr seed" "ns_GetActiveNodes nodes s \<noteq> []"
  shows "\<exists>p s' xs us. QueryPlanForPartitionKey nodes values table md s = (Inr p, s') \<and> inv s' \<and>
    DrainPlan (QueryPlan_WithSortedSeed (active s) seed) = Inr us \<and> DrainPlan p = Inr (xs @ us) \<and>
    distinct (xs @ us) \<and> set us = set (active s) \<and> set xs \<subseteq> extra s - set (active s) \<and> length xs \<le> 1"
proof -
  obtain us where us: "DrainPlan (QueryPlan_WithSortedSeed (active s) seed) = Inr us" "distinct us"
    "set us = set (active s)" "\<forall>u \<in> set us. \<not> Url_Empty u" using drain_active[OF assms(1)] .
  obtain qs s' where q: "ns_GetQueryPlanNodesForHash nodes seed s = (Inr qs, s')" "inv s'"
    "set qs \<subseteq> set (ns_GetActiveNodes nodes s) \<union> extra s" "card (set qs - set (ns_GetActiveNodes nodes s)) \<le> 1"
    using hash_nodes[OF assms(1)] by blast
  let ?xs = "NodesMissingFrom qs (active s)"
  have xs: "distinct ?xs" "set ?xs \<subseteq> set qs - set (active s)" "\<forall>u \<in> set ?xs. \<not> Url_Empty u"
    by (auto simp: NodesMissing)
  have "length ?xs = card (set ?xs)" using xs(1) by (simp add: distinct_card)
  also have "\<dots> \<le> card (set qs - set (active s))" using xs(2) by (intro card_mono) auto
  finally have len: "length ?xs \<le> 1" using q(4) by simp
  have ord: "AppendMissingNodes ?xs us = ?xs @ us"
    using us xs by (auto simp: AppendMissing Dedupe_id filter_id_conv)
  have "distinct (?xs @ us)" "\<forall>u \<in> set (?xs @ us). \<not> Url_Empty u" using us xs by auto
  then have "DrainPlan (QueryPlan_FromOrderedNodes (?xs @ us)) = Inr (?xs @ us)"
    by (simp add: DrainPlan_ordered Dedupe_id)
  moreover have "QueryPlanForPartitionKey nodes values table md s = (Inr (QueryPlan_FromOrderedNodes (?xs @ us)), s')"
    using assms(2,3) q(1) us(1) ord by (simp add: QueryPlanForPartitionKey_def Let_def)
  moreover have "set ?xs \<subseteq> extra s - set (active s)" using xs(2) q(3) by auto
  ultimately show ?thesis using q(2) us len \<open>distinct (?xs @ us)\<close> by blast
qed

lemma hashes_loop:
  assumes "inv s" "set out \<subseteq> set (ns_GetActiveNodes nodes s) \<union> extra s" "Ball (set out) node_url"
  shows "\<exists>us s'. QueryPlanNodesForHashes_loop nodes hs out s = (Inr us, s') \<and> inv s' \<and>
    ns_GetActiveNodes nodes s' = ns_GetActiveNodes nodes s \<and> extra s' = extra s \<and>
    Ball (set us) node_url \<and> set us \<subseteq> set (ns_GetActiveNodes nodes s) \<union> extra s"
  using assms
proof (induction hs arbitrary: out s)
  case (Cons h hs)
  obtain qs s1 where q: "ns_GetQueryPlanNodesForHash nodes h s = (Inr qs, s1)" "inv s1"
    "ns_GetActiveNodes nodes s1 = ns_GetActiveNodes nodes s" "extra s1 = extra s" "nodes_ok qs"
    "set qs \<subseteq> set (ns_GetActiveNodes nodes s) \<union> extra s"
    using hash_nodes[OF Cons.prems(1)] by blast
  have "set (AppendMissingNodes out qs) \<subseteq> set out \<union> set qs" by (auto simp: AppendMissing)
  then have "set (AppendMissingNodes out qs) \<subseteq> set (ns_GetActiveNodes nodes s1) \<union> extra s1"
    "Ball (set (AppendMissingNodes out qs)) node_url"
    using Cons.prems(2,3) q(3-6) by (auto simp: nodes_ok_def)
  from Cons.IH[OF q(2) this] q(1,3,4) show ?case by auto
qed auto

lemma hashes_nodes:
  assumes "inv s"
  obtains us s' where "QueryPlanNodesForHashes nodes hs s = (Inr us, s')" "inv s'" "Ball (set us) node_url"
    "set us \<subseteq> set (ns_GetActiveNodes nodes s) \<union> extra s"
proof -
  obtain us s1 where l: "QueryPlanNodesForHashes_loop nodes hs [] s = (Inr us, s1)" "inv s1"
    "ns_GetActiveNodes nodes s1 = ns_GetActiveNodes nodes s" "extra s1 = extra s" "Ball (set us) node_url"
    "set us \<subseteq> set (ns_GetActiveNodes nodes s) \<union> extra s"
    using hashes_loop[OF assms, of "[]" hs] by auto
  obtain vs s2 where v: "ns_GetQueryPlanNodes nodes s1 = (vs, s2)" by (cases "ns_GetQueryPlanNodes nodes s1")
  show thesis
  proof (cases "us = []")
    case True
    with l v plan_nodes[OF l(2) v] show thesis
      by (intro that[of vs s2]) (auto simp: QueryPlanNodesForHashes_def nodes_ok_def)
  next
    case False
    with l show thesis by (intro that[of us s1]) (auto simp: QueryPlanNodesForHashes_def)
  qed
qed

text \<open>The plan of a batch: extra nodes, then the voted nodes by votes, then the other active nodes.\<close>

lemma batch_write_plan:
  assumes "inv s" "BatchWriteHashes ops md \<noteq> []" "ns_GetActiveNodes nodes s \<noteq> []"
  shows "\<exists>p s' xs. QueryPlanForBatchWrite nodes ops md s = (Inr p, s') \<and> inv s' \<and>
    set xs \<subseteq> extra s - set (active s) \<and> distinct xs \<and>
    DrainPlan p = Inr (xs @ by_votes (active s) (BatchWriteHashes ops md) @
      filter (\<lambda>u. votes_for (active s) (BatchWriteHashes ops md) u = 0) (active s))"
proof -
  let ?hs = "BatchWriteHashes ops md"
  let ?v = "by_votes (active s) ?hs"
  note a = active_nodes[OF assms(1)]
  obtain qs s' where q: "QueryPlanNodesForHashes nodes ?hs s = (Inr qs, s')" "inv s'" "Ball (set qs) node_url"
    "set qs \<subseteq> set (ns_GetActiveNodes nodes s) \<union> extra s" using hashes_nodes[OF assms(1)] .
  let ?xs = "NodesMissingFrom qs (active s)"
  let ?rest = "filter (\<lambda>u. votes_for (active s) ?hs u = 0) (active s)"
  have sel: "SelectBatchWritePreferredNodesForCandidates (active s) ops md = Inr ?v"
    using SelectBatchWrite_eq[OF a(4)] assms(2,3) by simp
  have v: "distinct ?v" "set ?v = {u \<in> set (active s). 0 < votes_for (active s) ?hs u}"
    using a(1) by (simp_all only: distinct_by_votes set_by_votes)
  have xs: "distinct ?xs" "set ?xs \<inter> set (active s) = {}" "\<forall>u \<in> set ?xs. \<not> Url_Empty u"
    "set ?xs \<subseteq> extra s - set (active s)"
    using q(4) by (auto simp: NodesMissing)
  have ne: "\<forall>u \<in> set (active s). \<not> Url_Empty u" using a(1) by auto
  have "filter (\<lambda>u. u \<notin> set (?xs @ ?v)) (active s) = ?rest"
    using v(2) xs(2) by (intro filter_cong) (auto simp: votes_for_def)
  then have ord: "AppendMissingNodes (AppendMissingNodes ?xs ?v) (active s) = ?xs @ ?v @ ?rest"
  proof -
    have "AppendMissingNodes ?xs ?v = ?xs @ ?v"
      using v xs(2) ne by (subst AppendMissing) (auto simp: Dedupe_id filter_id_conv simp del: set_SortAndDedupe)
    then show ?thesis
      using \<open>filter (\<lambda>u. u \<notin> set (?xs @ ?v)) (active s) = ?rest\<close> a(2) ne
      by (simp add: AppendMissing[of "?xs @ ?v"] Dedupe_id)
  qed
  have "distinct (?xs @ ?v @ ?rest)" "\<forall>u \<in> set (?xs @ ?v @ ?rest). \<not> Url_Empty u"
    using v xs a(2) ne by auto
  then have "DrainPlan (QueryPlan_FromOrderedNodes (?xs @ ?v @ ?rest)) = Inr (?xs @ ?v @ ?rest)"
    by (simp add: DrainPlan_ordered Dedupe_id)
  moreover have "QueryPlanForBatchWrite nodes ops md s = (Inr (QueryPlan_FromOrderedNodes (?xs @ ?v @ ?rest)), s')"
    using assms(3) q(1) sel ord by (simp add: QueryPlanForBatchWrite_def Let_def)
  ultimately show ?thesis using q(2) xs(1,4) by blast
qed

end

text \<open>A source that keeps the default methods of the class, over a fixed list of nodes.\<close>

interpretation static_nodes: nodes_source "NodesSource_default (\<lambda>s. s) (\<lambda>s. [])" nodes_ok "\<lambda>s. {}"
  by unfold_locales (auto simp: NodesSource_default_def)

section \<open>Properties\<close>

text \<open>
  \<^bold>\<open>C9\<close>: the preferred nodes of a batch write are the candidates that are first choice of at least
  one usable key, most keys first and equal counts in string order; a batch with no usable key
  and an empty candidate list are rejected with \<open>std::invalid_argument\<close>.
\<close>

theorem SelectBatchWritePreferredNodes_by_votes:
  assumes "nodes_ok cs"
  shows "SelectBatchWritePreferredNodesForCandidates cs ops md =
    (if cs = [] then Inl (Invalid_Argument ''batch write request does not have candidate nodes'')
     else if BatchWriteHashes ops md = []
     then Inl (Invalid_Argument ''batch write request does not have usable preferred nodes'')
     else Inr (sort_key (\<lambda>u. (- votes_for cs (BatchWriteHashes ops md) u, Url_ToString u))
       (filter (\<lambda>u. 0 < votes_for cs (BatchWriteHashes ops md) u) (SortAndDedupeNodes cs))))"
  using SelectBatchWrite_eq[OF assms, of ops md]
  by (simp add: by_votes_def SelectBatchWritePreferredNodesForCandidates_def)

theorem SelectBatchWritePreferredNodes_by_votes_witness:
  "SelectBatchWritePreferredNodesForCandidates [Url_new ''http'' ''a'' 1]
     [BatchWriteOperation_Put ''t'' [(''k'', AttributeValue_String ''x'')]]
     \<lparr>pkm_partition_key_by_table = [(''t'', ''k'')]\<rparr> = Inr [Url_new ''http'' ''a'' 1]"
proof -
  let ?a = "Url_new ''http'' ''a'' 1" and ?h = "AttributeValue_Hash (AttributeValue_String ''x'')"
  let ?ops = "[BatchWriteOperation_Put ''t'' [(''k'', AttributeValue_String ''x'')]]"
    and ?md = "\<lparr>pkm_partition_key_by_table = [(''t'', ''k'')]\<rparr>"
  have ok: "nodes_ok [?a]" by (simp add: nodes_ok_def node_url_def)
  have h: "BatchWriteHashes ?ops ?md = [?h]" by (simp add: GetPartitionKeyName_def BatchWriteOperation_Put_def)
  obtain u where "FirstNodeWithSeed [?a] ?h = Inr u" "u \<in> set [?a]"
    using FirstNodeWithSeed_returns[of "[?a]" ?h] by (metis list.distinct(1) ok nodes_ok_def)
  then have "votes_for [?a] [?h] ?a = 1" by (simp add: votes_for_def)
  moreover have "SortAndDedupeNodes [?a] = [?a]" by (simp add: SortAndDedupeNodes_def)
  ultimately show ?thesis using SelectBatchWritePreferredNodes_by_votes[OF ok, of ?ops ?md]
    unfolding h by simp
qed

text \<open>Metadata built from a snapshot answers as the original did, and a name that is set is in the next snapshot.\<close>

lemma Snapshot_restores:
  "GetPartitionKeyName (PartitionKeyMetadata_new (PartitionKeyMetadata_Snapshot md)) t = GetPartitionKeyName md t"
  "map_find id t (PartitionKeyMetadata_Snapshot (SetPartitionKeyName u name md)) =
     (if t = u then Some name else map_find id t (PartitionKeyMetadata_Snapshot md))"
  if "map_invar id (pkm_partition_key_by_table md)"
  using that by (simp_all add: PartitionKeyMetadata_new_def PartitionKeyMetadata_Snapshot_def GetPartitionKeyName_def SetPartitionKeyName_def
      alist_map.find_assign)

text \<open>
  after the partition key of a table is set, items of that table hash by the value of this
  attribute, an item without it is rejected, and the other tables are as before.
\<close>

theorem HashPartitionKey_after_SetPartitionKeyName:
  assumes "map_invar id (pkm_partition_key_by_table md)" "key_name \<noteq> []"
  shows "HashPartitionKey values table (SetPartitionKeyName table' key_name md) =
    (if table = table' then
       (case map_find id key_name values of
          None \<Rightarrow> Inl (Invalid_Argument (''value for partition key '' @ key_name @ '' not found''))
        | Some v \<Rightarrow> Inr (AttributeValue_Hash v))
     else HashPartitionKey values table md)"
  using assms
  by (auto simp: HashPartitionKey_def GetPartitionKeyName_def SetPartitionKeyName_def alist_map.find_assign)

theorem HashPartitionKey_after_SetPartitionKeyName_witness:
  "HashPartitionKey [(''id'', AttributeValue_Number ''42'')] ''t''
     (SetPartitionKeyName ''t'' ''id'' \<lparr>pkm_partition_key_by_table = []\<rparr>) =
   Inr (HashAttributeValue Number_Type ''42'')"
  using HashPartitionKey_after_SetPartitionKeyName[of "\<lparr>pkm_partition_key_by_table = []\<rparr>" "''id''"
      "[(''id'', AttributeValue_Number ''42'')]" "''t''" "''t''"]
  by (simp add: AttributeValue_Hash_def AttributeValue_Number_def)

text \<open>
  in read-before-write mode a write is routed by its key exactly when the server has to read
  the old item: it is conditional, it returns more than the newly written attributes, or it is an
  update with an expression, an \<open>ADD\<close> or a \<open>DELETE\<close> of given elements. Mode \<open>None\<close> routes nothing and
  mode \<open>AnyWrite\<close> every write.
\<close>

theorem ShouldUseKeyRouteAffinity_iff:
  "ShouldUseKeyRouteAffinity mode kind options \<longleftrightarrow>
     mode = AnyWrite \<or>
     (mode = ReadBeforeWrite \<and>
       (has_expected options \<or> has_condition_expression options \<or> return_values options = RV_AllOld \<or>
        (kind = UpdateItem \<and>
          (has_update_expression options \<or> return_values options \<in> {RV_UpdatedOld, RV_AllNew} \<or>
           (\<exists>update \<in> set (attribute_updates options).
              au_action update = Action_Add \<or> (au_action update = Action_Delete \<and> au_has_value update))))))"
proof -
  have "update_reads us \<longleftrightarrow> (\<exists>update \<in> set us.
      au_action update = Action_Add \<or> (au_action update = Action_Delete \<and> au_has_value update))" for us
    by (induction us) auto
  then show ?thesis by (cases mode; cases kind) auto
qed

end
