(* ===== verification/Config_Model.thy ===== *)
theory Config_Model
  imports Http_Compression Routing_Scope Node_Health Key_Route_Affinity
begin

text \<open>
  \<open>src/include/scylladb/alternator/config.h\<close> and \<open>src/src/config.cpp\<close>: the configuration, its
  validation, and the request header allowlists. Durations are in milliseconds (the TLS session
  timeout in seconds); pointers that may be null are options.
\<close>

section \<open>Data\<close>

record Credentials =
  access_key_id :: string
  secret_access_key :: string

record HeaderOptimizationContext =
  credentials_configured :: bool
  user_agent_configured :: bool

text \<open>The virtual method \<open>AllowedHeaders\<close> of a header optimisation.\<close>

type_synonym HeaderOptimization = "HeaderOptimizationContext \<Rightarrow> string list"

record Config =
  cfg_port :: u16
  cfg_scheme :: string
  cfg_routing_scope :: "RoutingScope option"
  cfg_aws_region :: string
  cfg_credentials :: Credentials
  cfg_nodes_list_update_period :: int
  cfg_idle_nodes_list_update_period :: int
  cfg_http_client_timeout :: int
  cfg_connect_timeout :: int
  cfg_verify_ssl :: bool
  cfg_ca_file :: string
  cfg_client_certificate_file :: string
  cfg_client_private_key_file :: string
  cfg_tls_session_cache_enabled :: bool
  cfg_tls_session_cache_size :: u32
  cfg_tls_session_timeout :: int
  cfg_max_connections :: u32
  cfg_reuse_discovery_connections :: bool
  cfg_request_compressor :: "HttpRequestCompressor option"
  cfg_content_encoding_decoders :: "HttpContentEncodingDecoder option list"
  cfg_user_agent :: string
  cfg_header_optimization :: "HeaderOptimization option"
  cfg_node_health :: NodeHealthStoreConfig
  cfg_key_route_affinity :: KeyRouteAffinityConfig

definition KeyRouteAffinityConfig_default :: KeyRouteAffinityConfig where
  "KeyRouteAffinityConfig_default =
     \<lparr>kra_mode = Mode_None, kra_partition_key_by_table = [],
      partition_key_discovery_attempts = 3, partition_key_discovery_initial_backoff = 100\<rparr>"

text \<open>The version is a build-time macro, \<open>devel\<close> unless the build sets it.\<close>

definition Config_default :: Config where
  "Config_default =
     \<lparr>cfg_port = 8080, cfg_scheme = ''http'', cfg_routing_scope = Some NewClusterScope,
      cfg_aws_region = ''default-alb-region'',
      cfg_credentials = \<lparr>access_key_id = [], secret_access_key = []\<rparr>,
      cfg_nodes_list_update_period = 1000, cfg_idle_nodes_list_update_period = 60000,
      cfg_http_client_timeout = 0, cfg_connect_timeout = 1000,
      cfg_verify_ssl = True, cfg_ca_file = [], cfg_client_certificate_file = [],
      cfg_client_private_key_file = [],
      cfg_tls_session_cache_enabled = True, cfg_tls_session_cache_size = 1024,
      cfg_tls_session_timeout = 86400,
      cfg_max_connections = 100, cfg_reuse_discovery_connections = True,
      cfg_request_compressor = None, cfg_content_encoding_decoders = [],
      cfg_user_agent = ''scylladb-alternator-client-cpp/devel'', cfg_header_optimization = None,
      cfg_node_health = NodeHealthStoreConfig_default,
      cfg_key_route_affinity = KeyRouteAffinityConfig_default\<rparr>"

section \<open>Operations\<close>

definition DefaultHeaderOptimization :: HeaderOptimization where
  "DefaultHeaderOptimization context =
     (let headers = [''Host'', ''X-Amz-Target'', ''Content-Length'', ''Accept-Encoding'', ''Content-Encoding''];
          headers = (if credentials_configured context then headers @ [''Authorization'', ''X-Amz-Date''] else headers)
      in if user_agent_configured context then headers @ [''User-Agent''] else headers)"

definition HeaderAllowlistOptimization :: "string list \<Rightarrow> HeaderOptimization" where
  "HeaderAllowlistOptimization allowed_headers context = allowed_headers"

definition ValidateConfig :: "Config \<Rightarrow> unit result" where
  "ValidateConfig config =
     (if cfg_scheme config \<noteq> ''http'' \<and> cfg_scheme config \<noteq> ''https'' then
        Inl (Invalid_Argument ''scheme must be http or https'')
      else if cfg_port config = 0 then
        Inl (Invalid_Argument ''port must be > 0'')
      else if cfg_routing_scope config = None then
        Inl (Invalid_Argument ''routing_scope must not be null'')
      else if cfg_max_connections config = 0 then
        Inl (Invalid_Argument ''max_connections must be > 0'')
      else
        rbind (BuildRequestContentEncodingValue (cfg_request_compressor config)) (\<lambda>_.
        rbind (BuildAcceptEncodingValue (cfg_content_encoding_decoders config)) (\<lambda>_.
          if partition_key_discovery_attempts (cfg_key_route_affinity config) = 0 then
            Inl (Invalid_Argument ''partition_key_discovery_attempts must be > 0'')
          else if partition_key_discovery_initial_backoff (cfg_key_route_affinity config) < 0 then
            Inl (Invalid_Argument ''partition_key_discovery_initial_backoff must be >= 0'')
          else if cfg_tls_session_cache_enabled config then
            (if cfg_tls_session_cache_size config = 0 then
               Inl (Invalid_Argument ''tls_session_cache_size must be > 0 when TLS session cache is enabled'')
             else if cfg_tls_session_timeout config \<le> 0 then
               Inl (Invalid_Argument ''tls_session_timeout must be > 0 when TLS session cache is enabled'')
             else Inr ())
          else Inr ())))"

section \<open>Properties\<close>

lemma BuildRequestContentEncodingValue_ok:
  "(\<exists>v. BuildRequestContentEncodingValue c = Inr v) \<longleftrightarrow>
     (\<forall>x. c = Some x \<longrightarrow> coding (NormalizeResponseEncoding (Compressor_ContentEncoding x)))"
  by (cases c) (auto simp: BuildRequestContentEncodingValue_def NormalizeRequestEncoding_def coding_def Let_def)

lemma BuildAcceptEncodingValue_ok:
  "(\<exists>v. BuildAcceptEncodingValue ds = Inr v) \<longleftrightarrow> (\<exists>entries. BuildDecoderEntries ds = Inr entries)"
  by (auto simp: BuildAcceptEncodingValue_def result_simps)

lemma ValidateConfig_scheme:
  "ValidateConfig config = Inr () \<Longrightarrow> cfg_scheme config \<in> {''http'', ''https''} \<and> cfg_routing_scope config \<noteq> None"
  by (auto simp: ValidateConfig_def split: if_splits)

lemma BuildDecoderEntries_Nil [simp]: "BuildDecoderEntries [] = Inr []"
  by (simp add: BuildDecoderEntries_def)

text \<open>
  a configuration is accepted exactly when the scheme is \<open>http\<close> or \<open>https\<close>, the port, connection
  limit and discovery attempts are positive, a scope is set, the compressor names exactly one
  coding, the decoders form a valid table, the backoff is not negative, and an enabled TLS session
  cache has a positive size and timeout. Every other configuration is rejected with
  \<open>std::invalid_argument\<close>.
\<close>

theorem ValidateConfig_accepts:
  "(ValidateConfig config = Inr () \<longleftrightarrow>
     cfg_scheme config \<in> {''http'', ''https''} \<and> cfg_port config \<noteq> 0 \<and>
     cfg_routing_scope config \<noteq> None \<and> cfg_max_connections config \<noteq> 0 \<and>
     (\<forall>x. cfg_request_compressor config = Some x \<longrightarrow>
        coding (NormalizeResponseEncoding (Compressor_ContentEncoding x))) \<and>
     (\<exists>entries. BuildDecoderEntries (cfg_content_encoding_decoders config) = Inr entries) \<and>
     partition_key_discovery_attempts (cfg_key_route_affinity config) \<noteq> 0 \<and>
     0 \<le> partition_key_discovery_initial_backoff (cfg_key_route_affinity config) \<and>
     (cfg_tls_session_cache_enabled config \<longrightarrow>
        cfg_tls_session_cache_size config \<noteq> 0 \<and> 0 < cfg_tls_session_timeout config)) \<and>
   (ValidateConfig config \<noteq> Inr () \<longrightarrow> (\<exists>message. ValidateConfig config = Inl (Invalid_Argument message)))"
proof -
  let ?r = "BuildRequestContentEncodingValue (cfg_request_compressor config)"
  let ?a = "BuildAcceptEncodingValue (cfg_content_encoding_decoders config)"
  have "(\<exists>v. ?r = Inr v) \<or> (\<exists>message. ?r = Inl (Invalid_Argument message))"
    by (auto simp: BuildRequestContentEncodingValue_def NormalizeRequestEncoding_def Let_def split: option.split)
  moreover have "(\<exists>v. ?a = Inr v) \<or> (\<exists>message. ?a = Inl (Invalid_Argument message))"
    by (rule BuildAcceptEncodingValue_cases)
  ultimately show ?thesis
    unfolding BuildRequestContentEncodingValue_ok[symmetric] BuildAcceptEncodingValue_ok[symmetric]
    by (elim disjE exE) (simp_all add: ValidateConfig_def)
qed

theorem ValidateConfig_accepts_witness:
  "ValidateConfig Config_default = Inr () \<and>
   (\<exists>message. ValidateConfig (Config_default\<lparr>cfg_port := 0\<rparr>) = Inl (Invalid_Argument message))"
proof -
  have "ValidateConfig Config_default = Inr ()"
    using ValidateConfig_accepts[of Config_default]
    by (simp add: Config_default_def KeyRouteAffinityConfig_default_def)
  moreover have "ValidateConfig (Config_default\<lparr>cfg_port := 0\<rparr>) \<noteq> Inr ()"
    using ValidateConfig_accepts[of "Config_default\<lparr>cfg_port := 0\<rparr>"] by simp
  ultimately show ?thesis using ValidateConfig_accepts[of "Config_default\<lparr>cfg_port := 0\<rparr>"] by blast
qed

end
