(* ===== verification/Local_Nodes_Json.thy ===== *)
theory Local_Nodes_Json
  imports Prelude
begin

text \<open>
  The parser of \<open>/localnodes\<close> responses, \<open>ParseJsonStringArray\<close> of \<open>src/src/live_nodes.cpp\<close>: a JSON
  array of strings with the one-character escapes. The position \<open>pos\<close> in \<open>body\<close> is the rest of the
  input still to be read; every \<open>throw\<close> is an \<open>Inl\<close>.
\<close>

section \<open>The parser\<close>

definition skip_ws :: "string \<Rightarrow> string" where
  "skip_ws s = dropWhile is_space s"

definition expect :: "char \<Rightarrow> string \<Rightarrow> string result" where
  "expect ch s =
     (case skip_ws s of
        [] \<Rightarrow> Inl (Runtime_Error ''invalid /localnodes JSON response'')
      | c # rest \<Rightarrow>
          if c \<noteq> ch then Inl (Runtime_Error ''invalid /localnodes JSON response'') else Inr rest)"

definition unescape :: "char \<Rightarrow> char option" where
  "unescape c =
     (if c = CHR 0x22 \<or> c = CHR 0x5C \<or> c = CHR ''/'' then Some c
      else if c = CHR ''b'' then Some (CHR 0x08)
      else if c = CHR ''f'' then Some (CHR 0x0C)
      else if c = CHR ''n'' then Some (CHR 0x0A)
      else if c = CHR ''r'' then Some (CHR 0x0D)
      else if c = CHR ''t'' then Some (CHR 0x09)
      else None)"

text \<open>
  The inner loop reads a string up to its closing quote. At the end of the input it stops without
  an error; the missing bracket is reported by its caller.
\<close>

fun read_string :: "string \<Rightarrow> string \<Rightarrow> (string \<times> string) result" where
  "read_string value [] = Inr (value, [])"
| "read_string value (ch # rest) =
     (if ch = CHR 0x22 then Inr (value, rest)
      else if ch \<noteq> CHR 0x5C then read_string (value @ [ch]) rest
      else case rest of
             [] \<Rightarrow> Inl (Runtime_Error ''invalid escape in /localnodes JSON response'')
           | escaped # rest' \<Rightarrow>
               (case unescape escaped of
                  None \<Rightarrow> Inl (Runtime_Error ''unsupported escape in /localnodes JSON response'')
                | Some c \<Rightarrow> read_string (value @ [c]) rest'))"

lemma read_string_length: "read_string v s = Inr (v', s') \<Longrightarrow> length s' \<le> length s"
  by (induction v s rule: read_string.induct)
    (auto split: if_splits list.splits option.splits, blast intro: le_SucI)

lemma skip_ws_length: "length (skip_ws s) \<le> length s"
  by (simp add: skip_ws_def length_dropWhile_le)

lemma expect_length: "expect ch s = Inr s' \<Longrightarrow> length s' < length s"
  using skip_ws_length[of s] by (auto simp: expect_def split: list.splits if_splits)

lemma element_shrinks:
  assumes "expect q s = Inr s1" "read_string v s1 = Inr (v', s2)" "skip_ws s2 = c # s3" "expect q' (c # s3) = Inr s4"
  shows "length s4 < length s"
  using expect_length[OF assms(1)] read_string_length[OF assms(2)] skip_ws_length[of s2] expect_length[OF assms(4)]
    assms(3) by simp

function read_elements :: "string list \<Rightarrow> string \<Rightarrow> (string list \<times> string) result" where
  "read_elements out s =
     (case expect (CHR 0x22) s of
        Inl e \<Rightarrow> Inl e
      | Inr s1 \<Rightarrow>
          (case read_string [] s1 of
             Inl e \<Rightarrow> Inl e
           | Inr (value, s2) \<Rightarrow>
               (case skip_ws s2 of
                  [] \<Rightarrow> Inl (Runtime_Error ''unterminated /localnodes JSON response'')
                | c # s3 \<Rightarrow>
                    if c = CHR '']'' then Inr (out @ [value], s3)
                    else case expect (CHR '','') (c # s3) of
                           Inl e \<Rightarrow> Inl e
                         | Inr s4 \<Rightarrow> read_elements (out @ [value]) s4)))"
  by pat_completeness auto
termination
  by (relation "measure (length \<circ> snd)") (auto dest: element_shrinks)

declare read_elements.simps [simp del]

definition ParseJsonStringArray :: "string \<Rightarrow> string list result" where
  "ParseJsonStringArray body =
     rbind (expect (CHR ''['') body) (\<lambda>s.
       let s1 = skip_ws s in
       if s1 \<noteq> [] \<and> hd s1 = CHR '']'' then
         (if skip_ws (tl s1) \<noteq> [] then
            Inl (Runtime_Error ''invalid trailing data in /localnodes JSON response'')
          else Inr [])
       else rbind (read_elements [] s1) (\<lambda>(out, s2).
         if skip_ws s2 \<noteq> [] then
           Inl (Runtime_Error ''invalid trailing data in /localnodes JSON response'')
         else Inr out))"

section \<open>Printing\<close>

text \<open>A printer that escapes quotes, backslashes and the control characters the parser knows.\<close>

definition escape_char :: "char \<Rightarrow> string" where
  "escape_char c =
     (if c = CHR 0x22 \<or> c = CHR 0x5C then [CHR 0x5C, c]
      else if c = CHR 0x08 then [CHR 0x5C, CHR ''b'']
      else if c = CHR 0x0C then [CHR 0x5C, CHR ''f'']
      else if c = CHR 0x0A then [CHR 0x5C, CHR ''n'']
      else if c = CHR 0x0D then [CHR 0x5C, CHR ''r'']
      else if c = CHR 0x09 then [CHR 0x5C, CHR ''t'']
      else [c])"

definition print_string :: "string \<Rightarrow> string" where
  "print_string s = [CHR 0x22] @ concat (map escape_char s) @ [CHR 0x22]"

text \<open>Elements with arbitrary white space around them, as any JSON writer may emit.\<close>

fun print_elements :: "string \<Rightarrow> string list \<Rightarrow> string" where
  "print_elements ws [] = []"
| "print_elements ws [x] = ws @ print_string x @ ws"
| "print_elements ws (x # xs) = ws @ print_string x @ ws @ '','' @ print_elements ws xs"

definition print_json :: "string \<Rightarrow> string list \<Rightarrow> string" where
  "print_json ws xs = ws @ ''['' @ print_elements ws xs @ (if xs = [] then ws else []) @ '']'' @ ws"

abbreviation white :: "string \<Rightarrow> bool" where
  "white ws \<equiv> \<forall>c \<in> set ws. is_space c"

lemma skip_ws_white: "white ws \<Longrightarrow> \<not> is_space c \<Longrightarrow> skip_ws (ws @ c # s) = c # s"
  by (simp add: skip_ws_def dropWhile_append2)

lemma skip_ws_all: "white ws \<Longrightarrow> skip_ws ws = []"
  by (simp add: skip_ws_def)

lemma expect_white: "white ws \<Longrightarrow> \<not> is_space c \<Longrightarrow> expect c (ws @ c # s) = Inr s"
  by (simp add: expect_def skip_ws_white)

lemma not_space [simp]:
  "\<not> is_space (CHR 0x22)" "\<not> is_space (CHR '','')" "\<not> is_space (CHR ''['')" "\<not> is_space (CHR '']'')"
  by (simp_all add: is_space_def)

lemma expect_here: "\<not> is_space c \<Longrightarrow> expect c (c # s) = Inr s"
  using expect_white[of "[]" c s] by simp

lemma read_elements_skip: "read_elements out (skip_ws s) = read_elements out s"
proof -
  have "skip_ws (skip_ws s) = skip_ws s" by (simp add: skip_ws_def)
  then show ?thesis by (subst (1 2) read_elements.simps) (simp add: expect_def)
qed

section \<open>The accepted language\<close>

inductive json_str :: "string \<Rightarrow> string \<Rightarrow> bool" where
  js_end: "json_str [] []"
| js_plain: "json_str r v \<Longrightarrow> c \<noteq> CHR 0x22 \<Longrightarrow> c \<noteq> CHR 0x5C \<Longrightarrow> json_str (c # r) (c # v)"
| js_escape: "json_str r v \<Longrightarrow> unescape e = Some c \<Longrightarrow> json_str (CHR 0x5C # e # r) (c # v)"

inductive json_elems :: "string \<Rightarrow> string list \<Rightarrow> bool" where
  je_last: "white w1 \<Longrightarrow> white w2 \<Longrightarrow> json_str r v \<Longrightarrow> json_elems (w1 @ [CHR 0x22] @ r @ [CHR 0x22] @ w2) [v]"
| je_more: "white w1 \<Longrightarrow> white w2 \<Longrightarrow> json_str r v \<Longrightarrow> json_elems b vs \<Longrightarrow>
    json_elems (w1 @ [CHR 0x22] @ r @ [CHR 0x22] @ w2 @ '','' @ b) (v # vs)"

definition json_array :: "string \<Rightarrow> string list \<Rightarrow> bool" where
  "json_array body xs \<longleftrightarrow> (\<exists>w b w'. white w \<and> white w' \<and> body = w @ ''['' @ b @ '']'' @ w' \<and>
     (white b \<and> xs = [] \<or> json_elems b xs))"

lemma read_string_complete: "json_str r x \<Longrightarrow> read_string v (r @ CHR 0x22 # s) = Inr (v @ x, s)"
  by (induction r x arbitrary: v rule: json_str.induct) auto

lemma read_string_sound:
  "read_string v s = Inr (v', s') \<Longrightarrow>
     \<exists>r x. v' = v @ x \<and> json_str r x \<and> (s = r @ CHR 0x22 # s' \<or> s = r \<and> s' = [])"
proof (induction v s arbitrary: v' s' rule: read_string.induct)
  case (1 v)
  then show ?case using js_end by auto
next
  case (2 v c rest)
  consider "c = CHR 0x22" | "c \<noteq> CHR 0x22" "c \<noteq> CHR 0x5C" | "c = CHR 0x5C" by blast
  then show ?case
  proof cases
    case 1
    with 2 show ?thesis using js_end by auto
  next
    case 2
    with "2.prems" have "read_string (v @ [c]) rest = Inr (v', s')" by simp
    from "2.IH"(1)[OF 2 this] 2 show ?thesis by (auto intro: js_plain) (metis append_Cons js_plain)+
  next
    case 3
    with "2.prems" obtain e rest' d where e: "rest = e # rest'" "unescape e = Some d"
      "read_string (v @ [d]) rest' = Inr (v', s')"
      by (auto split: list.splits option.splits)
    from "2.IH"(2)[OF _ _ e] 3 obtain r x where "v' = (v @ [d]) @ x" "json_str r x"
      "rest' = r @ CHR 0x22 # s' \<or> rest' = r \<and> s' = []" by auto
    with js_escape[OF this(2) e(2)] e(1) 3 show ?thesis by (metis append_Cons append.assoc append_Nil)
  qed
qed

lemma skip_ws_cases: "\<exists>w. white w \<and> s = w @ skip_ws s"
  unfolding skip_ws_def by (metis set_takeWhileD takeWhile_dropWhile_id)

lemma expect_sound: "expect c s = Inr s' \<Longrightarrow> \<exists>w. white w \<and> s = w @ c # s'"
  using skip_ws_cases[of s] by (auto simp: expect_def split: list.splits if_splits)

lemma read_elements_complete:
  "json_elems b xs \<Longrightarrow> read_elements out (b @ CHR '']'' # s) = Inr (out @ xs, s)"
proof (induction b xs arbitrary: out rule: json_elems.induct)
  case (je_last w1 w2 r v)
  then show ?case
    by (subst read_elements.simps) (simp add: expect_white read_string_complete skip_ws_white)
next
  case (je_more w1 w2 r v b vs)
  then show ?case
    by (subst read_elements.simps) (simp add: expect_white read_string_complete skip_ws_white expect_here)
qed

lemma read_elements_sound:
  "read_elements out s = Inr (out', s') \<Longrightarrow>
     \<exists>b xs. out' = out @ xs \<and> json_elems b xs \<and> s = b @ CHR '']'' # s'"
proof (induction out s rule: read_elements.induct)
  case (1 out s)
  from "1.prems" obtain s1 v s2 c s3 where e: "expect (CHR 0x22) s = Inr s1" "read_string [] s1 = Inr (v, s2)"
    "skip_ws s2 = c # s3"
    by (subst (asm) read_elements.simps) (auto split: sum.splits prod.splits list.splits)
  obtain w1 where w1: "white w1" "s = w1 @ CHR 0x22 # s1" using expect_sound[OF e(1)] by blast
  obtain w2 where w2: "white w2" "s2 = w2 @ c # s3" using skip_ws_cases[of s2] e(3) by auto
  obtain r where r: "json_str r v" "s1 = r @ CHR 0x22 # s2" using read_string_sound[OF e(2)] w2 by auto
  show ?case
  proof (cases "c = CHR '']''")
    case True
    with "1.prems" e have "out' = out @ [v]" "s' = s3" by (subst (asm) read_elements.simps, simp)+
    moreover have "s = (w1 @ [CHR 0x22] @ r @ [CHR 0x22] @ w2) @ CHR '']'' # s3" using w1 w2 r True by simp
    ultimately show ?thesis using je_last[OF w1(1) w2(1) r(1)] by blast
  next
    case False
    with "1.prems" e obtain s4 where s4: "expect (CHR '','') (c # s3) = Inr s4"
      "read_elements (out @ [v]) s4 = Inr (out', s')"
      by (subst (asm) read_elements.simps) (auto split: sum.splits)
    from "1.IH"[OF e(1,2) refl e(3) False s4] obtain b xs where
      b: "out' = (out @ [v]) @ xs" "json_elems b xs" "s4 = b @ CHR '']'' # s'" by blast
    have "\<not> is_space c" using e(3) by (metis dropWhile_eq_Cons_conv skip_ws_def)
    then have "c = CHR '',''" "s3 = s4"
      using s4(1) by (auto simp: expect_def skip_ws_def split: if_splits)
    then have "s = (w1 @ [CHR 0x22] @ r @ [CHR 0x22] @ w2 @ '','' @ b) @ CHR '']'' # s'"
      using w1 w2 r b(3) by simp
    with b(1) je_more[OF w1(1) w2(1) r(1) b(2)] show ?thesis by (metis append.assoc append_Cons append_Nil)
  qed
qed

lemma json_elems_starts: "json_elems b xs \<Longrightarrow> \<exists>w r. white w \<and> b = w @ CHR 0x22 # r"
  by (induction rule: json_elems.induct) auto

lemma skip_ws_elems: "json_elems b xs \<Longrightarrow> \<exists>r. skip_ws (b @ s) = CHR 0x22 # r"
  using json_elems_starts[of b xs] by (auto simp: skip_ws_white)

lemma parse_complete: "json_array body xs \<Longrightarrow> ParseJsonStringArray body = Inr xs"
proof -
  assume "json_array body xs"
  then obtain w b w' where w: "white w" "white w'" "body = w @ CHR ''['' # b @ CHR '']'' # w'"
    and b: "white b \<and> xs = [] \<or> json_elems b xs" by (auto simp: json_array_def)
  have start: "expect (CHR ''['') body = Inr (b @ CHR '']'' # w')" using w by (simp add: expect_white)
  from b show ?thesis
  proof
    assume "white b \<and> xs = []"
    then show ?thesis using w(2) by (simp add: ParseJsonStringArray_def start skip_ws_white skip_ws_all)
  next
    assume e: "json_elems b xs"
    have "read_elements [] (skip_ws (b @ CHR '']'' # w')) = Inr (xs, w')"
      using read_elements_complete[OF e, of "[]" w'] by (simp add: read_elements_skip)
    with skip_ws_elems[OF e, of "CHR '']'' # w'"] w(2) show ?thesis
      by (auto simp: ParseJsonStringArray_def start skip_ws_all)
  qed
qed

lemma parse_sound: "ParseJsonStringArray body = Inr xs \<Longrightarrow> json_array body xs"
proof -
  assume p: "ParseJsonStringArray body = Inr xs"
  then obtain s where s: "expect (CHR ''['') body = Inr s" by (auto simp: ParseJsonStringArray_def result_simps)
  obtain w where w: "white w" "body = w @ CHR ''['' # s" using expect_sound[OF s] by blast
  obtain w1 where w1: "white w1" "s = w1 @ skip_ws s" using skip_ws_cases by blast
  show ?thesis
  proof (cases "skip_ws s \<noteq> [] \<and> hd (skip_ws s) = CHR '']''")
    case True
    then obtain r where r: "skip_ws s = CHR '']'' # r" by (cases "skip_ws s") auto
    with p s have "xs = []" "skip_ws r = []"
      by (auto simp: ParseJsonStringArray_def split: if_splits)
    moreover from this(2) have "white r" by (simp add: skip_ws_def dropWhile_eq_Nil_conv)
    moreover have "body = w @ ''['' @ w1 @ '']'' @ r" using w w1 r by simp
    ultimately show ?thesis using w(1) w1(1) unfolding json_array_def by blast
  next
    case False
    with p s obtain s2 where r: "read_elements [] s = Inr (xs, s2)" "skip_ws s2 = []"
      by (auto simp: ParseJsonStringArray_def read_elements_skip Let_def result_simps split: if_splits prod.splits)
    then obtain b where "json_elems b xs" "s = b @ CHR '']'' # s2" using read_elements_sound by fastforce
    moreover from r(2) have "white s2" by (simp add: skip_ws_def dropWhile_eq_Nil_conv)
    moreover have "body = w @ ''['' @ b @ '']'' @ s2" using w calculation(2) by simp
    ultimately show ?thesis using w(1) unfolding json_array_def by blast
  qed
qed

lemma json_str_print: "json_str (concat (map escape_char x)) x"
proof (induction x)
  case (Cons c x)
  have "json_str (escape_char c @ r) (c # v)" if "json_str r v" for r v
    using that by (simp add: escape_char_def unescape_def js_plain js_escape)
  with Cons show ?case by simp
qed (simp add: js_end)

lemma json_elems_print: "white ws \<Longrightarrow> xs \<noteq> [] \<Longrightarrow> json_elems (print_elements ws xs) xs"
proof (induction ws xs rule: print_elements.induct)
  case (2 ws x)
  then show ?case using je_last[of ws ws, OF _ _ json_str_print[of x]] by (simp add: print_string_def)
next
  case (3 ws x y ys)
  then show ?case using je_more[of ws ws, OF _ _ json_str_print[of x]] by (simp add: print_string_def)
qed simp

section \<open>Properties\<close>

text \<open>
  \<^bold>\<open>C11\<close>: \<open>ParseJsonStringArray\<close> accepts exactly the arrays of strings of the grammar \<open>json_array\<close> (white
  space between tokens, one-character escapes, nothing after the closing bracket) and returns
  their elements; any other body makes it throw.
\<close>

theorem ParseJsonStringArray_grammar:
  "ParseJsonStringArray body = Inr xs \<longleftrightarrow> json_array body xs"
  using parse_sound parse_complete by blast

lemma parse_print:
  assumes "\<forall>c \<in> set ws. is_space c"
  shows "ParseJsonStringArray (print_json ws xs) = Inr xs"
proof (rule parse_complete)
  show "json_array (print_json ws xs) xs"
  proof (cases "xs = []")
    case True
    with assms show ?thesis unfolding json_array_def by (intro exI[of _ ws] exI[of _ ws]) (simp add: print_json_def)
  next
    case False
    with assms json_elems_print[of ws xs] show ?thesis
      unfolding json_array_def
      by (intro exI[of _ ws] exI[of _ "print_elements ws xs"]) (simp add: print_json_def)
  qed
qed

text \<open>
  printing and parsing round trip: for any list of byte strings and any white space between the
  tokens, the parser returns the printed list.
\<close>

theorem ParseJsonStringArray_roundtrip:
  assumes "\<forall>c \<in> set ws. is_space c"
  shows "ParseJsonStringArray (print_json ws xs) = Inr xs"
  by (rule parse_print[OF assms])

theorem ParseJsonStringArray_roundtrip_witness:
  "ParseJsonStringArray (print_json '' '' [''10.0.0.1'', [CHR 0x22, CHR 0x5C, CHR 0x0A]]) =
     Inr [''10.0.0.1'', [CHR 0x22, CHR 0x5C, CHR 0x0A]]"
  using ParseJsonStringArray_roundtrip[of "'' ''" "[''10.0.0.1'', [CHR 0x22, CHR 0x5C, CHR 0x0A]]"]
  by (simp add: is_space_def)

end
