(* ===== verification/Live_Nodes.thy ===== *)
theory Live_Nodes
  imports Config_Model Local_Nodes_Json
begin

text \<open>
  \<open>src/src/live_nodes.cpp\<close>: the class \<open>AlternatorLiveNodes\<close>, which discovers the nodes through
  \<open>/localnodes\<close>, keeps their health, and hands out nodes for requests and query plans.

  The state of an object is the record \<open>AlternatorLiveNodes\<close>; \<open>mutable\<close> and atomic members change in
  \<open>const\<close> calls, so every operation returns the state. What lies outside is the record
  \<open>Environment\<close> over a world \<open>'w\<close>: the HTTP client (an \<open>HttpClient\<close> object supplied by the
  application or the default one), the steady clock and the clock that seeds a discovery plan.
  Time points are in nanoseconds, durations of the configuration in milliseconds.
\<close>

section \<open>Data\<close>

record HttpResponse =
  resp_status_code :: int
  resp_body :: string

record 'w Environment =
  env_Get :: "Url \<Rightarrow> 'w \<Rightarrow> HttpResponse result \<times> 'w"
  env_now :: "'w \<Rightarrow> time_point"
  env_seed :: "'w \<Rightarrow> u64"

record AlternatorLiveNodes =
  ln_config :: Config
  ln_initial_nodes :: "Url list"
  ln_live_nodes :: "Url list"
  ln_quarantine_by_hash :: "(i64, Url) std_map"
  ln_health_store :: NodeHealthStore
  ln_next_node_index :: u64
  ln_quarantine_plan_index :: u64
  ln_quarantine_node_index :: u64
  ln_next_update :: time_point
  ln_last_activity :: time_point

type_synonym 'w ln_state = "AlternatorLiveNodes \<times> 'w"

definition time_point_max :: time_point where "time_point_max = 2 ^ 63 - 1"
definition time_point_min :: time_point where "time_point_min = - (2 ^ 63)"

definition milliseconds :: "int \<Rightarrow> int" where
  "milliseconds n = n * 1000000"

section \<open>Helpers\<close>

definition exn_what :: "exn \<Rightarrow> string" where
  "exn_what e = (case e of
      Invalid_Argument m \<Rightarrow> m | Runtime_Error m \<Rightarrow> m | Http_Status_Error m c \<Rightarrow> m
    | Invalid_Http_Response m \<Rightarrow> m | Other_Exception m \<Rightarrow> m | Diverges \<Rightarrow> [])"

definition ToUrls :: "string list \<Rightarrow> Config \<Rightarrow> Url list" where
  "ToUrls nodes config =
     SortAndDedupeNodes (map (\<lambda>node. Url_new (cfg_scheme config) node (cfg_port config)) nodes)"

fun AppendUniqueNodes :: "Url list \<Rightarrow> Url list \<Rightarrow> Url list" where
  "AppendUniqueNodes out [] = out"
| "AppendUniqueNodes out (node # nodes) =
     AppendUniqueNodes (if \<not> Url_Empty node \<and> node \<notin> set out then out @ [node] else out) nodes"

definition QuarantinedNodeIsFirstForHash :: "Url \<Rightarrow> Url list \<Rightarrow> i64 \<Rightarrow> bool result" where
  "QuarantinedNodeIsFirstForHash node active_nodes hash =
     rbind (FirstNodeWithSeed (active_nodes @ [node]) hash) (\<lambda>first. Inr (Url_eq first node))"

section \<open>Node lists and routing\<close>

definition LiveNodes_GetNodes :: "AlternatorLiveNodes \<Rightarrow> Url list" where
  "LiveNodes_GetNodes st = (if ln_live_nodes st = [] then ln_initial_nodes st else ln_live_nodes st)"

definition LiveNodes_GetActiveNodes :: "AlternatorLiveNodes \<Rightarrow> Url list" where
  "LiveNodes_GetActiveNodes st = NodeHealthStore_GetActiveNodes (ln_health_store st)"

definition LiveNodes_GetQuarantinedNodes :: "AlternatorLiveNodes \<Rightarrow> Url list" where
  "LiveNodes_GetQuarantinedNodes st = NodeHealthStore_GetQuarantinedNodes (ln_health_store st)"

definition LiveNodes_GetDownNodes :: "AlternatorLiveNodes \<Rightarrow> Url list" where
  "LiveNodes_GetDownNodes st = NodeHealthStore_GetDownNodes (ln_health_store st)"

definition ShouldTryQuarantinedNode :: "bool \<Rightarrow> AlternatorLiveNodes \<Rightarrow> bool \<times> AlternatorLiveNodes" where
  "ShouldTryQuarantinedNode active_nodes_empty st =
     (if LiveNodes_GetQuarantinedNodes st = [] then (False, st)
      else if active_nodes_empty then (True, st)
      else
        (let interval0 = quarantine_traffic_interval (cfg_node_health (ln_config st));
             interval = (if interval0 = 0 then 1 else interval0);
             attempt = ln_quarantine_plan_index st + 1
         in (attempt mod ucast interval = 0,
             st\<lparr>ln_quarantine_plan_index := ln_quarantine_plan_index st + 1\<rparr>)))"

definition NextQuarantinedNode :: "AlternatorLiveNodes \<Rightarrow> Url \<times> AlternatorLiveNodes" where
  "NextQuarantinedNode st =
     (let nodes = LiveNodes_GetQuarantinedNodes st in
      if nodes = [] then (Url_default, st)
      else
        (let idx = ln_quarantine_node_index st mod word_of_nat (length nodes)
         in (nodes ! unat idx, st\<lparr>ln_quarantine_node_index := ln_quarantine_node_index st + 1\<rparr>)))"

definition LiveNodes_GetQueryPlanNodes :: "AlternatorLiveNodes \<Rightarrow> Url list \<times> AlternatorLiveNodes" where
  "LiveNodes_GetQueryPlanNodes st =
     (let candidates = LiveNodes_GetActiveNodes st;
          (try_quarantined, st1) = ShouldTryQuarantinedNode (candidates = []) st
      in if try_quarantined then
           (let (quarantined, st2) = NextQuarantinedNode st1;
                candidates = (if \<not> Url_Empty quarantined then candidates @ [quarantined] else candidates)
            in (SortAndDedupeNodes candidates, st2))
         else (SortAndDedupeNodes candidates, st1))"

text \<open>\<open>std::map<std::int64_t, Url>\<close>: the keys are ordered as signed integers.\<close>

definition RemoveQuarantineHashAssignmentsForNode :: "Url \<Rightarrow> AlternatorLiveNodes \<Rightarrow> AlternatorLiveNodes" where
  "RemoveQuarantineHashAssignmentsForNode node st =
     st\<lparr>ln_quarantine_by_hash := filter (\<lambda>(hash, u). \<not> Url_eq u node) (ln_quarantine_by_hash st)\<rparr>"

definition sticky_new ::
  "i64 \<Rightarrow> Url list \<Rightarrow> AlternatorLiveNodes \<Rightarrow> Url result \<times> AlternatorLiveNodes" where
  "sticky_new hash active_nodes st =
     (let (try_quarantined, st1) = ShouldTryQuarantinedNode (active_nodes = []) st in
      if \<not> try_quarantined then (Inr Url_default, st1)
      else
        (let quarantined_nodes = LiveNodes_GetQuarantinedNodes st1 in
         if quarantined_nodes = [] then (Inr Url_default, st1)
         else
           (let idx = ln_quarantine_node_index st1 mod word_of_nat (length quarantined_nodes);
                st2 = st1\<lparr>ln_quarantine_node_index := ln_quarantine_node_index st1 + 1\<rparr>;
                node = quarantined_nodes ! unat idx
            in case QuarantinedNodeIsFirstForHash node active_nodes hash of
                 Inl e \<Rightarrow> (Inl e, st2)
               | Inr False \<Rightarrow> (Inr Url_default, st2)
               | Inr True \<Rightarrow>
                   (Inr node,
                    st2\<lparr>ln_quarantine_by_hash := map_assign sint hash node (ln_quarantine_by_hash st2)\<rparr>))))"

definition StickyQuarantinedNodeForHash ::
  "i64 \<Rightarrow> Url list \<Rightarrow> AlternatorLiveNodes \<Rightarrow> Url result \<times> AlternatorLiveNodes" where
  "StickyQuarantinedNodeForHash hash active_nodes st =
     (let quarantined_nodes = LiveNodes_GetQuarantinedNodes st;
          erased = st\<lparr>ln_quarantine_by_hash := map_erase sint hash (ln_quarantine_by_hash st)\<rparr>
      in case map_find sint hash (ln_quarantine_by_hash st) of
           Some node \<Rightarrow>
             if node \<in> set quarantined_nodes then
               (case QuarantinedNodeIsFirstForHash node active_nodes hash of
                  Inl e \<Rightarrow> (Inl e, st)
                | Inr False \<Rightarrow> (Inr Url_default, erased)
                | Inr True \<Rightarrow> (Inr node, st))
             else sticky_new hash active_nodes erased
         | None \<Rightarrow> sticky_new hash active_nodes st)"

definition LiveNodes_GetQueryPlanNodesForHash ::
  "i64 \<Rightarrow> AlternatorLiveNodes \<Rightarrow> Url list result \<times> AlternatorLiveNodes" where
  "LiveNodes_GetQueryPlanNodesForHash hash st =
     (let active_nodes = SortAndDedupeNodes (LiveNodes_GetActiveNodes st) in
      case StickyQuarantinedNodeForHash hash active_nodes st of
        (Inl e, st1) \<Rightarrow> (Inl e, st1)
      | (Inr quarantined, st1) \<Rightarrow>
          (let candidates = (if \<not> Url_Empty quarantined then [quarantined] else [])
           in (Inr (AppendUniqueNodes candidates active_nodes), st1)))"

definition LiveNodes_source :: "AlternatorLiveNodes NodesSource" where
  "LiveNodes_source =
     \<lparr>ns_GetActiveNodes = LiveNodes_GetActiveNodes,
      ns_GetQueryPlanNodes = LiveNodes_GetQueryPlanNodes,
      ns_GetQueryPlanNodesForHash = LiveNodes_GetQueryPlanNodesForHash,
      ns_GetDownNodes = LiveNodes_GetDownNodes\<rparr>"

section \<open>Activity and refresh times\<close>

text \<open>The second component tells whether the background thread is notified.\<close>

definition MarkActivity :: "time_point \<Rightarrow> AlternatorLiveNodes \<Rightarrow> AlternatorLiveNodes \<times> bool" where
  "MarkActivity now st0 =
     (let st = st0\<lparr>ln_last_activity := now\<rparr> in
      if 0 < cfg_nodes_list_update_period (ln_config st) then
        (let active_due = now + milliseconds (cfg_nodes_list_update_period (ln_config st)) in
         if active_due < ln_next_update st then (st\<lparr>ln_next_update := active_due\<rparr>, True)
         else if ln_next_update st \<le> now then (st, True)
         else (st, False))
      else (st, False))"

definition RefreshIntervalForNow :: "time_point \<Rightarrow> AlternatorLiveNodes \<Rightarrow> int" where
  "RefreshIntervalForNow now st =
     (let has_activity = ln_last_activity st \<noteq> time_point_min;
          active_enabled = 0 < cfg_nodes_list_update_period (ln_config st);
          idle_enabled = 0 < cfg_idle_nodes_list_update_period (ln_config st);
          recently_active = has_activity \<and>
            (\<not> idle_enabled \<or>
             now - ln_last_activity st < milliseconds (cfg_idle_nodes_list_update_period (ln_config st)))
      in if recently_active \<and> active_enabled then cfg_nodes_list_update_period (ln_config st)
         else if idle_enabled then cfg_idle_nodes_list_update_period (ln_config st)
         else 0)"

definition ScheduleNextRefresh :: "time_point \<Rightarrow> AlternatorLiveNodes \<Rightarrow> AlternatorLiveNodes" where
  "ScheduleNextRefresh now st =
     (let interval = RefreshIntervalForNow now st in
      if interval \<le> 0 then st\<lparr>ln_next_update := time_point_max\<rparr>
      else st\<lparr>ln_next_update := now + milliseconds interval\<rparr>)"

section \<open>Health reports and probes\<close>

definition LiveNodes_ReportNodeResult ::
  "time_point \<Rightarrow> Url \<Rightarrow> NodeHealthObservation \<Rightarrow> AlternatorLiveNodes \<Rightarrow> AlternatorLiveNodes" where
  "LiveNodes_ReportNodeResult now node observation st0 =
     (let st1 = fst (MarkActivity now st0);
          st = st1\<lparr>ln_health_store := NodeHealthStore_ReportNodeResult now node observation (ln_health_store st1)\<rparr>
      in case NodeHealthStore_GetNodeStatus (ln_health_store st) node of
           None \<Rightarrow> RemoveQuarantineHashAssignmentsForNode node st
         | Some status \<Rightarrow>
             if nh_state status \<noteq> Quarantined then RemoveQuarantineHashAssignmentsForNode node st else st)"

definition LiveNodes_probe :: "'w Environment \<Rightarrow> 'w DownProbe" where
  "LiveNodes_probe env node status w =
     (case env_Get env (Url_WithPathAndQuery node ''/localnodes'' []) w of
        (Inr resp, w') \<Rightarrow> (Inr (if 500 \<le> resp_status_code resp then ServerError else Success), w')
      | (Inl Diverges, w') \<Rightarrow> (Inl Diverges, w')
      | (Inl e, w') \<Rightarrow> (Inr ConnectionFailure, w'))"

definition LiveNodes_ProbeDownNodes :: "'w Environment \<Rightarrow> 'w ln_state \<Rightarrow> Url list result \<times> 'w ln_state" where
  "LiveNodes_ProbeDownNodes env s =
     (case s of (st, w) \<Rightarrow>
        (case NodeHealthStore_ProbeDownNodes (env_now env) (Some (LiveNodes_probe env)) (ln_health_store st) w of
           (r, store, w') \<Rightarrow> (r, st\<lparr>ln_health_store := store\<rparr>, w')))"

section \<open>Discovery\<close>

definition GetNodesFromEndpoint ::
  "'w Environment \<Rightarrow> Url \<Rightarrow> 'w ln_state \<Rightarrow> Url list result \<times> 'w ln_state" where
  "GetNodesFromEndpoint env endpoint s =
     (case s of (st, w) \<Rightarrow>
        (case env_Get env endpoint w of
           (Inl e, w') \<Rightarrow> (Inl e, st, w')
         | (Inr resp, w') \<Rightarrow>
             if resp_status_code resp \<noteq> 200 then
               (Inl (Http_Status_Error (''non-200 response from '' @ Url_ToString endpoint) (resp_status_code resp)),
                st, w')
             else
               (case ParseJsonStringArray (resp_body resp) of
                  Inl e \<Rightarrow> (Inl (Invalid_Http_Response (exn_what e)), st, w')
                | Inr nodes \<Rightarrow> (Inr (ToUrls nodes (ln_config st)), st, w'))))"

definition GetDiscoveryNodesForScope ::
  "RoutingScope \<Rightarrow> AlternatorLiveNodes \<Rightarrow> Url list \<times> AlternatorLiveNodes" where
  "GetDiscoveryNodesForScope scope st =
     (if IsCluster scope then (ln_initial_nodes st, st) else LiveNodes_GetQueryPlanNodes st)"

text \<open>
  The \<open>catch\<close> clauses of the discovery loop: what a failed request says about the node. \<open>None\<close> is a
  call that did not return.
\<close>

fun discovery_observation :: "exn \<Rightarrow> NodeHealthObservation option" where
  "discovery_observation (Http_Status_Error message status_code) =
     Some (if 500 \<le> status_code then ServerError else Success)"
| "discovery_observation (Invalid_Http_Response message) = Some Success"
| "discovery_observation Diverges = None"
| "discovery_observation e = Some ConnectionFailure"

function GetNodesForScope_loop ::
  "'w Environment \<Rightarrow> RoutingScope \<Rightarrow> QueryPlan \<Rightarrow> Url list \<Rightarrow> exn option \<Rightarrow> 'w ln_state \<Rightarrow>
   Url list result \<times> 'w ln_state" where
  "GetNodesForScope_loop env scope plan discovered last_error s =
     (case QueryPlan_Next plan of
        Inl e \<Rightarrow> (Inl e, s)
      | Inr (node, plan') \<Rightarrow>
          if Url_Empty node then
            (if discovered \<noteq> [] then (Inr (SortAndDedupeNodes discovered), s)
             else case last_error of Some e \<Rightarrow> (Inl e, s) | None \<Rightarrow> (Inr [], s))
          else
            (case GetNodesFromEndpoint env (Url_WithPathAndQuery node ''/localnodes'' (LocalNodesQuery scope)) s of
               (Inr nodes, s') \<Rightarrow>
                 if nodes = [] then GetNodesForScope_loop env scope plan' discovered last_error s'
                 else if \<not> IsCluster scope then (Inr nodes, s')
                 else GetNodesForScope_loop env scope plan' (discovered @ nodes) last_error s'
             | (Inl e, st', w') \<Rightarrow>
                 (case discovery_observation e of
                    None \<Rightarrow> (Inl e, st', w')
                  | Some observation \<Rightarrow>
                      GetNodesForScope_loop env scope plan' discovered (Some e)
                        (LiveNodes_ReportNodeResult (env_now env w') node observation st', w'))))"
  by pat_completeness auto
termination
  by (relation "measure (\<lambda>(env, scope, plan, d, e, s). length (qp_nodes plan))") (auto dest: Next_shrinks)

declare GetNodesForScope_loop.simps [simp del]

definition GetNodesForScope ::
  "'w Environment \<Rightarrow> RoutingScope \<Rightarrow> 'w ln_state \<Rightarrow> Url list result \<times> 'w ln_state" where
  "GetNodesForScope env scope s =
     (case s of (st, w) \<Rightarrow>
        (case GetDiscoveryNodesForScope scope st of (nodes, st') \<Rightarrow>
           GetNodesForScope_loop env scope (QueryPlan_FromClock (env_seed env w) nodes) [] None (st', w)))"

function FetchLiveNodes_loop ::
  "'w Environment \<Rightarrow> RoutingScope option \<Rightarrow> 'w ln_state \<Rightarrow> Url list result \<times> 'w ln_state" where
  "FetchLiveNodes_loop env scope s =
     (case scope of
        None \<Rightarrow> (Inr [], s)
      | Some scope' \<Rightarrow>
          (case GetNodesForScope env scope' s of
             (Inl e, s') \<Rightarrow> (Inl e, s')
           | (Inr nodes, s') \<Rightarrow>
               if nodes \<noteq> [] then (Inr nodes, s')
               else FetchLiveNodes_loop env (RoutingScope_Fallback scope') s'))"
  by pat_completeness auto
termination
proof (relation "measure (\<lambda>(env, scope, s). case scope of None \<Rightarrow> 0 | Some x \<Rightarrow> Suc (size x))")
  fix env :: "'w Environment" and scope :: "RoutingScope option" and scope' :: RoutingScope
    and s s' :: "'w ln_state"
  assume "scope = Some scope'"
  then show "((env, RoutingScope_Fallback scope', s'), (env, scope, s)) \<in>
      measure (\<lambda>(env, scope, s). case scope of None \<Rightarrow> 0 | Some x \<Rightarrow> Suc (size x))"
    by (auto split: option.splits dest: size_Fallback)
qed auto

declare FetchLiveNodes_loop.simps [simp del]

definition FetchLiveNodes :: "'w Environment \<Rightarrow> 'w ln_state \<Rightarrow> Url list result \<times> 'w ln_state" where
  "FetchLiveNodes env s = FetchLiveNodes_loop env (cfg_routing_scope (ln_config (fst s))) s"

text \<open>The section of \<open>UpdateLiveNodes\<close> under the mutex, and the clean-up after it.\<close>

definition install_nodes :: "time_point \<Rightarrow> Url list \<Rightarrow> AlternatorLiveNodes \<Rightarrow> AlternatorLiveNodes" where
  "install_nodes now new_nodes st =
     (let added = fold (NodeHealthStore_AddNode now) new_nodes (ln_health_store st);
          removed_nodes = filter (\<lambda>node. node \<notin> set new_nodes) (ln_live_nodes st);
          store = fold NodeHealthStore_RemoveNode removed_nodes added;
          st1 = st\<lparr>ln_health_store := store, ln_live_nodes := SortAndDedupeNodes new_nodes\<rparr>
      in fold RemoveQuarantineHashAssignmentsForNode removed_nodes st1)"

definition UpdateLiveNodes :: "'w Environment \<Rightarrow> 'w ln_state \<Rightarrow> unit result \<times> 'w ln_state" where
  "UpdateLiveNodes env s =
     (case FetchLiveNodes env s of
        (Inl e, s') \<Rightarrow> (Inl e, s')
      | (Inr new_nodes, st, w) \<Rightarrow>
          (case LiveNodes_ProbeDownNodes env
              (if new_nodes = [] then st else install_nodes (env_now env w) new_nodes st, w) of
             (Inl e, s') \<Rightarrow> (Inl e, s')
           | (Inr _, s') \<Rightarrow> (Inr (), s')))"

section \<open>Construction and single nodes\<close>

definition LiveNodes_new :: "string list \<Rightarrow> Config \<Rightarrow> time_point \<Rightarrow> AlternatorLiveNodes result" where
  "LiveNodes_new initial_nodes config now =
     rbind (ValidateConfig config) (\<lambda>_.
       if initial_nodes = [] then Inl (Invalid_Argument ''initial_nodes cannot be empty'')
       else
         (let nodes = SortAndDedupeNodes
                (map (\<lambda>node. Url_new (cfg_scheme config) node (cfg_port config)) initial_nodes)
          in Inr \<lparr>ln_config = config, ln_initial_nodes = nodes, ln_live_nodes = nodes,
                  ln_quarantine_by_hash = [],
                  ln_health_store = NodeHealthStore_new now (cfg_node_health config) nodes,
                  ln_next_node_index = 0, ln_quarantine_plan_index = 0, ln_quarantine_node_index = 0,
                  ln_next_update =
                    (if 0 < cfg_idle_nodes_list_update_period config
                     then now + milliseconds (cfg_idle_nodes_list_update_period config)
                     else time_point_max),
                  ln_last_activity = time_point_min\<rparr>))"

definition NextKnownNode :: "AlternatorLiveNodes \<Rightarrow> Url \<times> AlternatorLiveNodes" where
  "NextKnownNode st =
     (let nodes = LiveNodes_GetNodes st in
      if nodes = [] then (Url_default, st)
      else (nodes ! unat (ln_next_node_index st mod word_of_nat (length nodes)),
            st\<lparr>ln_next_node_index := ln_next_node_index st + 1\<rparr>))"

text \<open>The rest of \<open>NextNode\<close> once the active candidates are known.\<close>

definition pick_node :: "Url list \<Rightarrow> AlternatorLiveNodes \<Rightarrow> Url \<times> AlternatorLiveNodes" where
  "pick_node candidates st =
     (let (try_quarantined, st1) = ShouldTryQuarantinedNode (candidates = []) st;
          (quarantined, st2) = (if try_quarantined then NextQuarantinedNode st1 else (Url_default, st1))
      in if \<not> Url_Empty quarantined then (quarantined, st2)
         else if candidates = [] then (Url_default, st2)
         else (candidates ! unat (ln_next_node_index st2 mod word_of_nat (length candidates)),
               st2\<lparr>ln_next_node_index := ln_next_node_index st2 + 1\<rparr>))"

definition NextNode :: "'w Environment \<Rightarrow> 'w ln_state \<Rightarrow> Url result \<times> 'w ln_state" where
  "NextNode env s =
     (case s of (st0, w) \<Rightarrow>
        (let st = fst (MarkActivity (env_now env w) st0);
             candidates = LiveNodes_GetActiveNodes st
         in if candidates = [] then
              (case LiveNodes_ProbeDownNodes env (st, w) of
                 (Inl e, s') \<Rightarrow> (Inl e, s')
               | (Inr _, st', w') \<Rightarrow>
                   (case pick_node (LiveNodes_GetActiveNodes st') st' of (u, st'') \<Rightarrow> (Inr u, st'', w')))
            else (case pick_node candidates st of (u, st'') \<Rightarrow> (Inr u, st'', w))))"

section \<open>Checks of the deployment\<close>

function CheckScopes_loop ::
  "'w Environment \<Rightarrow> RoutingScope option \<Rightarrow> string list \<Rightarrow> 'w ln_state \<Rightarrow> unit result \<times> 'w ln_state" where
  "CheckScopes_loop env scope misses s =
     (case scope of
        None \<Rightarrow>
          if misses \<noteq> [] then
            (Inl (Runtime_Error (fold (\<lambda>miss message. message @ '' '' @ miss) misses ''routing scope has no nodes:'')), s)
          else (Inr (), s)
      | Some scope' \<Rightarrow>
          if IsCluster scope' then (Inr (), s)
          else
            (case GetNodesForScope env scope' s of
               (Inl e, s') \<Rightarrow> (Inl e, s')
             | (Inr nodes, s') \<Rightarrow>
                 if nodes \<noteq> [] then (Inr (), s')
                 else CheckScopes_loop env (RoutingScope_Fallback scope')
                        (misses @ [RoutingScope_ToString scope']) s'))"
  by pat_completeness auto
termination
proof (relation "measure (\<lambda>(env, scope, misses, s). case scope of None \<Rightarrow> 0 | Some x \<Rightarrow> Suc (size x))")
  fix env :: "'w Environment" and scope :: "RoutingScope option" and scope' :: RoutingScope
    and s s' :: "'w ln_state" and misses misses' :: "string list"
  assume "scope = Some scope'"
  then show "((env, RoutingScope_Fallback scope', misses', s'), (env, scope, misses, s)) \<in>
      measure (\<lambda>(env, scope, misses, s). case scope of None \<Rightarrow> 0 | Some x \<Rightarrow> Suc (size x))"
    by (auto split: option.splits dest: size_Fallback)
qed auto

declare CheckScopes_loop.simps [simp del]

definition CheckIfRackAndDatacenterSetCorrectly :: "'w Environment \<Rightarrow> 'w ln_state \<Rightarrow> unit result \<times> 'w ln_state" where
  "CheckIfRackAndDatacenterSetCorrectly env s =
     CheckScopes_loop env (cfg_routing_scope (ln_config (fst s))) [] s"

definition CheckIfRackDatacenterFeatureIsSupported ::
  "'w Environment \<Rightarrow> 'w ln_state \<Rightarrow> bool result \<times> 'w ln_state" where
  "CheckIfRackDatacenterFeatureIsSupported env s =
     (case s of (st0, w) \<Rightarrow>
        (case NextKnownNode st0 of (node, st) \<Rightarrow>
           if Url_Empty node then (Inl (Runtime_Error ''no known nodes are available''), st, w)
           else
             (case GetNodesFromEndpoint env (Url_WithPathAndQuery node ''/localnodes'' ''rack=fakeRack'') (st, w) of
                (Inl e, s1) \<Rightarrow> (Inl e, s1)
              | (Inr hosts_with_fake_rack, s1) \<Rightarrow>
                  (case GetNodesFromEndpoint env (Url_WithPathAndQuery node ''/localnodes'' []) s1 of
                     (Inl e, s2) \<Rightarrow> (Inl e, s2)
                   | (Inr hosts_without_rack, s2) \<Rightarrow>
                       if hosts_without_rack = [] then
                         (Inl (Runtime_Error ''host returned empty /localnodes list''), s2)
                       else (Inr (length hosts_with_fake_rack \<noteq> length hosts_without_rack), s2)))))"

end
