(* ===== verification/Live_Nodes_Correct.thy ===== *)
theory Live_Nodes_Correct
  imports Live_Nodes
begin

text \<open>
  The invariant of \<open>AlternatorLiveNodes\<close> and its properties: the health store tracks exactly the live
  nodes, sticky quarantine assignments point at quarantined nodes only, the routing calls satisfy
  the contract of a source of nodes, and discovery installs what it found.

  \<open>H\<close> is the set of host names the cluster may report. Names that are empty or already in brackets
  are excluded, since two spellings of one address would be two nodes with the same string form.
\<close>

section \<open>The invariant\<close>

definition host_ok :: "string \<Rightarrow> bool" where
  "host_ok h \<longleftrightarrow> h \<noteq> [] \<and> hd h \<noteq> CHR ''[''"

definition hosts_ok :: "string set \<Rightarrow> bool" where
  "hosts_ok H \<longleftrightarrow> finite H \<and> card H < 2 ^ 31 \<and> Ball H host_ok"

definition node_of :: "Config \<Rightarrow> string \<Rightarrow> Url" where
  "node_of config h = Url_new (cfg_scheme config) h (cfg_port config)"

definition nodes_of :: "Config \<Rightarrow> string set \<Rightarrow> Url list \<Rightarrow> bool" where
  "nodes_of config H us \<longleftrightarrow> distinct us \<and> set us \<subseteq> node_of config ` H"

definition env_ok :: "string set \<Rightarrow> 'w Environment \<Rightarrow> bool" where
  "env_ok H env \<longleftrightarrow> (\<forall>u w resp w' xs. env_Get env u w = (Inr resp, w') \<longrightarrow>
     ParseJsonStringArray (resp_body resp) = Inr xs \<longrightarrow> set xs \<subseteq> H)"

definition ln_inv :: "string set \<Rightarrow> AlternatorLiveNodes \<Rightarrow> bool" where
  "ln_inv H st \<longleftrightarrow> hosts_ok H \<and> ValidateConfig (ln_config st) = Inr () \<and>
     nodes_of (ln_config st) H (ln_initial_nodes st) \<and> ln_initial_nodes st \<noteq> [] \<and>
     nodes_of (ln_config st) H (ln_live_nodes st) \<and> ln_live_nodes st \<noteq> [] \<and>
     store_ok (ln_health_store st) \<and>
     nhs_config (ln_health_store st) = NodeHealthStore_normalize (cfg_node_health (ln_config st)) \<and>
     fst ` set (nhs_statuses (ln_health_store st)) = set (ln_live_nodes st) \<and>
     map_invar sint (ln_quarantine_by_hash st) \<and>
     snd ` set (ln_quarantine_by_hash st) \<subseteq> set (LiveNodes_GetQuarantinedNodes st)"

lemma node_of_url: "ValidateConfig config = Inr () \<Longrightarrow> host_ok h \<Longrightarrow> node_url (node_of config h)"
  using ValidateConfig_scheme[of config] by (auto simp: node_of_def node_url_def host_ok_def)

lemma nodes_of_ok:
  assumes "hosts_ok H" "ValidateConfig config = Inr ()" "nodes_of config H us"
  shows "nodes_ok us" "Ball (set us) node_url" "\<forall>u \<in> set us. \<not> Url_Empty u"
proof -
  show n: "Ball (set us) node_url"
    using assms node_of_url by (auto simp: nodes_of_def hosts_ok_def)
  then show "\<forall>u \<in> set us. \<not> Url_Empty u" by auto
  have "length us = card (set us)" using assms(3) by (simp add: nodes_of_def distinct_card)
  also have "\<dots> \<le> card (node_of config ` H)"
    using assms by (intro card_mono) (auto simp: nodes_of_def hosts_ok_def)
  also have "\<dots> \<le> card H" using assms(1) by (intro card_image_le) (simp add: hosts_ok_def)
  finally show "nodes_ok us" using assms(1) n by (simp add: nodes_ok_def hosts_ok_def)
qed

lemma nodes_of_sublist: "nodes_of config H us \<Longrightarrow> distinct vs \<Longrightarrow> set vs \<subseteq> set us \<Longrightarrow> nodes_of config H vs"
  by (auto simp: nodes_of_def)

lemma ln_inv_live:
  assumes "ln_inv H st"
  shows "mset (LiveNodes_GetActiveNodes st) + mset (LiveNodes_GetQuarantinedNodes st) +
      mset (LiveNodes_GetDownNodes st) = mset (ln_live_nodes st)"
proof -
  let ?m = "nhs_statuses (ln_health_store st)"
  have inv: "map_invar Url_ToString ?m" using assms by (simp add: ln_inv_def store_ok_def)
  have "distinct (map fst ?m)" using map_invar_keys_distinct[OF inv] distinct_map by blast
  moreover have "distinct (ln_live_nodes st)" using assms by (simp add: ln_inv_def nodes_of_def)
  moreover have "set (map fst ?m) = set (ln_live_nodes st)" using assms by (simp add: ln_inv_def)
  ultimately have "mset (map fst ?m) = mset (ln_live_nodes st)" using set_eq_iff_mset_eq_distinct by blast
  with node_lists_mset[of "ln_health_store st"] assms show ?thesis
    by (simp add: ln_inv_def LiveNodes_GetActiveNodes_def LiveNodes_GetQuarantinedNodes_def LiveNodes_GetDownNodes_def)
qed

lemma ln_inv_lists:
  assumes "ln_inv H st"
  defines "A \<equiv> LiveNodes_GetActiveNodes st" and "Q \<equiv> LiveNodes_GetQuarantinedNodes st"
  shows "nodes_of (ln_config st) H (A @ Q)" "set A \<inter> set Q = {}" "nodes_ok A" "nodes_ok Q"
    "set A \<union> set Q \<subseteq> set (ln_live_nodes st)"
proof -
  have m: "mset (A @ Q) + mset (LiveNodes_GetDownNodes st) = mset (ln_live_nodes st)"
    using ln_inv_live[OF assms(1)] by (simp add: A_def Q_def)
  have live: "nodes_of (ln_config st) H (ln_live_nodes st)" using assms(1) by (simp add: ln_inv_def)
  have "distinct (A @ Q @ LiveNodes_GetDownNodes st)"
    using m live mset_eq_imp_distinct_iff[of "A @ Q @ LiveNodes_GetDownNodes st" "ln_live_nodes st"]
    by (simp add: nodes_of_def add.assoc)
  then have d: "distinct (A @ Q)" by auto
  have "set_mset (mset (A @ Q)) \<subseteq> set_mset (mset (ln_live_nodes st))"
    unfolding m[symmetric] by simp
  then show s: "set A \<union> set Q \<subseteq> set (ln_live_nodes st)" by simp
  with d live show aq: "nodes_of (ln_config st) H (A @ Q)" by (intro nodes_of_sublist[OF live]) auto
  show "set A \<inter> set Q = {}" using d by simp
  have hv: "hosts_ok H" "ValidateConfig (ln_config st) = Inr ()" using assms(1) by (auto simp: ln_inv_def)
  show "nodes_ok A" "nodes_ok Q"
    using aq by (auto intro!: nodes_of_ok(1)[OF hv] simp: nodes_of_def)
qed

section \<open>Routing calls\<close>

text \<open>Routing calls change only the counters and the sticky assignments.\<close>

definition same_nodes :: "AlternatorLiveNodes \<Rightarrow> AlternatorLiveNodes \<Rightarrow> bool" where
  "same_nodes st st' \<longleftrightarrow> ln_config st' = ln_config st \<and> ln_initial_nodes st' = ln_initial_nodes st \<and>
     ln_live_nodes st' = ln_live_nodes st \<and> ln_health_store st' = ln_health_store st"

lemma same_nodes_refl [simp]: "same_nodes st st"
  by (simp add: same_nodes_def)

lemma same_nodes_trans: "same_nodes a b \<Longrightarrow> same_nodes b c \<Longrightarrow> same_nodes a c"
  by (simp add: same_nodes_def)

lemma same_nodes_lists:
  "same_nodes st st' \<Longrightarrow> LiveNodes_GetActiveNodes st' = LiveNodes_GetActiveNodes st \<and>
     LiveNodes_GetQuarantinedNodes st' = LiveNodes_GetQuarantinedNodes st \<and>
     LiveNodes_GetDownNodes st' = LiveNodes_GetDownNodes st"
  by (simp add: same_nodes_def LiveNodes_GetActiveNodes_def LiveNodes_GetQuarantinedNodes_def
      LiveNodes_GetDownNodes_def)

lemma ln_inv_same_nodes:
  assumes "ln_inv H st" "same_nodes st st'" "map_invar sint (ln_quarantine_by_hash st')"
    and "snd ` set (ln_quarantine_by_hash st') \<subseteq> set (LiveNodes_GetQuarantinedNodes st)"
  shows "ln_inv H st'"
  using assms same_nodes_lists[OF assms(2)] by (simp add: ln_inv_def same_nodes_def)

lemma ShouldTry_frame:
  assumes "ShouldTryQuarantinedNode e st = (b, st')"
  shows "same_nodes st st'" "ln_quarantine_by_hash st' = ln_quarantine_by_hash st"
    "ln_next_node_index st' = ln_next_node_index st" "ln_quarantine_node_index st' = ln_quarantine_node_index st"
    "b \<Longrightarrow> LiveNodes_GetQuarantinedNodes st \<noteq> []"
  using assms by (auto simp: ShouldTryQuarantinedNode_def Let_def same_nodes_def split: if_splits)

lemma index_in_range:
  assumes "nodes_ok us" "us \<noteq> []"
  shows "us ! unat ((i :: u64) mod word_of_nat (length us)) \<in> set us"
    "unat (i mod word_of_nat (length us)) = unat i mod length us"
proof -
  have "length us < 2 ^ 64" using assms(1) by (simp add: nodes_ok_def)
  then have n: "unat (word_of_nat (length us) :: u64) = length us"
    by (simp add: unsigned_of_nat take_bit_nat_eq_self)
  then show m: "unat (i mod word_of_nat (length us)) = unat i mod length us" by (simp add: unat_mod_distrib)
  with assms(2) show "us ! unat (i mod word_of_nat (length us)) \<in> set us" by simp
qed

lemma NextQuarantined_frame:
  assumes "ln_inv H st" "NextQuarantinedNode st = (u, st')"
  shows "same_nodes st st'" "ln_quarantine_by_hash st' = ln_quarantine_by_hash st"
    "ln_next_node_index st' = ln_next_node_index st"
    "if LiveNodes_GetQuarantinedNodes st = [] then u = Url_default
     else u \<in> set (LiveNodes_GetQuarantinedNodes st)"
  using assms(2) index_in_range(1)[OF ln_inv_lists(4)[OF assms(1)]]
  by (auto simp: NextQuarantinedNode_def Let_def same_nodes_def split: if_splits)

lemma GetQueryPlanNodes_frame:
  assumes "ln_inv H st" "LiveNodes_GetQueryPlanNodes st = (us, st')"
  shows "same_nodes st st'" "ln_quarantine_by_hash st' = ln_quarantine_by_hash st"
    "ln_next_node_index st' = ln_next_node_index st"
    "nodes_of (ln_config st) H us" "set (LiveNodes_GetActiveNodes st) \<subseteq> set us"
    "set us \<subseteq> set (LiveNodes_GetActiveNodes st) \<union> set (LiveNodes_GetQuarantinedNodes st)"
proof -
  let ?A = "LiveNodes_GetActiveNodes st" and ?Q = "LiveNodes_GetQuarantinedNodes st"
  obtain b st1 where t: "ShouldTryQuarantinedNode (?A = []) st = (b, st1)"
    by (cases "ShouldTryQuarantinedNode (?A = []) st")
  note f1 = ShouldTry_frame[OF t]
  have inv1: "ln_inv H st1"
    using ln_inv_same_nodes[OF assms(1) f1(1)] assms(1) f1(2) by (simp add: ln_inv_def)
  obtain q st2 where q: "NextQuarantinedNode st1 = (q, st2)" by (cases "NextQuarantinedNode st1")
  note f2 = NextQuarantined_frame[OF inv1 q]
  have "\<exists>cs. us = SortAndDedupeNodes cs \<and> set ?A \<subseteq> set cs \<and> set cs \<subseteq> set ?A \<union> set ?Q \<and>
      same_nodes st st' \<and> ln_quarantine_by_hash st' = ln_quarantine_by_hash st \<and>
      ln_next_node_index st' = ln_next_node_index st"
  proof (cases b)
    case False
    with assms(2) t f1 show ?thesis by (intro exI[of _ ?A]) (auto simp: LiveNodes_GetQueryPlanNodes_def)
  next
    case True
    then have "q \<in> set ?Q" using f1(5) f2(4) same_nodes_lists[OF f1(1)] by simp
    with True assms(2) t q f1 f2 show ?thesis
      by (intro exI[of _ "if \<not> Url_Empty q then ?A @ [q] else ?A"])
        (auto simp: LiveNodes_GetQueryPlanNodes_def intro: same_nodes_trans)
  qed
  then obtain cs where cs: "us = SortAndDedupeNodes cs" "set ?A \<subseteq> set cs" "set cs \<subseteq> set ?A \<union> set ?Q"
    "same_nodes st st'" "ln_quarantine_by_hash st' = ln_quarantine_by_hash st"
    "ln_next_node_index st' = ln_next_node_index st" by blast
  note aq = ln_inv_lists(1)[OF assms(1)]
  have hv: "hosts_ok H" "ValidateConfig (ln_config st) = Inr ()" using assms(1) by (auto simp: ln_inv_def)
  have "Ball (set cs) node_url" using nodes_of_ok(2)[OF hv aq] cs(3) by auto
  with cs show "nodes_of (ln_config st) H us" by (intro nodes_of_sublist[OF aq]) auto
  show "same_nodes st st'" "ln_quarantine_by_hash st' = ln_quarantine_by_hash st"
    "ln_next_node_index st' = ln_next_node_index st" "set ?A \<subseteq> set us" "set us \<subseteq> set ?A \<union> set ?Q"
    using cs by auto
qed

lemma FirstForHash_returns:
  assumes "ln_inv H st" "q \<in> set (LiveNodes_GetQuarantinedNodes st)" "set us = set (LiveNodes_GetActiveNodes st)" "distinct us"
  obtains b where "QuarantinedNodeIsFirstForHash q us h = Inr b"
proof -
  note l = ln_inv_lists[OF assms(1)]
  have hv: "hosts_ok H" "ValidateConfig (ln_config st) = Inr ()" using assms(1) by (auto simp: ln_inv_def)
  have "nodes_of (ln_config st) H (us @ [q])"
    using assms(2-4) l(1,2) by (intro nodes_of_sublist[OF l(1)]) auto
  then have "length (us @ [q]) < 2 ^ 31" using nodes_of_ok(1)[OF hv] unfolding nodes_ok_def by blast
  then obtain u where "FirstNodeWithSeed (us @ [q]) h = Inr u"
    using FirstNodeWithSeed_returns[of "us @ [q]" h] by auto
  then show thesis by (intro that[of "u = q"]) (simp add: QuarantinedNodeIsFirstForHash_def)
qed

text \<open>What a call for a hash returns and leaves behind.\<close>

definition sticky_post :: "i64 \<Rightarrow> AlternatorLiveNodes \<Rightarrow> Url result \<times> AlternatorLiveNodes \<Rightarrow> bool" where
  "sticky_post h st r \<longleftrightarrow> (\<exists>u st'. r = (Inr u, st') \<and> same_nodes st st' \<and>
     ln_next_node_index st' = ln_next_node_index st \<and>
     map_invar sint (ln_quarantine_by_hash st') \<and>
     snd ` set (ln_quarantine_by_hash st') \<subseteq> set (LiveNodes_GetQuarantinedNodes st) \<and>
     (if Url_Empty u then map_find sint h (ln_quarantine_by_hash st') = None
      else u \<in> set (LiveNodes_GetQuarantinedNodes st) \<and>
        map_find sint h (ln_quarantine_by_hash st') = Some u \<and>
        QuarantinedNodeIsFirstForHash u (SortAndDedupeNodes (LiveNodes_GetActiveNodes st)) h = Inr True))"

lemma map_assign_snd: "snd ` set (map_assign key k v m) \<subseteq> insert v (snd ` set m)"
  by (induction m) (auto split: if_splits, force+)

lemma sticky_new_post:
  assumes "ln_inv H st" "map_find sint h (ln_quarantine_by_hash st) = None"
  defines "A \<equiv> SortAndDedupeNodes (LiveNodes_GetActiveNodes st)"
  shows "sticky_post h st (sticky_new h A st)"
proof -
  let ?Q = "LiveNodes_GetQuarantinedNodes st"
  have A: "set A = set (LiveNodes_GetActiveNodes st)" "distinct A"
    using ln_inv_lists(3)[OF assms(1)] by (auto simp: A_def nodes_ok_def)
  obtain b st1 where t: "ShouldTryQuarantinedNode (A = []) st = (b, st1)"
    by (cases "ShouldTryQuarantinedNode (A = []) st")
  note f = ShouldTry_frame[OF t]
  have q: "LiveNodes_GetQuarantinedNodes st1 = ?Q" using same_nodes_lists[OF f(1)] by simp
  have map: "map_invar sint (ln_quarantine_by_hash st)" "snd ` set (ln_quarantine_by_hash st) \<subseteq> set ?Q"
    using assms(1) by (auto simp: ln_inv_def)
  show ?thesis
  proof (cases b)
    case False
    then show ?thesis using t f map assms(2) by (auto simp: sticky_new_def sticky_post_def)
  next
    case True
    then have ne: "?Q \<noteq> []" using f(5) by simp
    define node where "node = ?Q ! unat (ln_quarantine_node_index st1 mod word_of_nat (length ?Q))"
    have node: "node \<in> set ?Q" unfolding node_def using index_in_range(1)[OF ln_inv_lists(4)[OF assms(1)] ne] .
    then have nonempty: "\<not> Url_Empty node" using ln_inv_lists(4)[OF assms(1)] by (auto simp: nodes_ok_def)
    obtain c where c: "QuarantinedNodeIsFirstForHash node A h = Inr c"
      using FirstForHash_returns[OF assms(1) node A] .
    let ?st2 = "st1\<lparr>ln_quarantine_node_index := ln_quarantine_node_index st1 + 1\<rparr>"
    have st2: "same_nodes st ?st2" using f(1) by (simp add: same_nodes_def)
    let ?st3 = "?st2\<lparr>ln_quarantine_by_hash := map_assign sint h node (ln_quarantine_by_hash st)\<rparr>"
    have eq: "sticky_new h A st = (if c then (Inr node, ?st3) else (Inr Url_default, ?st2))"
      using True t q ne c f(2) by (simp add: sticky_new_def Let_def node_def)
    show ?thesis
    proof (cases c)
      case False
      then show ?thesis using eq st2 f map assms(2) by (auto simp: sticky_post_def)
    next
      case True
      have "same_nodes st ?st3" using st2 by (simp add: same_nodes_def)
      moreover have "snd ` set (map_assign sint h node (ln_quarantine_by_hash st)) \<subseteq> set ?Q"
        using map_assign_snd[of sint h node "ln_quarantine_by_hash st"] map(2) node by auto
      ultimately show ?thesis
        using True eq f(3) map(1) node nonempty c unfolding sticky_post_def
        by (intro exI[of _ node] exI[of _ ?st3]) (simp add: map_invar_assign alist_map.find_assign A_def)
    qed
  qed
qed

lemma map_erase_snd: "snd ` set (map_erase key k m) \<subseteq> snd ` set m"
  by (auto simp: map_erase_def)

lemma Sticky_post:
  assumes "ln_inv H st"
  shows "sticky_post h st (StickyQuarantinedNodeForHash h (SortAndDedupeNodes (LiveNodes_GetActiveNodes st)) st)"
proof -
  let ?A = "SortAndDedupeNodes (LiveNodes_GetActiveNodes st)" and ?Q = "LiveNodes_GetQuarantinedNodes st"
  let ?erased = "st\<lparr>ln_quarantine_by_hash := map_erase sint h (ln_quarantine_by_hash st)\<rparr>"
  have A: "set ?A = set (LiveNodes_GetActiveNodes st)" "distinct ?A"
    using ln_inv_lists(3)[OF assms] by (auto simp: nodes_ok_def)
  have map: "map_invar sint (ln_quarantine_by_hash st)" "snd ` set (ln_quarantine_by_hash st) \<subseteq> set ?Q"
    using assms by (auto simp: ln_inv_def)
  have same: "same_nodes st ?erased" by (simp add: same_nodes_def)
  have emap: "map_invar sint (ln_quarantine_by_hash ?erased)" "snd ` set (ln_quarantine_by_hash ?erased) \<subseteq> set ?Q"
    "map_find sint h (ln_quarantine_by_hash ?erased) = None"
    using map map_erase_snd[of sint h "ln_quarantine_by_hash st"]
    by (auto simp: map_invar_erase map_find_erase)
  show ?thesis
  proof (cases "map_find sint h (ln_quarantine_by_hash st)")
    case None
    then show ?thesis using sticky_new_post[OF assms None] by (simp add: StickyQuarantinedNodeForHash_def)
  next
    case (Some node)
    then obtain k where "(k, node) \<in> set (ln_quarantine_by_hash st)" using map(1) by (auto simp: map_find_eq_Some)
    with map(2) have node: "node \<in> set ?Q" by force
    then have nonempty: "\<not> Url_Empty node" using ln_inv_lists(4)[OF assms] by (auto simp: nodes_ok_def)
    obtain c where c: "QuarantinedNodeIsFirstForHash node ?A h = Inr c" using FirstForHash_returns[OF assms node A] .
    then have "StickyQuarantinedNodeForHash h ?A st = (if c then (Inr node, st) else (Inr Url_default, ?erased))"
      using Some node by (simp add: StickyQuarantinedNodeForHash_def)
    then show ?thesis
      using c same map emap Some node nonempty by (auto simp: sticky_post_def)
  qed
qed

lemma AppendUnique: "AppendUniqueNodes out us = AppendMissingNodes out us"
  by (induction us arbitrary: out) auto

lemma ForHash_post:
  assumes "ln_inv H st"
  defines "A \<equiv> SortAndDedupeNodes (LiveNodes_GetActiveNodes st)"
  obtains u st' where "StickyQuarantinedNodeForHash h A st = (Inr u, st')" "sticky_post h st (Inr u, st')"
    "LiveNodes_GetQueryPlanNodesForHash h st = (Inr ((if Url_Empty u then [] else [u]) @ A), st')"
    "ln_inv H st'" "same_nodes st st'" "ln_next_node_index st' = ln_next_node_index st"
    "Url_Empty u \<or> u \<in> set (LiveNodes_GetQuarantinedNodes st)"
proof -
  obtain r where r: "StickyQuarantinedNodeForHash h A st = r" "sticky_post h st r"
    using Sticky_post[OF assms(1)] by (auto simp: A_def)
  then obtain u st' where u: "r = (Inr u, st')" by (auto simp: sticky_post_def)
  with r(2) have p: "same_nodes st st'" "map_invar sint (ln_quarantine_by_hash st')"
    "snd ` set (ln_quarantine_by_hash st') \<subseteq> set (LiveNodes_GetQuarantinedNodes st)"
    "Url_Empty u \<or> u \<in> set (LiveNodes_GetQuarantinedNodes st)" "ln_next_node_index st' = ln_next_node_index st"
    by (auto simp: sticky_post_def split: if_splits)
  have inv: "ln_inv H st'" using ln_inv_same_nodes[OF assms(1) p(1-3)] .
  note l = ln_inv_lists[OF assms(1)]
  have A: "distinct A" "\<forall>v \<in> set A. \<not> Url_Empty v" "set A = set (LiveNodes_GetActiveNodes st)"
    using l(3) by (auto simp: A_def nodes_ok_def)
  then have "AppendUniqueNodes (if Url_Empty u then [] else [u]) A = (if Url_Empty u then [] else [u]) @ A"
    using l(2) p(4) by (auto simp: AppendUnique AppendMissing Dedupe_id filter_id_conv)
  then have q: "LiveNodes_GetQueryPlanNodesForHash h st = (Inr ((if Url_Empty u then [] else [u]) @ A), st')"
    using r(1) u by (cases "Url_Empty u") (simp_all add: LiveNodes_GetQueryPlanNodesForHash_def A_def Let_def)
  show thesis by (rule that[OF _ _ q inv p(1) p(5) p(4)]) (use r u in simp_all)
qed

section \<open>The live nodes as a source of query plans\<close>

interpretation live: nodes_source LiveNodes_source "ln_inv H" "\<lambda>st. set (LiveNodes_GetQuarantinedNodes st)" for H
proof
  fix st
  assume inv: "ln_inv H st"
  note l = ln_inv_lists[OF inv]
  have hv: "hosts_ok H" "ValidateConfig (ln_config st) = Inr ()" using inv by (auto simp: ln_inv_def)
  show "nodes_ok (ns_GetActiveNodes LiveNodes_source st)" using l(3) by (simp add: LiveNodes_source_def)
  show "ln_inv H s' \<and> ns_GetActiveNodes LiveNodes_source s' = ns_GetActiveNodes LiveNodes_source st \<and>
      set (LiveNodes_GetQuarantinedNodes s') = set (LiveNodes_GetQuarantinedNodes st) \<and> nodes_ok us \<and>
      set (ns_GetActiveNodes LiveNodes_source st) \<subseteq> set us \<and>
      set us \<subseteq> set (ns_GetActiveNodes LiveNodes_source st) \<union> set (LiveNodes_GetQuarantinedNodes st)"
    if "ns_GetQueryPlanNodes LiveNodes_source st = (us, s')" for us s'
  proof -
    have q: "LiveNodes_GetQueryPlanNodes st = (us, s')" using that by (simp add: LiveNodes_source_def)
    note f = GetQueryPlanNodes_frame[OF inv q]
    have "ln_inv H s'" using ln_inv_same_nodes[OF inv f(1)] inv f(2) by (simp add: ln_inv_def)
    with f same_nodes_lists[OF f(1)] nodes_of_ok(1)[OF hv f(4)] show ?thesis by (simp add: LiveNodes_source_def)
  qed
  show "\<exists>us s'. ns_GetQueryPlanNodesForHash LiveNodes_source h st = (Inr us, s') \<and> ln_inv H s' \<and>
      ns_GetActiveNodes LiveNodes_source s' = ns_GetActiveNodes LiveNodes_source st \<and>
      set (LiveNodes_GetQuarantinedNodes s') = set (LiveNodes_GetQuarantinedNodes st) \<and> nodes_ok us \<and>
      set (ns_GetActiveNodes LiveNodes_source st) \<subseteq> set us \<and>
      set us \<subseteq> set (ns_GetActiveNodes LiveNodes_source st) \<union> set (LiveNodes_GetQuarantinedNodes st) \<and>
      card (set us - set (ns_GetActiveNodes LiveNodes_source st)) \<le> 1" for h
  proof (rule ForHash_post[OF inv, of h])
    fix u s'
    let ?A = "SortAndDedupeNodes (LiveNodes_GetActiveNodes st)"
    assume q: "LiveNodes_GetQueryPlanNodesForHash h st = (Inr ((if Url_Empty u then [] else [u]) @ ?A), s')"
      and i: "ln_inv H s'" "same_nodes st s'" "Url_Empty u \<or> u \<in> set (LiveNodes_GetQuarantinedNodes st)"
    let ?us = "(if Url_Empty u then [] else [u]) @ ?A"
    have "distinct ?us" "set ?us \<subseteq> set (LiveNodes_GetActiveNodes st @ LiveNodes_GetQuarantinedNodes st)"
      using i(3) l(2,3) by (auto simp: nodes_ok_def)
    then have "nodes_ok ?us" using nodes_of_ok(1)[OF hv nodes_of_sublist[OF l(1)]] by blast
    moreover have "card (set ?us - set (LiveNodes_GetActiveNodes st)) \<le> card {u}"
      by (intro card_mono) auto
    ultimately show ?thesis
      using q i same_nodes_lists[OF i(2)] by (auto simp: LiveNodes_source_def)
  qed
qed

section \<open>Reports, probes and updates keep the invariant\<close>

lemma MarkActivity_frame:
  "same_nodes st (fst (MarkActivity now st))"
  "ln_quarantine_by_hash (fst (MarkActivity now st)) = ln_quarantine_by_hash st"
  "ln_next_node_index (fst (MarkActivity now st)) = ln_next_node_index st"
  "ln_quarantine_plan_index (fst (MarkActivity now st)) = ln_quarantine_plan_index st"
  by (simp_all add: MarkActivity_def Let_def same_nodes_def)

lemma ln_inv_MarkActivity: "ln_inv H st \<Longrightarrow> ln_inv H (fst (MarkActivity now st))"
  by (rule ln_inv_same_nodes[OF _ MarkActivity_frame(1)]) (simp_all add: MarkActivity_frame ln_inv_def)

text \<open>The sticky assignments after a change of the store: all that matters is who stays quarantined.\<close>

lemma quarantined_iff:
  assumes "store_ok (ln_health_store st)" "u \<in> stored (ln_health_store st)"
  shows "u \<in> set (LiveNodes_GetQuarantinedNodes st) \<longleftrightarrow> \<not> nh_disabled (nhs_config (ln_health_store st)) \<and>
    (\<exists>h. node_health (ln_health_store st) u = Some h \<and> health_state h = Quarantined)"
  using stored_status[OF assms, of Quarantined]
  by (simp add: LiveNodes_GetQuarantinedNodes_def NodeHealthStore_GetQuarantinedNodes_def)

lemma quarantined_stored:
  assumes "ln_inv H st" "u \<in> set (LiveNodes_GetQuarantinedNodes st)"
  shows "u \<in> stored (ln_health_store st)"
  using assms ln_inv_lists(5)[OF assms(1)] by (auto simp: ln_inv_def)

lemma ln_inv_node_url: "ln_inv H st \<Longrightarrow> u \<in> stored (ln_health_store st) \<Longrightarrow> node_url u"
  using nodes_of_ok(2)[of H "ln_config st" "ln_live_nodes st"] by (auto simp: ln_inv_def)

lemma Report_unfold:
  "LiveNodes_ReportNodeResult now u obs st =
     (let st1 = fst (MarkActivity now st);
          store = NodeHealthStore_ReportNodeResult now u obs (ln_health_store st);
          keep = (case NodeHealthStore_GetNodeStatus store u of None \<Rightarrow> False | Some s \<Rightarrow> nh_state s = Quarantined)
      in st1\<lparr>ln_health_store := store,
             ln_quarantine_by_hash := filter (\<lambda>(h, v). keep \<or> v \<noteq> u) (ln_quarantine_by_hash st)\<rparr>)"
proof -
  let ?st1 = "fst (MarkActivity now st)"
  have m: "ln_health_store ?st1 = ln_health_store st" "ln_quarantine_by_hash ?st1 = ln_quarantine_by_hash st"
    using MarkActivity_frame[where st = st and now = now] by (simp_all add: same_nodes_def)
  show ?thesis
    by (cases "NodeHealthStore_GetNodeStatus (NodeHealthStore_ReportNodeResult now u obs (ln_health_store st)) u")
      (auto simp: LiveNodes_ReportNodeResult_def RemoveQuarantineHashAssignmentsForNode_def Let_def m
        intro!: AlternatorLiveNodes.equality)
qed

lemma map_invar_filter: "map_invar key m \<Longrightarrow> map_invar key (filter P m)"
  by (induction m) auto

lemma ln_inv_Report:
  assumes "ln_inv H st" "node_url u"
  shows "ln_inv H (LiveNodes_ReportNodeResult now u obs st)"
proof -
  let ?st' = "LiveNodes_ReportNodeResult now u obs st"
  let ?old = "ln_health_store st"
  let ?store = "NodeHealthStore_ReportNodeResult now u obs ?old"
  let ?keep = "case NodeHealthStore_GetNodeStatus ?store u of None \<Rightarrow> False | Some s \<Rightarrow> nh_state s = Quarantined"
  have ok: "store_ok ?old" "store_ok ?store" using assms(1) by (auto simp: ln_inv_def)
  have st': "ln_health_store ?st' = ?store" "ln_config ?st' = ln_config st" "ln_live_nodes ?st' = ln_live_nodes st"
    "ln_initial_nodes ?st' = ln_initial_nodes st"
    "ln_quarantine_by_hash ?st' = filter (\<lambda>(h, v). ?keep \<or> v \<noteq> u) (ln_quarantine_by_hash st)"
    using MarkActivity_frame[where st = st and now = now] by (simp_all add: Report_unfold Let_def same_nodes_def)
  have "v \<in> set (LiveNodes_GetQuarantinedNodes ?st')"
    if v: "v \<in> set (LiveNodes_GetQuarantinedNodes st)" "?keep \<or> v \<noteq> u" for v
  proof -
    have sv: "v \<in> stored ?old" using quarantined_stored[OF assms(1) v(1)] .
    then have nv: "node_url v" using ln_inv_node_url[OF assms(1)] by blast
    obtain h where h: "node_health ?old v = Some h" "health_state h = Quarantined" "\<not> nh_disabled (nhs_config ?old)"
      using quarantined_iff[OF ok(1) sv] v(1) by blast
    have "\<exists>h'. node_health ?store v = Some h' \<and> health_state h' = Quarantined"
    proof (cases "v = u")
      case True
      with v(2) show ?thesis by (auto simp: node_health_def split: option.splits)
    next
      case False
      then have "Url_ToString v \<noteq> Url_ToString u" using nv assms(2) Url_ToString_inject by blast
      with h show ?thesis
        using apply_op_refines[OF ok(1), of "Op_Report now u obs" v] by auto
    qed
    with quarantined_iff[of ?st' v] ok(2) st'(1) sv h(3) show ?thesis by simp
  qed
  moreover have "map_invar sint (ln_quarantine_by_hash ?st')"
    using assms(1) map_invar_filter unfolding st'(5) by (auto simp: ln_inv_def)
  ultimately have "snd ` set (ln_quarantine_by_hash ?st') \<subseteq> set (LiveNodes_GetQuarantinedNodes ?st')"
    "map_invar sint (ln_quarantine_by_hash ?st')"
    using assms(1) unfolding st'(5) by (force simp: ln_inv_def)+
  with assms(1) ok show ?thesis by (simp add: ln_inv_def st'(1-4))
qed

text \<open>A general step: the store changes, the live nodes are those it stores, quarantined nodes that keep
  an assignment stay quarantined.\<close>

lemma ln_inv_change:
  assumes "ln_inv H st" "ln_config st' = ln_config st" "ln_initial_nodes st' = ln_initial_nodes st"
    and "nodes_of (ln_config st) H (ln_live_nodes st')" "ln_live_nodes st' \<noteq> []"
    and "store_ok (ln_health_store st')" "nhs_config (ln_health_store st') = nhs_config (ln_health_store st)"
    and "stored (ln_health_store st') = set (ln_live_nodes st')"
    and "map_invar sint (ln_quarantine_by_hash st')"
    and "\<And>v. v \<in> snd ` set (ln_quarantine_by_hash st') \<Longrightarrow> v \<in> set (LiveNodes_GetQuarantinedNodes st) \<and>
      v \<in> set (ln_live_nodes st') \<and> node_health (ln_health_store st') v = node_health (ln_health_store st) v"
  shows "ln_inv H st'"
proof -
  have "v \<in> set (LiveNodes_GetQuarantinedNodes st')" if "v \<in> snd ` set (ln_quarantine_by_hash st')" for v
  proof -
    note v = assms(10)[OF that]
    have "store_ok (ln_health_store st)" using assms(1) by (simp add: ln_inv_def)
    from quarantined_iff[OF this] quarantined_stored[OF assms(1)] v
    have "\<not> nh_disabled (nhs_config (ln_health_store st)) \<and>
        (\<exists>h. node_health (ln_health_store st) v = Some h \<and> health_state h = Quarantined)" by blast
    moreover have "v \<in> stored (ln_health_store st')" using v assms(8) by simp
    ultimately show ?thesis using quarantined_iff[OF assms(6)] v assms(7) by simp
  qed
  with assms show ?thesis by (auto simp: ln_inv_def)
qed

lemma Down_not_Quarantined:
  assumes "ln_inv H st" "v \<in> set (LiveNodes_GetQuarantinedNodes st)" "d \<in> set (LiveNodes_GetDownNodes st)"
  shows "Url_ToString d \<noteq> Url_ToString v"
proof
  assume eq: "Url_ToString d = Url_ToString v"
  have ok: "store_ok (ln_health_store st)" using assms(1) by (simp add: ln_inv_def)
  have "node_health (ln_health_store st) v = Some HDown"
    using GetDownNodes_health[OF ok] assms(3) node_health_cong[OF eq] unfolding LiveNodes_GetDownNodes_def by metis
  with quarantined_iff[OF ok quarantined_stored[OF assms(1,2)]] assms(2) show False by simp
qed

lemma stored_reports:
  "\<forall>x \<in> set ops. \<exists>t u obs. x = Op_Report t u obs \<Longrightarrow> stored (fold apply_op ops st) = stored st"
proof (induction ops arbitrary: st)
  case (Cons x ops)
  then obtain t u obs where "x = Op_Report t u obs" by auto
  with Cons show ?case by simp
qed simp

lemma Probe_ops:
  assumes "LiveNodes_ProbeDownNodes env (st, w) = (r, st', w')"
  obtains ops where "st' = st\<lparr>ln_health_store := fold apply_op ops (ln_health_store st)\<rparr>"
    "\<forall>x \<in> set ops. \<exists>t u obs. x = Op_Report t u obs \<and> u \<in> set (LiveNodes_GetDownNodes st)"
proof -
  let ?old = "ln_health_store st"
  obtain store where p: "NodeHealthStore_ProbeDownNodes (env_now env) (Some (LiveNodes_probe env)) ?old w = (r, store, w')"
    and st': "st' = st\<lparr>ln_health_store := store\<rparr>"
    using assms by (auto simp: LiveNodes_ProbeDownNodes_def split: prod.splits)
  show thesis
  proof (cases "nh_disabled (nhs_config ?old)")
    case True
    with p st' show thesis by (intro that[of "[]"]) (auto simp: NodeHealthStore_ProbeDownNodes_def)
  next
    case False
    with p have "ProbeDownNodes_loop (env_now env) (LiveNodes_probe env) (LiveNodes_GetDownNodes st) [] ?old w = (r, store, w')"
      by (simp add: NodeHealthStore_ProbeDownNodes_def LiveNodes_GetDownNodes_def)
    from probe_loop_ops[OF this] st' that show thesis by blast
  qed
qed

lemma Probe_health:
  assumes "ln_inv H st" "LiveNodes_ProbeDownNodes env (st, w) = (r, st', w')"
    and "v \<in> set (ln_live_nodes st)" "v \<notin> set (LiveNodes_GetDownNodes st)"
  shows "node_health (ln_health_store st') v = node_health (ln_health_store st) v"
proof -
  obtain ops where ops: "st' = st\<lparr>ln_health_store := fold apply_op ops (ln_health_store st)\<rparr>"
    "\<forall>x \<in> set ops. \<exists>t u obs. x = Op_Report t u obs \<and> u \<in> set (LiveNodes_GetDownNodes st)"
    using Probe_ops[OF assms(2)] .
  have st: "stored (ln_health_store st) = set (ln_live_nodes st)" "store_ok (ln_health_store st)"
    using assms(1) by (auto simp: ln_inv_def)
  have "set (LiveNodes_GetDownNodes st) \<subseteq> set (ln_live_nodes st)"
    using ln_inv_live[OF assms(1)] by (metis Un_iff set_mset_mset set_mset_union subsetI)
  then have "Url_ToString d \<noteq> Url_ToString v" if "d \<in> set (LiveNodes_GetDownNodes st)" for d
    using that assms(3,4) ln_inv_node_url[OF assms(1)] Url_ToString_inject[of d v] unfolding st(1) by blast
  then have "op_key x \<noteq> Url_ToString v" if "x \<in> set ops" for x
    using bspec[OF ops(2) that] by auto
  then have "filter (\<lambda>x. op_key x = Url_ToString v) ops = []" by (simp add: filter_empty_conv)
  with run_ops[OF st(2), of ops v] show ?thesis by (simp add: ops(1))
qed

lemma ln_inv_Probe:
  assumes "ln_inv H st" "LiveNodes_ProbeDownNodes env (st, w) = (r, st', w')"
  shows "ln_inv H st'" "ln_live_nodes st' = ln_live_nodes st"
    "ln_config st' = ln_config st" "ln_initial_nodes st' = ln_initial_nodes st"
    "ln_next_node_index st' = ln_next_node_index st"
proof -
  obtain ops where ops: "st' = st\<lparr>ln_health_store := fold apply_op ops (ln_health_store st)\<rparr>"
    "\<forall>x \<in> set ops. \<exists>t u obs. x = Op_Report t u obs \<and> u \<in> set (LiveNodes_GetDownNodes st)"
    using Probe_ops[OF assms(2)] .
  have reports: "\<forall>x \<in> set ops. \<exists>t u obs. x = Op_Report t u obs" using ops(2) by blast
  have ok: "store_ok (ln_health_store st)" using assms(1) by (simp add: ln_inv_def)
  have "v \<in> set (LiveNodes_GetQuarantinedNodes st) \<Longrightarrow> v \<notin> set (LiveNodes_GetDownNodes st)" for v
    using Down_not_Quarantined[OF assms(1)] by blast
  then have "node_health (ln_health_store st') v = node_health (ln_health_store st) v"
    if "v \<in> set (LiveNodes_GetQuarantinedNodes st)" for v
    using Probe_health[OF assms] that ln_inv_lists(5)[OF assms(1)] by blast
  moreover have "stored (ln_health_store st') = stored (ln_health_store st)"
    using stored_reports[OF reports] by (simp add: ops(1))
  moreover have "store_ok (ln_health_store st')" "nhs_config (ln_health_store st') = nhs_config (ln_health_store st)"
    using run_ops[OF ok, of ops] by (auto simp: ops(1))
  ultimately show "ln_inv H st'"
    using assms(1) ln_inv_lists(5)[OF assms(1)] by (intro ln_inv_change[OF assms(1)]) (auto simp: ln_inv_def ops(1))
  show "ln_live_nodes st' = ln_live_nodes st" "ln_config st' = ln_config st"
    "ln_initial_nodes st' = ln_initial_nodes st" "ln_next_node_index st' = ln_next_node_index st"
    by (simp_all add: ops(1))
qed

lemma fold_Remove_assignments:
  "fold RemoveQuarantineHashAssignmentsForNode us st =
     st\<lparr>ln_quarantine_by_hash := filter (\<lambda>(h, v). v \<notin> set us) (ln_quarantine_by_hash st)\<rparr>"
proof (induction us arbitrary: st)
  case (Cons u us)
  let ?st1 = "RemoveQuarantineHashAssignmentsForNode u st"
  have "fold RemoveQuarantineHashAssignmentsForNode (u # us) st = fold RemoveQuarantineHashAssignmentsForNode us ?st1"
    by simp
  also have "\<dots> = ?st1\<lparr>ln_quarantine_by_hash := filter (\<lambda>(h, v). v \<notin> set us) (ln_quarantine_by_hash ?st1)\<rparr>"
    by (rule Cons)
  also have "\<dots> = st\<lparr>ln_quarantine_by_hash := filter (\<lambda>(h, v). v \<notin> set (u # us)) (ln_quarantine_by_hash st)\<rparr>"
    by (simp add: RemoveQuarantineHashAssignmentsForNode_def case_prod_beta' conj_commute)
  finally show ?case .
qed simp

lemma install_nodes_fields:
  "ln_live_nodes (install_nodes now us st) = SortAndDedupeNodes us"
  "ln_config (install_nodes now us st) = ln_config st" "ln_initial_nodes (install_nodes now us st) = ln_initial_nodes st"
  "ln_quarantine_by_hash (install_nodes now us st) =
     filter (\<lambda>(h, v). v \<notin> set (filter (\<lambda>node. node \<notin> set us) (ln_live_nodes st))) (ln_quarantine_by_hash st)"
  "ln_health_store (install_nodes now us st) =
     fold apply_op (map (Op_Add now) us @ map Op_Remove (filter (\<lambda>node. node \<notin> set us) (ln_live_nodes st))) (ln_health_store st)"
  by (simp_all add: install_nodes_def fold_Remove_assignments Let_def fold_map comp_def cong: fold_cong)

text \<open>What the installation of a list does to the health store.\<close>

lemma install_store:
  fixes now :: time_point
  assumes "ln_inv H st" "nodes_of (ln_config st) H us"
  defines "store \<equiv> ln_health_store (install_nodes now us st)"
  shows "store_ok store" "nhs_config store = nhs_config (ln_health_store st)" "stored store = set us"
    "u \<in> set us \<Longrightarrow> node_health store u =
       (if u \<in> set (ln_live_nodes st) then node_health (ln_health_store st) u else Some (HActive 0))"
proof -
  let ?old = "ln_health_store st" and ?live = "ln_live_nodes st"
  let ?removed = "filter (\<lambda>node. node \<notin> set us) ?live"
  let ?ops = "map (Op_Add now) us @ map Op_Remove ?removed"
  have store: "store = fold apply_op ?ops ?old" unfolding store_def by (rule install_nodes_fields(5))
  have ok: "store_ok ?old" and hv: "hosts_ok H" "ValidateConfig (ln_config st) = Inr ()"
    and live: "nodes_of (ln_config st) H ?live" "stored ?old = set ?live" using assms(1) by (auto simp: ln_inv_def)
  note urls = nodes_of_ok(2)[OF hv live(1)] nodes_of_ok(2)[OF hv assms(2)]
  show "store_ok store" "nhs_config store = nhs_config ?old" using run_ops[OF ok, of ?ops] unfolding store by auto
  have "stored (fold (NodeHealthStore_AddNode now) us ?old) = set us \<union> set ?live"
    using stored_fold_AddNode[of us ?old now] urls live(2) by auto
  then show "stored store = set us"
    using stored_fold_RemoveNode[of ?removed "fold (NodeHealthStore_AddNode now) us ?old"] urls
    unfolding store by (auto simp: fold_map comp_def cong: fold_cong)
  assume u: "u \<in> set us"
  have key: "Url_ToString a = Url_ToString u \<longleftrightarrow> a = u" if "a \<in> set us \<union> set ?live" for a
    using that u urls Url_ToString_inject by blast
  have "filter (\<lambda>x. op_key x = Url_ToString u) (map (Op_Add now) us) = map (Op_Add now) (filter (\<lambda>x. x = u) us)"
    using key by (simp add: filter_map comp_def cong: filter_cong)
  moreover have "filter (\<lambda>x. op_key x = Url_ToString u) (map Op_Remove ?removed) = []"
    using key u by (auto simp: filter_empty_conv)
  ultimately have ops: "filter (\<lambda>x. op_key x = Url_ToString u) ?ops = map (Op_Add now) (filter (\<lambda>x. x = u) us)" by simp
  have "node_health store u = (case node_health ?old u of None \<Rightarrow> Some (HActive 0) | Some h \<Rightarrow> Some h)"
    using run_ops[OF ok, of ?ops u] u unfolding store ops fold_node_op_Add
    by (auto simp: filter_empty_conv split: option.splits)
  moreover have "node_health ?old u = None \<longleftrightarrow> u \<notin> set ?live"
    using stored_find[of u ?old] u urls live(2) by (auto simp: node_health_def NodeHealthStore_GetNodeStatus_def)
  ultimately show "node_health store u = (if u \<in> set ?live then node_health ?old u else Some (HActive 0))"
    by (auto split: option.splits)
qed

lemma ln_inv_install:
  assumes "ln_inv H st" "nodes_of (ln_config st) H us" "us \<noteq> []"
  shows "ln_inv H (install_nodes now us st)"
    "ln_live_nodes (install_nodes now us st) = SortAndDedupeNodes us"
    "stored (ln_health_store (install_nodes now us st)) = set us"
    "u \<in> set us \<Longrightarrow> u \<in> set (ln_live_nodes st) \<Longrightarrow>
       node_health (ln_health_store (install_nodes now us st)) u = node_health (ln_health_store st) u"
    "u \<in> set us \<Longrightarrow> u \<notin> set (ln_live_nodes st) \<Longrightarrow>
       node_health (ln_health_store (install_nodes now us st)) u = Some (HActive 0)"
proof -
  let ?st = "install_nodes now us st"
  note store = install_store[OF assms(1,2), where now = now] and fields = install_nodes_fields[of now us st]
  show "ln_live_nodes ?st = SortAndDedupeNodes us" "stored (ln_health_store ?st) = set us" by (fact fields(1), fact store(3))
  show "node_health (ln_health_store ?st) u = node_health (ln_health_store st) u"
    if "u \<in> set us" "u \<in> set (ln_live_nodes st)" using store(4) that by simp
  show "node_health (ln_health_store ?st) u = Some (HActive 0)"
    if "u \<in> set us" "u \<notin> set (ln_live_nodes st)" using store(4) that by simp
  have "v \<in> set (LiveNodes_GetQuarantinedNodes st) \<and> v \<in> set us \<and>
      node_health (ln_health_store ?st) v = node_health (ln_health_store st) v"
    if "v \<in> snd ` set (ln_quarantine_by_hash ?st)" for v
  proof -
    have v: "v \<in> snd ` set (ln_quarantine_by_hash st)" "v \<in> set (ln_live_nodes st) \<Longrightarrow> v \<in> set us"
      using that unfolding fields(4) by auto
    then have q: "v \<in> set (LiveNodes_GetQuarantinedNodes st)" using assms(1) by (auto simp: ln_inv_def)
    then have "v \<in> set (ln_live_nodes st)" using ln_inv_lists(5)[OF assms(1)] by auto
    with v(2) q store(4) show ?thesis by auto
  qed
  moreover have "map_invar sint (ln_quarantine_by_hash ?st)"
    using assms(1) map_invar_filter unfolding fields(4) by (auto simp: ln_inv_def)
  moreover have "nodes_of (ln_config st) H (SortAndDedupeNodes us)"
    using assms(1,2) nodes_of_ok(2) by (intro nodes_of_sublist[OF assms(2)]) (auto simp: ln_inv_def)
  ultimately show "ln_inv H ?st"
    using assms(3) store(1-3) by (intro ln_inv_change[OF assms(1)]) (auto simp: fields(1-3))
qed

end
