(* ===== verification/Live_Nodes_Discovery.thy ===== *)
theory Live_Nodes_Discovery
  imports Live_Nodes_Correct
begin

text \<open>
  Discovery and the reachable states of \<open>AlternatorLiveNodes\<close>: requests to \<open>/localnodes\<close> over the
  scopes of the configuration, the update of the live nodes, the choice of the next node, and the
  invariant of every state that a sequence of public calls reaches.
\<close>

section \<open>Discovery keeps the invariant\<close>

lemma ToUrls_nodes_of:
  assumes "hosts_ok H" "ValidateConfig config = Inr ()" "set xs \<subseteq> H"
  shows "nodes_of config H (ToUrls xs config)"
proof -
  let ?us = "map (\<lambda>node. Url_new (cfg_scheme config) node (cfg_port config)) xs"
  have "set ?us \<subseteq> node_of config ` H" using assms(3) by (auto simp: node_of_def)
  moreover from this have "Ball (set ?us) node_url"
    using assms(1,2) node_of_url by (auto simp: hosts_ok_def)
  ultimately show ?thesis by (simp add: nodes_of_def ToUrls_def)
qed

lemma endpoint_frame:
  assumes "env_ok H env" "ln_inv H st" "GetNodesFromEndpoint env u (st, w) = (r, st', w')"
  shows "st' = st \<and> (\<forall>us. r = Inr us \<longrightarrow> nodes_of (ln_config st) H us)"
proof -
  have hv: "hosts_ok H" "ValidateConfig (ln_config st) = Inr ()" using assms(2) by (auto simp: ln_inv_def)
  show ?thesis
  proof (cases "env_Get env u w")
    case (Pair q w1)
    then show ?thesis
    proof (cases q)
      case (Inr resp)
      have "set xs \<subseteq> H" if "ParseJsonStringArray (resp_body resp) = Inr xs" for xs
        using assms(1) Pair Inr that unfolding env_ok_def by blast
      with assms(3) Pair Inr hv show ?thesis
        by (auto simp: GetNodesFromEndpoint_def split: if_splits sum.splits intro!: ToUrls_nodes_of)
    qed (use assms(3) in \<open>auto simp: GetNodesFromEndpoint_def\<close>)
  qed
qed

lemma Next_node_url:
  assumes "plan_ok p" "Ball (set (qp_nodes p)) node_url" "QueryPlan_Next p = Inr (u, p')"
  shows "plan_ok p'" "Ball (set (qp_nodes p')) node_url" "\<not> Url_Empty u \<Longrightarrow> node_url u"
proof -
  obtain v q where n: "QueryPlan_Next p = Inr (v, q)" "plan_ok q"
    "if qp_nodes p = [] then v = Url_default \<and> qp_nodes q = []
     else mset (qp_nodes p) = add_mset v (mset (qp_nodes q))" using Next_spec[OF assms(1)] .
  with assms(3) have e: "v = u" "q = p'" by auto
  show "plan_ok p'" using n(2) e by simp
  have s: "qp_nodes p \<noteq> [] \<Longrightarrow> set (qp_nodes p) = insert u (set (qp_nodes p'))"
    using n(3) e by (metis set_mset_add_mset_insert set_mset_mset)
  then show "Ball (set (qp_nodes p')) node_url" using n(3) e assms(2) by (cases "qp_nodes p = []") auto
  show "node_url u" if "\<not> Url_Empty u" using that s n(3) e assms(2) by (cases "qp_nodes p = []") auto
qed

text \<open>What discovery keeps: the invariant and everything but health, activity and counters.\<close>

definition discovery_frame :: "string set \<Rightarrow> AlternatorLiveNodes \<Rightarrow> Url list result \<times> 'w ln_state \<Rightarrow> bool" where
  "discovery_frame H st res \<longleftrightarrow> (case res of (r, st', w') \<Rightarrow> ln_inv H st' \<and>
     ln_config st' = ln_config st \<and> ln_initial_nodes st' = ln_initial_nodes st \<and>
     ln_live_nodes st' = ln_live_nodes st \<and> (\<forall>us. r = Inr us \<longrightarrow> nodes_of (ln_config st) H us))"

lemma Report_frame [simp]:
  "ln_config (LiveNodes_ReportNodeResult now u obs st) = ln_config st"
  "ln_initial_nodes (LiveNodes_ReportNodeResult now u obs st) = ln_initial_nodes st"
  "ln_live_nodes (LiveNodes_ReportNodeResult now u obs st) = ln_live_nodes st"
  using MarkActivity_frame[where st = st and now = now]
  by (simp_all add: Report_unfold Let_def same_nodes_def)

lemma loop_frame:
  assumes "env_ok H env" "ln_inv H (fst s)" "plan_ok plan" "Ball (set (qp_nodes plan)) node_url"
    and "set discovered \<subseteq> node_of (ln_config (fst s)) ` H"
  shows "discovery_frame H (fst s) (GetNodesForScope_loop env scope plan discovered last_error s)"
  using assms
proof (induction env scope plan discovered last_error s rule: GetNodesForScope_loop.induct)
  case (1 env scope plan discovered last_error s)
  obtain st w where s: "s = (st, w)" by (cases s)
  note env = "1.prems"(1) and inv = "1.prems"(2)[unfolded s fst_conv] and dis = "1.prems"(5)[unfolded s fst_conv]
  have hv: "hosts_ok H" "ValidateConfig (ln_config st) = Inr ()" using inv by (auto simp: ln_inv_def)
  obtain u plan' where n: "QueryPlan_Next plan = Inr (u, plan')"
    using Next_spec[OF "1.prems"(3)] by blast
  note nu = Next_node_url[OF "1.prems"(3,4) n]
  show ?case
  proof (cases "Url_Empty u")
    case True
    have "Ball (set discovered) node_url" using dis hv node_of_url by (auto simp: hosts_ok_def)
    then have "nodes_of (ln_config st) H (SortAndDedupeNodes discovered)" using dis by (simp add: nodes_of_def)
    with True n s inv show ?thesis
      by (subst GetNodesForScope_loop.simps) (auto simp: discovery_frame_def nodes_of_def split: option.split)
  next
    case False
    let ?url = "Url_WithPathAndQuery u ''/localnodes'' (LocalNodesQuery scope)"
    obtain r st1 w1 where g: "GetNodesFromEndpoint env ?url s = (r, st1, w1)" by (metis prod_cases3)
    have f: "st1 = st" "\<And>us. r = Inr us \<Longrightarrow> nodes_of (ln_config st) H us"
      using endpoint_frame[OF env inv, of ?url w r st1 w1] g s by auto
    note unfold = GetNodesForScope_loop.simps[of env scope plan discovered last_error s]
    show ?thesis
    proof (cases r)
      case (Inr us)
      have dus: "set (discovered @ us) \<subseteq> node_of (ln_config st) ` H" using dis f(2)[OF Inr] by (auto simp: nodes_of_def)
      have a: "discovery_frame H st (GetNodesForScope_loop env scope plan' discovered last_error (st, w1))"
        if "us = []" using "1.IH"(2)[OF n refl False, of r "(st, w1)" us] that g f Inr env inv nu dis by simp
      have b: "discovery_frame H st (GetNodesForScope_loop env scope plan' (discovered @ us) last_error (st, w1))"
        if "us \<noteq> []" "IsCluster scope"
        using "1.IH"(3)[OF n refl False, of r "(st, w1)" us] that g f Inr env inv nu dus by simp
      show ?thesis
        using a b n False g f Inr inv s unfolding unfold by (auto simp: discovery_frame_def)
    next
      case (Inl e)
      show ?thesis
      proof (cases "discovery_observation e")
        case None
        with n False g f Inl inv s show ?thesis unfolding unfold by (auto simp: discovery_frame_def)
      next
        case (Some obs)
        let ?st2 = "LiveNodes_ReportNodeResult (env_now env w1) u obs st"
        have "ln_inv H ?st2" using ln_inv_Report[OF inv nu(3)[OF False]] .
        then have "discovery_frame H ?st2 (GetNodesForScope_loop env scope plan' discovered (Some e) (?st2, w1))"
          using "1.IH"(1)[OF n refl False, of r "(st, w1)" e st w1 obs] g f Inl Some env nu dis by simp
        with n False g f Inl Some s show ?thesis unfolding unfold by (auto simp: discovery_frame_def)
      qed
    qed
  qed
qed

lemma discovery_nodes:
  assumes "ln_inv H st" "GetDiscoveryNodesForScope scope st = (us, st')"
  shows "ln_inv H st'" "same_nodes st st'" "nodes_of (ln_config st) H us"
proof -
  have "ln_inv H st' \<and> same_nodes st st' \<and> nodes_of (ln_config st) H us"
  proof (cases "IsCluster scope")
    case True
    with assms show ?thesis by (auto simp: GetDiscoveryNodesForScope_def ln_inv_def)
  next
    case False
    with assms(2) have q: "LiveNodes_GetQueryPlanNodes st = (us, st')" by (simp add: GetDiscoveryNodesForScope_def)
    note f = GetQueryPlanNodes_frame[OF assms(1) q]
    have "ln_inv H st'" using ln_inv_same_nodes[OF assms(1) f(1)] assms(1) f(2) by (simp add: ln_inv_def)
    with f show ?thesis by simp
  qed
  then show "ln_inv H st'" "same_nodes st st'" "nodes_of (ln_config st) H us" by auto
qed

lemma plan_over_nodes:
  assumes "ln_inv H st" "nodes_of (ln_config st) H us"
  shows "plan_ok (QueryPlan_FromClock seed us)" "Ball (set (qp_nodes (QueryPlan_FromClock seed us))) node_url"
proof -
  have hv: "hosts_ok H" "ValidateConfig (ln_config st) = Inr ()" using assms(1) by (auto simp: ln_inv_def)
  note n = nodes_of_ok[OF hv assms(2)]
  then have "length us < 2 ^ 31" unfolding nodes_ok_def by blast
  with n show "plan_ok (QueryPlan_FromClock seed us)" "Ball (set (qp_nodes (QueryPlan_FromClock seed us))) node_url"
    unfolding QueryPlan_FromClock_def by (simp_all add: QueryPlan_new_def plan_ok_def)
qed

lemma discovery_frame_trans:
  "same_nodes st st1 \<Longrightarrow> discovery_frame H st1 res \<Longrightarrow> discovery_frame H st res"
  by (auto simp: discovery_frame_def same_nodes_def)

lemma GetNodesForScope_frame:
  assumes "env_ok H env" "ln_inv H (fst s)"
  shows "discovery_frame H (fst s) (GetNodesForScope env scope s)"
proof -
  obtain st w where s: "s = (st, w)" by (cases s)
  obtain us st1 where d: "GetDiscoveryNodesForScope scope st = (us, st1)" by (metis surj_pair)
  have inv: "ln_inv H st" using assms(2) s by simp
  note f = discovery_nodes[OF inv d]
  have "nodes_of (ln_config st1) H us" using f by (simp add: same_nodes_def)
  from loop_frame[OF assms(1), of "(st1, w)", OF _ plan_over_nodes[OF f(1) this], of "[]"]
  show ?thesis
    using f(1) s d by (auto simp: GetNodesForScope_def intro: discovery_frame_trans[OF f(2)])
qed

lemma FetchLiveNodes_loop_frame:
  assumes "env_ok H env" "ln_inv H (fst s)"
  shows "discovery_frame H (fst s) (FetchLiveNodes_loop env scope s)"
  using assms
proof (induction env scope s rule: FetchLiveNodes_loop.induct)
  case (1 env scope s)
  show ?case
  proof (cases scope)
    case None
    with 1 show ?thesis
      by (subst FetchLiveNodes_loop.simps) (auto simp: discovery_frame_def nodes_of_def split: prod.splits)
  next
    case (Some sc)
    obtain r st1 w1 where g: "GetNodesForScope env sc s = (r, st1, w1)" by (metis prod_cases3)
    have f: "discovery_frame H (fst s) (r, st1, w1)" using GetNodesForScope_frame[OF "1.prems"] g by metis
    have ih: "discovery_frame H st1 (FetchLiveNodes_loop env (RoutingScope_Fallback sc) (st1, w1))" if "r = Inr []"
      using "1.IH"[OF Some g[symmetric] that] "1.prems"(1) f by (simp add: discovery_frame_def)
    show ?thesis
    proof (cases "r = Inr []")
      case True
      with f ih[OF True] Some g show ?thesis
        by (subst FetchLiveNodes_loop.simps) (auto simp: discovery_frame_def)
    next
      case False
      with Some g f show ?thesis
        by (subst FetchLiveNodes_loop.simps) (auto split: sum.splits)
    qed
  qed
qed

lemma FetchLiveNodes_frame:
  "env_ok H env \<Longrightarrow> ln_inv H (fst s) \<Longrightarrow> discovery_frame H (fst s) (FetchLiveNodes env s)"
  by (simp add: FetchLiveNodes_def FetchLiveNodes_loop_frame)

end
