(* ===== verification/Live_Nodes_Calls.thy ===== *)
theory Live_Nodes_Calls
  imports Live_Nodes_Discovery
begin

text \<open>
  The public calls of \<open>AlternatorLiveNodes\<close>: construction establishes the invariant \<open>ln_inv\<close>, every
  call keeps it together with the configuration and the initial nodes, and \<open>NextNode\<close> picks from the
  active and quarantined nodes.
\<close>

section \<open>Every public call keeps the invariant\<close>

definition kept :: "string set \<Rightarrow> AlternatorLiveNodes \<Rightarrow> AlternatorLiveNodes \<Rightarrow> bool" where
  "kept H st st' \<longleftrightarrow> ln_inv H st' \<and> ln_config st' = ln_config st \<and> ln_initial_nodes st' = ln_initial_nodes st"

lemma kept_refl [simp]: "ln_inv H st \<Longrightarrow> kept H st st"
  by (simp add: kept_def)

lemma kept_trans [trans]: "kept H a b \<Longrightarrow> kept H b c \<Longrightarrow> kept H a c"
  by (simp add: kept_def)

lemma keptD: "kept H st st' \<Longrightarrow> ln_inv H st'"
  by (simp add: kept_def)

lemma kept_routing:
  assumes "ln_inv H st" "same_nodes st st'" "ln_quarantine_by_hash st' = ln_quarantine_by_hash st"
  shows "kept H st st'"
  using ln_inv_same_nodes[OF assms(1,2)] assms by (simp add: kept_def ln_inv_def same_nodes_def)

lemma kept_Fetch:
  assumes "env_ok H env" "ln_inv H st" "FetchLiveNodes env (st, w) = (r, st', w')"
  shows "kept H st st'" "r = Inr us \<Longrightarrow> nodes_of (ln_config st) H us" "ln_live_nodes st' = ln_live_nodes st"
  using FetchLiveNodes_frame[of H env "(st, w)"] assms by (auto simp: kept_def discovery_frame_def)

lemma kept_install:
  assumes "ln_inv H st" "nodes_of (ln_config st) H us" "us \<noteq> []"
  shows "kept H st (install_nodes now us st)"
  using ln_inv_install(1)[OF assms] by (simp add: kept_def install_nodes_def fold_Remove_assignments Let_def)

lemma kept_Probe: "ln_inv H st \<Longrightarrow> LiveNodes_ProbeDownNodes env (st, w) = (r, st', w') \<Longrightarrow> kept H st st'"
  using ln_inv_Probe[of H st env w r st' w'] by (simp add: kept_def)

lemma kept_MarkActivity: "ln_inv H st \<Longrightarrow> kept H st (fst (MarkActivity now st))"
  by (rule kept_routing) (simp_all add: MarkActivity_frame)

lemma kept_Report: "ln_inv H st \<Longrightarrow> node_url u \<Longrightarrow> kept H st (LiveNodes_ReportNodeResult now u obs st)"
  using ln_inv_Report[of H st u now obs] by (simp add: kept_def)

lemma kept_Schedule: "ln_inv H st \<Longrightarrow> kept H st (ScheduleNextRefresh now st)"
  by (rule kept_routing) (simp_all add: ScheduleNextRefresh_def same_nodes_def Let_def)

lemma kept_PlanNodes: "ln_inv H st \<Longrightarrow> LiveNodes_GetQueryPlanNodes st = (us, st') \<Longrightarrow> kept H st st'"
  using GetQueryPlanNodes_frame[of H st us st'] kept_routing by blast

lemma kept_ForHash: "ln_inv H st \<Longrightarrow> LiveNodes_GetQueryPlanNodesForHash h st = (r, st') \<Longrightarrow> kept H st st'"
  by (rule ForHash_post[of H st h]) (auto simp: kept_def same_nodes_def)

text \<open>The node that \<open>NextNode\<close> picks, and what it leaves.\<close>

lemma pick_node_post:
  assumes "ln_inv H st" "pick_node (LiveNodes_GetActiveNodes st) st = (u, st')"
  shows "kept H st st'" "same_nodes st st'"
    "if LiveNodes_GetActiveNodes st = [] \<and> LiveNodes_GetQuarantinedNodes st = [] then u = Url_default
     else u \<in> set (LiveNodes_GetActiveNodes st) \<union> set (LiveNodes_GetQuarantinedNodes st)"
proof -
  let ?A = "LiveNodes_GetActiveNodes st" and ?Q = "LiveNodes_GetQuarantinedNodes st"
  obtain b st1 where t: "ShouldTryQuarantinedNode (?A = []) st = (b, st1)" by (metis surj_pair)
  note f1 = ShouldTry_frame[OF t]
  have k1: "kept H st st1" using kept_routing[OF assms(1) f1(1,2)] .
  obtain q st2 where q: "NextQuarantinedNode st1 = (q, st2)" by (metis surj_pair)
  note f2 = NextQuarantined_frame[OF keptD[OF k1] q]
  have lists: "LiveNodes_GetQuarantinedNodes st1 = ?Q" using same_nodes_lists[OF f1(1)] by simp
  have ne: "\<not> Url_Empty v" if "v \<in> set ?Q" for v using ln_inv_lists(4)[OF assms(1)] that by (auto simp: nodes_ok_def)
  note idx = index_in_range(1)[OF ln_inv_lists(3)[OF assms(1)]]
  have "same_nodes st st' \<and> ln_quarantine_by_hash st' = ln_quarantine_by_hash st \<and>
      (if ?A = [] \<and> ?Q = [] then u = Url_default else u \<in> set ?A \<union> set ?Q)"
  proof (cases b)
    case True
    then have "?Q \<noteq> []" using f1(5) by simp
    then have "q \<in> set ?Q" using f2(4) lists by simp
    with True t q ne assms(2) f1 f2 \<open>?Q \<noteq> []\<close> show ?thesis
      by (auto simp: pick_node_def intro: same_nodes_trans)
  next
    case False
    then have "?A = [] \<Longrightarrow> ?Q = []" using t by (auto simp: ShouldTryQuarantinedNode_def split: if_splits)
    with False t assms(2) f1 idx show ?thesis
      by (auto simp: pick_node_def Let_def same_nodes_def split: if_splits)
  qed
  with kept_routing[OF assms(1)] show "kept H st st'" "same_nodes st st'"
    "if ?A = [] \<and> ?Q = [] then u = Url_default else u \<in> set ?A \<union> set ?Q" by auto
qed

lemma kept_NextNode:
  assumes "ln_inv H st" "NextNode env (st, w) = (r, st', w')"
  shows "kept H st st'"
proof -
  let ?st0 = "fst (MarkActivity (env_now env w) st)"
  note k0 = kept_MarkActivity[OF assms(1), of "env_now env w"]
  obtain q st1 w1 where p: "LiveNodes_ProbeDownNodes env (?st0, w) = (q, st1, w1)" by (metis prod_cases3)
  have k1: "kept H st st1" using kept_trans[OF k0 kept_Probe[OF keptD[OF k0] p]] .
  note pick0 = pick_node_post(1)[OF keptD[OF k0]] and pick1 = pick_node_post(1)[OF keptD[OF k1]]
  show ?thesis
    using assms(2) p k1 kept_trans[OF k0 pick0] kept_trans[OF k1 pick1]
    by (auto simp: NextNode_def Let_def split: if_splits sum.splits prod.splits)
qed

lemma kept_Update:
  assumes "env_ok H env" "ln_inv H st" "UpdateLiveNodes env (st, w) = (r, st', w')"
  shows "kept H st st'"
proof -
  obtain q st1 w1 where f: "FetchLiveNodes env (st, w) = (q, st1, w1)" by (metis prod_cases3)
  note k = kept_Fetch[OF assms(1,2) f]
  show ?thesis
  proof (cases q)
    case (Inl e)
    with assms(3) f k(1) show ?thesis by (simp add: UpdateLiveNodes_def)
  next
    case (Inr us)
    let ?st2 = "if us = [] then st1 else install_nodes (env_now env w1) us st1"
    have "nodes_of (ln_config st1) H us" using k(1) k(2)[OF Inr] by (simp add: kept_def)
    then have k2: "kept H st ?st2" using k(1) kept_install[OF keptD[OF k(1)]] kept_trans by (auto simp: kept_def)
    obtain p st3 w3 where p: "LiveNodes_ProbeDownNodes env (?st2, w1) = (p, st3, w3)" by (metis prod_cases3)
    with assms(3) f Inr have "st' = st3" by (auto simp: UpdateLiveNodes_def split: sum.splits)
    with kept_trans[OF k2 kept_Probe[OF keptD[OF k2] p]] show ?thesis by simp
  qed
qed

lemma kept_GetNodesForScope:
  assumes "env_ok H env" "ln_inv H (fst s)" "GetNodesForScope env scope s = (r, s')"
  shows "kept H (fst s) (fst s')"
  using GetNodesForScope_frame[OF assms(1,2), of scope] assms(3) by (cases s') (auto simp: discovery_frame_def kept_def)

lemma kept_CheckScopes:
  assumes "env_ok H env" "ln_inv H (fst s)" "CheckScopes_loop env scope misses s = (r, s')"
  shows "kept H (fst s) (fst s')"
  using assms
proof (induction env scope misses s rule: CheckScopes_loop.induct)
  case (1 env scope misses s)
  show ?case
  proof (cases "\<exists>sc. scope = Some sc \<and> \<not> IsCluster sc")
    case False
    with 1 show ?thesis by (auto simp: CheckScopes_loop.simps[of env scope] split: option.splits if_splits)
  next
    case True
    then obtain sc where sc: "scope = Some sc" "\<not> IsCluster sc" by blast
    obtain q s1 where g: "GetNodesForScope env sc s = (q, s1)" by (metis surj_pair)
    note k = kept_GetNodesForScope[OF "1.prems"(1,2) g]
    show ?thesis
    proof (cases "q = Inr []")
      case True
      with "1.prems"(3) sc g have "CheckScopes_loop env (RoutingScope_Fallback sc) (misses @ [RoutingScope_ToString sc]) s1 = (r, s')"
        by (subst (asm) CheckScopes_loop.simps) simp
      from "1.IH"[OF sc g[symmetric] True _ "1.prems"(1) keptD[OF k] this] k kept_trans show ?thesis by blast
    next
      case False
      with "1.prems"(3) sc g k show ?thesis by (subst (asm) CheckScopes_loop.simps) (auto split: sum.splits if_splits)
    qed
  qed
qed

lemma kept_NextKnown: "ln_inv H st \<Longrightarrow> NextKnownNode st = (u, st') \<Longrightarrow> kept H st st'"
  by (rule kept_routing) (auto simp: NextKnownNode_def same_nodes_def Let_def split: if_splits)

lemma endpoint_state: "GetNodesFromEndpoint env u (st, w) = (r, st', w') \<Longrightarrow> st' = st"
  by (auto simp: GetNodesFromEndpoint_def split: prod.splits sum.splits if_splits)

lemma kept_CheckFeature:
  assumes "ln_inv H st" "CheckIfRackDatacenterFeatureIsSupported env (st, w) = (r, st', w')"
  shows "kept H st st'"
proof -
  obtain u st1 where n: "NextKnownNode st = (u, st1)" by (metis surj_pair)
  have "st' = st1"
    using assms(2) n
    by (auto simp: CheckIfRackDatacenterFeatureIsSupported_def split: prod.splits sum.splits if_splits dest!: endpoint_state)
  with kept_NextKnown[OF assms(1) n] show ?thesis by simp
qed

text \<open>Construction establishes the invariant.\<close>

lemma LiveNodes_new_fields:
  assumes "LiveNodes_new hosts config now = Inr st"
  shows "ValidateConfig config = Inr ()" "hosts \<noteq> []" "ln_config st = config"
    "ln_initial_nodes st = ToUrls hosts config" "ln_live_nodes st = ToUrls hosts config"
    "ln_health_store st = NodeHealthStore_new now (cfg_node_health config) (ToUrls hosts config)"
    "ln_quarantine_by_hash st = []" "ln_next_node_index st = 0" "ln_quarantine_plan_index st = 0"
    "ln_quarantine_node_index st = 0" "ln_last_activity st = time_point_min"
    "ln_next_update st = (if 0 < cfg_idle_nodes_list_update_period config
       then now + milliseconds (cfg_idle_nodes_list_update_period config) else time_point_max)"
  using assms by (auto simp: LiveNodes_new_def ToUrls_def Let_def result_simps split: if_splits)

lemma LiveNodes_new_returns:
  "ValidateConfig config = Inr () \<Longrightarrow> hosts \<noteq> [] \<Longrightarrow> \<exists>st. LiveNodes_new hosts config now = Inr st"
  by (simp add: LiveNodes_new_def Let_def)

lemma LiveNodes_new_inv:
  assumes "hosts_ok H" "set hosts \<subseteq> H" "LiveNodes_new hosts config now = Inr st"
  shows "ln_inv H st" "ln_config st = config"
    "set (ln_live_nodes st) = node_of config ` set hosts" "ln_live_nodes st = ln_initial_nodes st"
proof -
  let ?us = "ToUrls hosts config"
  note st = LiveNodes_new_fields[OF assms(3)]
  note v = st(1) and ne = st(2)
  have us: "nodes_of config H ?us" using ToUrls_nodes_of[OF assms(1) v assms(2)] .
  have urls: "Ball (set (map (\<lambda>node. Url_new (cfg_scheme config) node (cfg_port config)) hosts)) node_url"
    using node_of_url[OF v] assms(1,2) by (auto simp: hosts_ok_def node_of_def)
  then have set_us: "set ?us = node_of config ` set hosts" by (auto simp: ToUrls_def node_of_def)
  then have "?us \<noteq> []" using ne by auto
  moreover have "stored (NodeHealthStore_new now (cfg_node_health config) ?us) = set ?us"
    using stored_new nodes_of_ok(2)[OF assms(1) v us] by blast
  ultimately show "ln_inv H st" using assms(1) v us by (simp add: ln_inv_def st)
  show "ln_config st = config" "set (ln_live_nodes st) = node_of config ` set hosts" "ln_live_nodes st = ln_initial_nodes st"
    using st set_us by simp_all
qed

end
