(* ===== verification/Live_Nodes_Thread.thy ===== *)
theory Live_Nodes_Thread
  imports Live_Nodes_Calls
begin

text \<open>
  The background thread of \<open>AlternatorLiveNodes\<close> (\<open>Start\<close>, \<open>Stop\<close>, \<open>BackgroundLoop\<close> of
  \<open>src/src/live_nodes.cpp\<close>) and the system of client calls, clock and thread as a step relation.

  The loop is cut at the points where it gives up \<open>background_mutex_\<close>: the test of \<open>stopping_\<close> with the
  computation of the wake-up time, the wait on the condition variable, and the refresh and probe it
  runs unlocked. A call on the object and the work of one round are single steps; between them the
  steps of the parts interleave in any order.
\<close>

section \<open>The loop\<close>

text \<open>Where the thread is. The wait is with a deadline, or until \<open>stopping_\<close> holds.\<close>

datatype LoopPoint =
    Loop_Absent
  | Loop_Spawned
  | Loop_Test
  | Loop_Wait "time_point option"
  | Loop_Work bool bool
  | Loop_Done

record Background =
  bg_started :: bool
  bg_stopping :: bool
  bg_next_down_probe :: time_point
  bg_point :: LoopPoint

definition Background_initial :: Background where
  "Background_initial =
     \<lparr>bg_started = False, bg_stopping = False, bg_next_down_probe = 0, bg_point = Loop_Absent\<rparr>"

definition probe_period :: "AlternatorLiveNodes \<Rightarrow> int" where
  "probe_period st = down_node_probe_period (cfg_node_health (ln_config st))"

definition LiveNodes_Start :: "Background \<Rightarrow> Background" where
  "LiveNodes_Start bg =
     (if bg_started bg then bg
      else bg\<lparr>bg_stopping := False, bg_started := True, bg_point := Loop_Spawned\<rparr>)"

text \<open>\<open>Stop\<close> up to the join, and after the thread has ended.\<close>

definition LiveNodes_Stop_request :: "Background \<Rightarrow> Background" where
  "LiveNodes_Stop_request bg = (if \<not> bg_started bg then bg else bg\<lparr>bg_stopping := True\<rparr>)"

definition LiveNodes_Stop_finish :: "Background \<Rightarrow> Background" where
  "LiveNodes_Stop_finish bg = bg\<lparr>bg_started := False, bg_stopping := False, bg_point := Loop_Absent\<rparr>"

definition BackgroundLoop_begin :: "time_point \<Rightarrow> AlternatorLiveNodes \<Rightarrow> time_point" where
  "BackgroundLoop_begin now st = now + milliseconds (probe_period st)"

text \<open>What the loop waits for: \<open>None\<close> is the wait for \<open>stopping_\<close> alone.\<close>

definition BackgroundLoop_wake_at :: "AlternatorLiveNodes \<Rightarrow> time_point \<Rightarrow> time_point option" where
  "BackgroundLoop_wake_at st next_down_probe =
     (let probe_enabled = 0 < probe_period st;
          next_update = ln_next_update st;
          refresh_enabled = next_update \<noteq> time_point_max;
          wake_at = (if refresh_enabled then next_update else next_down_probe)
      in if \<not> refresh_enabled \<and> \<not> probe_enabled then None
         else if probe_enabled \<and> (\<not> refresh_enabled \<or> next_down_probe < wake_at) then Some next_down_probe
         else Some wake_at)"

text \<open>After a timeout: whether to update and to probe, with the new schedule.\<close>

definition BackgroundLoop_due ::
  "time_point \<Rightarrow> AlternatorLiveNodes \<Rightarrow> time_point \<Rightarrow> bool \<times> bool \<times> AlternatorLiveNodes \<times> time_point" where
  "BackgroundLoop_due now st next_down_probe =
     (let should_update = (ln_next_update st \<noteq> time_point_max \<and> ln_next_update st \<le> now);
          should_probe_down = (0 < probe_period st \<and> next_down_probe \<le> now)
      in (should_update, should_probe_down,
          if should_update then ScheduleNextRefresh now st else st,
          if should_probe_down then now + milliseconds (probe_period st) else next_down_probe))"

text \<open>The unlocked work. Every exception is swallowed; one from the update skips the probe.\<close>

definition BackgroundLoop_work ::
  "'w Environment \<Rightarrow> bool \<Rightarrow> bool \<Rightarrow> 'w ln_state \<Rightarrow> unit result \<times> 'w ln_state" where
  "BackgroundLoop_work env should_update should_probe_down s =
     (case (if should_update then UpdateLiveNodes env s else (Inr (), s)) of
        (Inl Diverges, s') \<Rightarrow> (Inl Diverges, s')
      | (Inl e, s') \<Rightarrow> (Inr (), s')
      | (Inr _, s') \<Rightarrow>
          if should_probe_down then
            (case LiveNodes_ProbeDownNodes env s' of
               (Inl Diverges, s'') \<Rightarrow> (Inl Diverges, s'')
             | (_, s'') \<Rightarrow> (Inr (), s''))
          else (Inr (), s'))"

section \<open>Steps of the system\<close>

type_synonym 'w sys = "Background \<times> 'w ln_state"

inductive thread_step :: "'w Environment \<Rightarrow> 'w sys \<Rightarrow> 'w sys \<Rightarrow> bool" for env where
  spawned: "bg_point bg = Loop_Spawned \<Longrightarrow>
    thread_step env (bg, st, w)
      (bg\<lparr>bg_next_down_probe := BackgroundLoop_begin (env_now env w) st, bg_point := Loop_Test\<rparr>, st, w)"
| leave: "bg_point bg = Loop_Test \<Longrightarrow> bg_stopping bg \<Longrightarrow>
    thread_step env (bg, s) (bg\<lparr>bg_point := Loop_Done\<rparr>, s)"
| sleep: "bg_point bg = Loop_Test \<Longrightarrow> \<not> bg_stopping bg \<Longrightarrow>
    thread_step env (bg, st, w)
      (bg\<lparr>bg_point := Loop_Wait (BackgroundLoop_wake_at st (bg_next_down_probe bg))\<rparr>, st, w)"
| stopped: "bg_point bg = Loop_Wait None \<Longrightarrow> bg_stopping bg \<Longrightarrow>
    thread_step env (bg, s) (bg\<lparr>bg_point := Loop_Test\<rparr>, s)"
| notified: "bg_point bg = Loop_Wait (Some t) \<Longrightarrow>
    thread_step env (bg, s) (bg\<lparr>bg_point := Loop_Test\<rparr>, s)"
| timeout: "bg_point bg = Loop_Wait (Some t) \<Longrightarrow> t \<le> env_now env w \<Longrightarrow> \<not> bg_stopping bg \<Longrightarrow>
    BackgroundLoop_due (env_now env w) st (bg_next_down_probe bg) = (upd, prb, st', next_probe) \<Longrightarrow>
    thread_step env (bg, st, w)
      (bg\<lparr>bg_next_down_probe := next_probe, bg_point := Loop_Work upd prb\<rparr>, st', w)"
| work: "bg_point bg = Loop_Work upd prb \<Longrightarrow> BackgroundLoop_work env upd prb s = (Inr (), s') \<Longrightarrow>
    thread_step env (bg, s) (bg\<lparr>bg_point := Loop_Test\<rparr>, s')"

text \<open>Calls of the application on the object. Reports name URLs in the form the library hands out.\<close>

inductive client_step :: "'w Environment \<Rightarrow> 'w ln_state \<Rightarrow> 'w ln_state \<Rightarrow> bool" for env where
  next_node: "NextNode env s = (r, s') \<Longrightarrow> client_step env s s'"
| plan_nodes: "LiveNodes_GetQueryPlanNodes st = (us, st') \<Longrightarrow> client_step env (st, w) (st', w)"
| hash_nodes: "LiveNodes_GetQueryPlanNodesForHash h st = (r, st') \<Longrightarrow> client_step env (st, w) (st', w)"
| report: "node_url u \<Longrightarrow>
    client_step env (st, w) (LiveNodes_ReportNodeResult (env_now env w) u obs st, w)"
| probe: "LiveNodes_ProbeDownNodes env s = (r, s') \<Longrightarrow> client_step env s s'"
| update: "UpdateLiveNodes env s = (r, s') \<Longrightarrow> client_step env s s'"
| check_scopes: "CheckIfRackAndDatacenterSetCorrectly env s = (r, s') \<Longrightarrow> client_step env s s'"
| check_feature: "CheckIfRackDatacenterFeatureIsSupported env s = (r', s') \<Longrightarrow> client_step env s s'"

datatype action = Act_Client | Act_Tick | Act_Start | Act_Stop | Act_Join | Act_Thread

inductive sys_step :: "'w Environment \<Rightarrow> action \<Rightarrow> 'w sys \<Rightarrow> 'w sys \<Rightarrow> bool" for env where
  client: "client_step env s s' \<Longrightarrow> sys_step env Act_Client (bg, s) (bg, s')"
| tick: "env_now env w \<le> env_now env w' \<Longrightarrow> sys_step env Act_Tick (bg, st, w) (bg, st, w')"
| start: "sys_step env Act_Start (bg, s) (LiveNodes_Start bg, s)"
| stop: "sys_step env Act_Stop (bg, s) (LiveNodes_Stop_request bg, s)"
| join: "bg_started bg \<Longrightarrow> bg_stopping bg \<Longrightarrow> bg_point bg = Loop_Done \<Longrightarrow>
    sys_step env Act_Join (bg, s) (LiveNodes_Stop_finish bg, s)"
| thread: "thread_step env x y \<Longrightarrow> sys_step env Act_Thread x y"

inductive sys_trace :: "'w Environment \<Rightarrow> action list \<Rightarrow> 'w sys \<Rightarrow> 'w sys \<Rightarrow> bool" for env where
  trace_nil: "sys_trace env [] x x"
| trace_snoc: "sys_trace env as x y \<Longrightarrow> sys_step env a y z \<Longrightarrow> sys_trace env (as @ [a]) x z"

inductive_simps thread_step_iff: "thread_step env (bg, s) y"
inductive_simps sys_step_iff: "sys_step env a (bg, s) y"

section \<open>Reachable states\<close>

lemma kept_client_step:
  assumes "env_ok H env" "client_step env (st, w) (st', w')" "ln_inv H st"
  shows "kept H st st'"
  using assms(2)
proof (cases rule: client_step.cases)
  case (update r)
  then show ?thesis using kept_Update[OF assms(1,3)] by blast
next
  case (check_scopes r)
  then show ?thesis using kept_CheckScopes[OF assms(1), of "(st, w)" _ _ r "(st', w')"] assms(3)
    by (auto simp: CheckIfRackAndDatacenterSetCorrectly_def)
qed (use assms(3) in \<open>auto intro: kept_NextNode kept_PlanNodes kept_ForHash kept_Report kept_Probe kept_CheckFeature\<close>)

lemma kept_work:
  assumes "env_ok H env" "ln_inv H st" "BackgroundLoop_work env upd prb (st, w) = (r, st', w')"
  shows "kept H st st'"
proof -
  obtain q st1 w1 where u: "(if upd then UpdateLiveNodes env (st, w) else (Inr (), st, w)) = (q, st1, w1)"
    by (metis prod_cases3)
  then have k1: "kept H st st1" using kept_Update[OF assms(1,2)] assms(2) by (auto split: if_splits)
  obtain p st2 w2 where p: "LiveNodes_ProbeDownNodes env (st1, w1) = (p, st2, w2)" by (metis prod_cases3)
  note k2 = kept_trans[OF k1 kept_Probe[OF keptD[OF k1] p]]
  show ?thesis
    using assms(3) p k1 k2 unfolding BackgroundLoop_work_def u
    by (auto split: sum.splits exn.splits if_splits)
qed

lemma kept_thread_step:
  assumes "env_ok H env" "thread_step env (bg, st, w) (bg', st', w')" "ln_inv H st"
  shows "kept H st st'"
  using assms(2)
proof (cases rule: thread_step.cases)
  case timeout
  then show ?thesis using assms(3) kept_Schedule
    by (auto simp: BackgroundLoop_due_def Let_def split: if_splits)
next
  case work
  then show ?thesis using kept_work[OF assms(1,3)] by auto
qed (use assms(3) in auto)

lemma kept_sys_step:
  assumes "env_ok H env" "sys_step env a (bg, st, w) (bg', st', w')" "ln_inv H st"
  shows "kept H st st'"
  using assms(2)
proof (cases rule: sys_step.cases)
  case client
  then show ?thesis using kept_client_step[OF assms(1) _ assms(3)] by auto
next
  case thread
  then show ?thesis using kept_thread_step[OF assms(1) _ assms(3)] by auto
qed (use assms(3) in auto)

lemma kept_sys_trace:
  assumes "sys_trace env as x y" "env_ok H env" "ln_inv H (fst (snd x))"
  shows "kept H (fst (snd x)) (fst (snd y))"
  using assms
proof (induction rule: sys_trace.induct)
  case (trace_snoc as x y a z)
  then have k: "kept H (fst (snd x)) (fst (snd y))" by simp
  with kept_sys_step[OF trace_snoc.prems(1), of a "fst y" "fst (snd y)" "snd (snd y)" "fst z" "fst (snd z)" "snd (snd z)"]
    trace_snoc.hyps keptD[OF k] kept_trans[OF k] show ?case by simp
qed simp

section \<open>The thread\<close>

text \<open>The thread exists exactly while the object is started; \<open>stopping_\<close> is set only then.\<close>

definition bg_inv :: "Background \<Rightarrow> bool" where
  "bg_inv bg \<longleftrightarrow> (bg_started bg \<longleftrightarrow> bg_point bg \<noteq> Loop_Absent) \<and> (bg_stopping bg \<longrightarrow> bg_started bg)
     \<and> (bg_point bg = Loop_Done \<longrightarrow> bg_stopping bg)"

lemma bg_inv_step: "sys_step env a x y \<Longrightarrow> bg_inv (fst x) \<Longrightarrow> bg_inv (fst y)"
  by (induction rule: sys_step.induct)
    (auto simp: bg_inv_def LiveNodes_Start_def LiveNodes_Stop_request_def LiveNodes_Stop_finish_def elim!: thread_step.cases)

lemma bg_inv_trace: "sys_trace env as x y \<Longrightarrow> bg_inv (fst x) \<Longrightarrow> bg_inv (fst y)"
  by (induction rule: sys_trace.induct) (auto dest: bg_inv_step)

lemma bg_inv_initial [simp]: "bg_inv Background_initial"
  by (simp add: bg_inv_def Background_initial_def)

text \<open>Steps the thread takes until it ends, once it is told to stop.\<close>

fun rounds_left :: "LoopPoint \<Rightarrow> nat" where
  "rounds_left Loop_Absent = 0"
| "rounds_left Loop_Done = 0"
| "rounds_left Loop_Test = 1"
| "rounds_left _ = 2"

lemma stopping_step:
  assumes "sys_step env a x y" "bg_stopping (fst x)" "bg_started (fst x)" "a \<noteq> Act_Join"
  shows "bg_stopping (fst y) \<and> bg_started (fst y) \<and>
    rounds_left (bg_point (fst x)) = rounds_left (bg_point (fst y)) + (if a = Act_Thread then 1 else 0)"
  using assms
  by (cases rule: sys_step.cases)
    (auto simp: LiveNodes_Start_def LiveNodes_Stop_request_def elim!: thread_step.cases)

lemma stopping_trace:
  assumes "sys_trace env as x y" "bg_stopping (fst x)" "bg_started (fst x)" "Act_Join \<notin> set as"
  shows "bg_stopping (fst y) \<and> bg_started (fst y) \<and>
    rounds_left (bg_point (fst x)) = rounds_left (bg_point (fst y)) + count_list as Act_Thread"
  using assms
proof (induction rule: sys_trace.induct)
  case (trace_snoc as x y a z)
  then show ?case using stopping_step[OF trace_snoc.hyps(2)] by auto
qed simp

lemma thread_can_move:
  assumes "bg_stopping bg" "bg_point bg \<noteq> Loop_Absent" "bg_point bg \<noteq> Loop_Done"
    and "\<And>upd prb. fst (BackgroundLoop_work env upd prb s) = Inr ()"
  shows "\<exists>y. thread_step env (bg, s) y"
proof -
  obtain st w where s: "s = (st, w)" by (cases s)
  show ?thesis
  proof (cases "bg_point bg")
    case Loop_Spawned
    then show ?thesis unfolding s by (blast intro: spawned)
  next
    case (Loop_Wait t)
    then show ?thesis using assms(1) by (cases t) (blast intro: stopped notified)+
  next
    case (Loop_Work upd prb)
    then show ?thesis using assms(4)[of upd prb] by (cases "BackgroundLoop_work env upd prb s") (auto intro: work)
  next
    case Loop_Test
    then show ?thesis using assms(1) by (blast intro: leave)
  qed (use assms in simp_all)
qed

end
