(* ===== verification/Live_Nodes_Schedule.thy ===== *)
theory Live_Nodes_Schedule
  imports Live_Nodes_Thread
begin

text \<open>
  What the calls on \<open>AlternatorLiveNodes\<close> do to the schedule of refreshes: the locale \<open>schedule_stable\<close>
  carries a predicate on the schedule through every call, its interpretations bound the distance of
  refreshes from below and show that calls never postpone one. Discovery returns when its requests do.
\<close>

section \<open>What depends on the refresh schedule only\<close>

definition same_schedule :: "AlternatorLiveNodes \<Rightarrow> AlternatorLiveNodes \<Rightarrow> bool" where
  "same_schedule st st' \<longleftrightarrow> ln_config st' = ln_config st \<and> ln_next_update st' = ln_next_update st \<and>
     ln_last_activity st' = ln_last_activity st"

lemma same_schedule_refl [simp]: "same_schedule st st"
  by (simp add: same_schedule_def)

lemma ShouldTry_schedule: "ShouldTryQuarantinedNode e st = (b, st') \<Longrightarrow> same_schedule st st'"
  by (auto simp: ShouldTryQuarantinedNode_def Let_def same_schedule_def split: if_splits)

lemma NextQuarantined_schedule: "NextQuarantinedNode st = (u, st') \<Longrightarrow> same_schedule st st'"
  by (auto simp: NextQuarantinedNode_def Let_def same_schedule_def split: if_splits)

lemma same_schedule_trans: "same_schedule a b \<Longrightarrow> same_schedule b c \<Longrightarrow> same_schedule a c"
  by (simp add: same_schedule_def)

lemma PlanNodes_schedule: "LiveNodes_GetQueryPlanNodes st = (us, st') \<Longrightarrow> same_schedule st st'"
  by (auto simp: LiveNodes_GetQueryPlanNodes_def Let_def split: prod.splits if_splits
      dest!: ShouldTry_schedule NextQuarantined_schedule intro: same_schedule_trans)

lemma sticky_new_schedule: "sticky_new h us st = (r, st') \<Longrightarrow> same_schedule st st'"
  by (auto simp: sticky_new_def Let_def same_schedule_def split: prod.splits if_splits sum.splits bool.splits
      dest!: ShouldTry_schedule)

lemma ForHash_schedule: "LiveNodes_GetQueryPlanNodesForHash h st = (r, st') \<Longrightarrow> same_schedule st st'"
proof -
  have "StickyQuarantinedNodeForHash h us st = (q, st1) \<Longrightarrow> same_schedule st st1" for us q st1
    by (auto simp: StickyQuarantinedNodeForHash_def Let_def same_schedule_def
        split: option.splits if_splits sum.splits bool.splits dest!: sticky_new_schedule)
  then show "LiveNodes_GetQueryPlanNodesForHash h st = (r, st') \<Longrightarrow> same_schedule st st'"
    by (auto simp: LiveNodes_GetQueryPlanNodesForHash_def Let_def split: prod.splits sum.splits)
qed

lemma pick_node_schedule: "pick_node us st = (u, st') \<Longrightarrow> same_schedule st st'"
  by (auto simp: pick_node_def Let_def same_schedule_def split: prod.splits if_splits
      dest!: ShouldTry_schedule NextQuarantined_schedule)

lemma install_schedule: "same_schedule st (install_nodes now us st)"
  by (simp add: install_nodes_def fold_Remove_assignments Let_def same_schedule_def)

lemma NextKnown_schedule: "NextKnownNode st = (u, st') \<Longrightarrow> same_schedule st st'"
  by (auto simp: NextKnownNode_def Let_def same_schedule_def split: if_splits)

text \<open>
  A predicate on the state and the world that looks at the schedule only, and survives the passing of
  time during a request and the mark of activity, survives every call.
\<close>

locale schedule_stable =
  fixes env :: "'w Environment" and P :: "'w ln_state \<Rightarrow> bool"
  assumes request: "P (st, w) \<Longrightarrow> env_Get env u w = (r, w') \<Longrightarrow> P (st, w')"
    and mark: "P (st, w) \<Longrightarrow> P (fst (MarkActivity (env_now env w) st), w)"
    and frame: "P (st, w) \<Longrightarrow> same_schedule st st' \<Longrightarrow> P (st', w)"
begin

lemma report:
  assumes "P (st, w)"
  shows "P (LiveNodes_ReportNodeResult (env_now env w) u obs st, w)"
  by (rule frame[OF mark[OF assms]]) (simp add: Report_unfold Let_def same_schedule_def)

lemma endpoint: "P (st, w) \<Longrightarrow> GetNodesFromEndpoint env u (st, w) = (r, s') \<Longrightarrow> P s'"
  using request by (auto simp: GetNodesFromEndpoint_def split: prod.splits sum.splits if_splits)

lemma scope_loop: "P s \<Longrightarrow> GetNodesForScope_loop env scope plan discovered last_error s = (r, s') \<Longrightarrow> P s'"
proof (induction "length (qp_nodes plan)" arbitrary: plan discovered last_error s rule: less_induct)
  case less
  obtain st w where s: "s = (st, w)" by (cases s)
  show ?case
  proof (cases "QueryPlan_Next plan")
    case (Inl e)
    with less.prems show ?thesis by (simp add: GetNodesForScope_loop.simps[of env scope plan])
  next
    case (Inr b)
    then obtain u plan' where n: "QueryPlan_Next plan = Inr (u, plan')" by (cases b) auto
    obtain q st1 w1 where g: "GetNodesFromEndpoint env (Url_WithPathAndQuery u ''/localnodes'' (LocalNodesQuery scope)) s = (q, st1, w1)"
      by (metis prod_cases3)
    have p1: "P (st1, w1)" using endpoint less.prems(1) g s by metis
    note ih = less.hyps[of plan'] and unfold = GetNodesForScope_loop.simps[of env scope plan discovered last_error s]
    show ?thesis
    proof (cases "Url_Empty u")
      case True
      with less.prems n show ?thesis unfolding unfold by (auto split: if_splits option.splits)
    next
      case False
      have sh: "length (qp_nodes plan') < length (qp_nodes plan)" using Next_shrinks[OF n False] .
      show ?thesis
        using less.prems(2) n False g p1 ih[OF sh p1] ih[OF sh report[OF p1]] unfolding unfold
        by (auto split: sum.splits if_splits option.splits)
    qed
  qed
qed

lemma scope_call:
  assumes "P (st, w)" "GetNodesForScope env scope (st, w) = (r, s')"
  shows "P s'"
proof -
  obtain us st1 where d: "GetDiscoveryNodesForScope scope st = (us, st1)" by (metis surj_pair)
  then have "same_schedule st st1"
    using PlanNodes_schedule by (auto simp: GetDiscoveryNodesForScope_def split: if_splits)
  from scope_loop[OF frame[OF assms(1) this]] assms(2) d show ?thesis by (simp add: GetNodesForScope_def)
qed

lemma fetch_loop: "P s \<Longrightarrow> FetchLiveNodes_loop env scope s = (r, s') \<Longrightarrow> P s'"
proof (induction "case scope of None \<Rightarrow> 0 | Some x \<Rightarrow> Suc (size x)" arbitrary: scope s rule: less_induct)
  case less
  show ?case
  proof (cases scope)
    case None
    with less.prems show ?thesis by (simp add: FetchLiveNodes_loop.simps)
  next
    case (Some sc)
    obtain q s1 where g: "GetNodesForScope env sc s = (q, s1)" by (metis surj_pair)
    then have p1: "P s1" using scope_call less.prems(1) by (metis surj_pair)
    have sh: "(case RoutingScope_Fallback sc of None \<Rightarrow> 0 | Some x \<Rightarrow> Suc (size x)) < (case scope of None \<Rightarrow> 0 | Some x \<Rightarrow> Suc (size x))"
      using Some size_Fallback[of sc] by (auto split: option.splits)
    show ?thesis
      using less.prems(2) Some g p1 less.hyps[OF sh p1]
      by (auto simp: FetchLiveNodes_loop.simps[of env "Some sc"] split: sum.splits if_splits)
  qed
qed

lemma probe_loop:
  "P (st, w) \<Longrightarrow> ProbeDownNodes_loop (env_now env) (LiveNodes_probe env) us acc store w = (r, store', w') \<Longrightarrow> P (st, w')"
proof (induction us arbitrary: acc store w)
  case (Cons u us)
  have p: "P (st, w1)" if "LiveNodes_probe env u status w = (q, w1)" for status q w1
    using that request[OF Cons.prems(1)] by (auto simp: LiveNodes_probe_def split: prod.splits sum.splits exn.splits)
  from Cons.prems show ?case
    by (auto split: option.splits prod.splits sum.splits intro: Cons.IH dest: p)
qed simp

lemma probe_call:
  assumes "P (st, w)" "LiveNodes_ProbeDownNodes env (st, w) = (r, s')"
  shows "P s'"
proof -
  obtain store w' where p: "NodeHealthStore_ProbeDownNodes (env_now env) (Some (LiveNodes_probe env)) (ln_health_store st) w = (r, store, w')"
    "s' = (st\<lparr>ln_health_store := store\<rparr>, w')"
    using assms(2) by (auto simp: LiveNodes_ProbeDownNodes_def split: prod.splits)
  have "P (st, w')"
    using p(1) probe_loop[OF assms(1)] assms(1) by (auto simp: NodeHealthStore_ProbeDownNodes_def split: if_splits)
  then show ?thesis unfolding p(2) by (rule frame) (simp add: same_schedule_def)
qed

lemma update_call:
  assumes "P (st, w)" "UpdateLiveNodes env (st, w) = (r, s')"
  shows "P s'"
proof -
  obtain q st1 w1 where f: "FetchLiveNodes env (st, w) = (q, st1, w1)" by (metis prod_cases3)
  then have p1: "P (st1, w1)" using fetch_loop[OF assms(1)] by (simp add: FetchLiveNodes_def)
  show ?thesis
  proof (cases q)
    case (Inl e)
    with assms(2) f p1 show ?thesis by (simp add: UpdateLiveNodes_def)
  next
    case (Inr us)
    let ?st2 = "if us = [] then st1 else install_nodes (env_now env w1) us st1"
    have p2: "P (?st2, w1)" using p1 frame[OF p1 install_schedule] by simp
    obtain p s3 where p: "LiveNodes_ProbeDownNodes env (?st2, w1) = (p, s3)" by (metis surj_pair)
    with assms(2) f Inr have "s' = s3" by (auto simp: UpdateLiveNodes_def split: sum.splits)
    with probe_call[OF p2 p] show ?thesis by simp
  qed
qed

lemma next_node_call:
  assumes "P (st, w)" "NextNode env (st, w) = (r, s')"
  shows "P s'"
proof -
  let ?st0 = "fst (MarkActivity (env_now env w) st)"
  have p0: "P (?st0, w)" using mark[OF assms(1)] .
  obtain q st1 w1 where p: "LiveNodes_ProbeDownNodes env (?st0, w) = (q, st1, w1)" by (metis prod_cases3)
  have p1: "P (st1, w1)" using probe_call[OF p0 p] .
  show ?thesis
    using assms(2) p p1 frame[OF p0 pick_node_schedule] frame[OF p1 pick_node_schedule]
    by (auto simp: NextNode_def Let_def split: if_splits sum.splits prod.splits)
qed

lemma check_scopes_loop: "P s \<Longrightarrow> CheckScopes_loop env scope misses s = (r, s') \<Longrightarrow> P s'"
proof (induction "case scope of None \<Rightarrow> 0 | Some x \<Rightarrow> Suc (size x)" arbitrary: scope misses s rule: less_induct)
  case less
  show ?case
  proof (cases scope)
    case None
    with less.prems show ?thesis by (auto simp: CheckScopes_loop.simps[of env None] split: if_splits)
  next
    case (Some sc)
    obtain q s1 where g: "GetNodesForScope env sc s = (q, s1)" by (metis surj_pair)
    then have p1: "P s1" using scope_call less.prems(1) by (metis surj_pair)
    have sh: "(case RoutingScope_Fallback sc of None \<Rightarrow> 0 | Some x \<Rightarrow> Suc (size x)) < (case scope of None \<Rightarrow> 0 | Some x \<Rightarrow> Suc (size x))"
      using Some size_Fallback[of sc] by (auto split: option.splits)
    show ?thesis
      using less.prems Some g p1 less.hyps[OF sh p1]
      by (auto simp: CheckScopes_loop.simps[of env "Some sc"] split: sum.splits if_splits)
  qed
qed

lemma check_feature_call:
  assumes "P (st, w)" "CheckIfRackDatacenterFeatureIsSupported env (st, w) = (r, s')"
  shows "P s'"
proof -
  obtain u st1 where n: "NextKnownNode st = (u, st1)" by (metis surj_pair)
  have p1: "P (st1, w)" using frame[OF assms(1) NextKnown_schedule[OF n]] .
  show ?thesis
    using assms(2) n p1
    by (auto simp: CheckIfRackDatacenterFeatureIsSupported_def split: sum.splits if_splits prod.splits
        dest!: endpoint[OF p1] dest: endpoint)
qed

lemma client:
  assumes "client_step env s s'" "P s"
  shows "P s'"
proof -
  obtain st w where s: "s = (st, w)" by (cases s)
  have p: "P (st, w)" using assms(2) s by simp
  from assms(1) show ?thesis
  proof (cases rule: client_step.cases)
    case (plan_nodes st us st' w)
    then show ?thesis using frame[OF _ PlanNodes_schedule] assms(2) by blast
  next
    case (hash_nodes h st r st' w)
    then show ?thesis using frame[OF _ ForHash_schedule] assms(2) by blast
  next
    case check_scopes
    then show ?thesis using check_scopes_loop[OF assms(2)] by (simp add: CheckIfRackAndDatacenterSetCorrectly_def)
  qed (use p s in \<open>auto intro: next_node_call report probe_call update_call check_feature_call\<close>)
qed

lemma work: 
  assumes "BackgroundLoop_work env upd prb (st, w) = (r, s')" "P (st, w)"
  shows "P s'"
proof -
  obtain q st1 w1 where u: "(if upd then UpdateLiveNodes env (st, w) else (Inr (), st, w)) = (q, st1, w1)"
    by (metis prod_cases3)
  then have p1: "P (st1, w1)" using update_call[OF assms(2)] assms(2) by (auto split: if_splits)
  show ?thesis
    using assms(1) p1 probe_call[OF p1] unfolding BackgroundLoop_work_def u
    by (auto split: sum.splits exn.splits if_splits prod.splits)
qed

end

section \<open>The distance between refreshes\<close>

definition clock_ok :: "'w Environment \<Rightarrow> bool" where
  "clock_ok env \<longleftrightarrow> (\<forall>u w r w'. env_Get env u w = (r, w') \<longrightarrow> env_now env w \<le> env_now env w')"

text \<open>The shortest of the enabled periods, in milliseconds.\<close>

definition refresh_gap :: "Config \<Rightarrow> int" where
  "refresh_gap config =
     (let active = cfg_nodes_list_update_period config; idle = cfg_idle_nodes_list_update_period config
      in if 0 < active \<and> 0 < idle then min active idle else if 0 < active then active else idle)"

definition not_due_before :: "'w Environment \<Rightarrow> Config \<Rightarrow> time_point \<Rightarrow> 'w ln_state \<Rightarrow> bool" where
  "not_due_before env config t s \<longleftrightarrow> clock_ok env \<and> t \<le> env_now env (snd s) \<and> ln_config (fst s) = config \<and>
     t + milliseconds (refresh_gap config) \<le> time_point_max \<and>
     t + milliseconds (refresh_gap config) \<le> ln_next_update (fst s)"

lemma gap_le:
  "0 < cfg_nodes_list_update_period config \<Longrightarrow> refresh_gap config \<le> cfg_nodes_list_update_period config"
  "0 < cfg_idle_nodes_list_update_period config \<Longrightarrow> refresh_gap config \<le> cfg_idle_nodes_list_update_period config"
  by (auto simp: refresh_gap_def Let_def)

lemma milliseconds_mono: "a \<le> b \<Longrightarrow> milliseconds a \<le> milliseconds b"
  by (simp add: milliseconds_def)

interpretation refresh: schedule_stable env "not_due_before env config t" for env config t
proof
  fix st w u r w'
  assume "not_due_before env config t (st, w)" "env_Get env u w = (r, w')"
  then show "not_due_before env config t (st, w')" unfolding not_due_before_def clock_ok_def by fastforce
next
  fix st w
  assume a: "not_due_before env config t (st, w)"
  then have "0 < cfg_nodes_list_update_period config \<Longrightarrow>
      t + milliseconds (refresh_gap config) \<le> env_now env w + milliseconds (cfg_nodes_list_update_period config)"
    using milliseconds_mono[OF gap_le(1)] by (fastforce simp: not_due_before_def)
  with a show "not_due_before env config t (fst (MarkActivity (env_now env w) st), w)"
    by (simp add: not_due_before_def MarkActivity_def Let_def)
next
  fix st w st'
  assume "not_due_before env config t (st, w)" "same_schedule st st'"
  then show "not_due_before env config t (st', w)" by (simp add: not_due_before_def same_schedule_def)
qed

lemma Schedule_not_due_before:
  assumes "t \<le> env_now env w" "t + milliseconds (refresh_gap (ln_config st)) \<le> time_point_max" "clock_ok env"
  shows "not_due_before env (ln_config st) t (ScheduleNextRefresh (env_now env w) st, w)"
proof -
  let ?i = "RefreshIntervalForNow (env_now env w) st"
  have "refresh_gap (ln_config st) \<le> ?i" if "0 < ?i"
    using that gap_le[of "ln_config st"] by (auto simp: RefreshIntervalForNow_def Let_def split: if_splits)
  then have "0 < ?i \<Longrightarrow> t + milliseconds (refresh_gap (ln_config st)) \<le> env_now env w + milliseconds ?i"
    using assms(1) milliseconds_mono by fastforce
  with assms show ?thesis by (simp add: not_due_before_def ScheduleNextRefresh_def Let_def)
qed

lemma not_due_sys_step:
  assumes "sys_step env a x y" "not_due_before env config t (snd x)"
  shows "not_due_before env config t (snd y)"
  using assms(1)
proof (cases rule: sys_step.cases)
  case client
  then show ?thesis using assms(2) by (auto intro: refresh.client)
next
  case thread
  from thread(2) show ?thesis
  proof (cases rule: thread_step.cases)
    case (timeout bg t' w st upd prb st' np)
    then show ?thesis
      using assms(2) Schedule_not_due_before[of t env w st]
      by (auto simp: BackgroundLoop_due_def Let_def not_due_before_def split: if_splits)
  next
    case (work bg upd prb s s')
    then show ?thesis using assms(2) by (cases s) (auto intro: refresh.work)
  qed (use assms(2) in auto)
qed (use assms(2) in \<open>auto simp: not_due_before_def\<close>)

lemma not_due_trace:
  "sys_trace env as x y \<Longrightarrow> not_due_before env config t (snd x) \<Longrightarrow> not_due_before env config t (snd y)"
  by (induction rule: sys_trace.induct) (auto dest: not_due_sys_step)

lemma refresh_starts:
  assumes "thread_step env (bg, st, w) (bg', st', w')" "bg_point bg' = Loop_Work True prb"
  shows "w' = w" "ln_next_update st \<le> env_now env w" "st' = ScheduleNextRefresh (env_now env w) st"
  using assms by (auto elim!: thread_step.cases simp: BackgroundLoop_due_def Let_def split: if_splits)

section \<open>Discovery returns when its requests return\<close>

definition env_returns :: "'w Environment \<Rightarrow> bool" where
  "env_returns env \<longleftrightarrow> (\<forall>u w. fst (env_Get env u w) \<noteq> Inl Diverges)"

lemma endpoint_returns: "env_returns env \<Longrightarrow> fst (GetNodesFromEndpoint env u s) \<noteq> Inl Diverges"
  unfolding env_returns_def
  by (cases s; cases "env_Get env u (snd s)") (auto simp: GetNodesFromEndpoint_def split: sum.splits prod.splits, metis fst_conv)

lemma discovery_observation_None: "discovery_observation e = None \<longleftrightarrow> e = Diverges"
  by (cases e) auto

lemma loop_returns:
  assumes "env_returns env" "plan_ok plan" "last_error \<noteq> Some Diverges"
  shows "fst (GetNodesForScope_loop env scope plan discovered last_error s) \<noteq> Inl Diverges"
  using assms
proof (induction env scope plan discovered last_error s rule: GetNodesForScope_loop.induct)
  case (1 env scope plan discovered last_error s)
  obtain u plan' where n: "QueryPlan_Next plan = Inr (u, plan')" "plan_ok plan'" using Next_spec[OF "1.prems"(2)] by blast
  let ?ep = "Url_WithPathAndQuery u ''/localnodes'' (LocalNodesQuery scope)"
  obtain r st1 w1 where g: "GetNodesFromEndpoint env ?ep s = (r, st1, w1)" by (metis prod_cases3)
  then have r: "r \<noteq> Inl Diverges" using endpoint_returns[OF "1.prems"(1), of ?ep s] by auto
  note unfold = GetNodesForScope_loop.simps[of env scope plan discovered last_error s]
  show ?case
  proof (cases "Url_Empty u")
    case True
    with n "1.prems"(3) show ?thesis unfolding unfold by (auto split: option.split)
  next
    case False
    show ?thesis
    proof (cases r)
      case (Inr us)
      show ?thesis
        using "1.IH"(2)[OF n(1) refl False, of r "(st1, w1)" us] "1.IH"(3)[OF n(1) refl False, of r "(st1, w1)" us]
          n False g Inr "1.prems" unfolding unfold by auto
    next
      case (Inl e)
      then obtain obs where obs: "discovery_observation e = Some obs" using r discovery_observation_None by blast
      show ?thesis
        using "1.IH"(1)[OF n(1) refl False, of r "(st1, w1)" e st1 w1 obs] obs n False g Inl r "1.prems"(1)
        unfolding unfold by auto
    qed
  qed
qed

lemma scope_returns:
  assumes "env_returns env" "ln_inv H (fst s)"
  shows "fst (GetNodesForScope env scope s) \<noteq> Inl Diverges"
proof -
  obtain st w us st1 where s: "s = (st, w)" "GetDiscoveryNodesForScope scope st = (us, st1)" by (metis surj_pair)
  then have "ln_inv H st" using assms(2) by simp
  from plan_over_nodes(1)[OF this discovery_nodes(3)[OF this s(2)]] loop_returns[OF assms(1)] s
  show ?thesis by (simp add: GetNodesForScope_def)
qed

lemma fetch_returns:
  assumes "env_returns env" "env_ok H env" "ln_inv H (fst s)"
  shows "fst (FetchLiveNodes_loop env scope s) \<noteq> Inl Diverges"
  using assms
proof (induction env scope s rule: FetchLiveNodes_loop.induct)
  case (1 env scope s)
  show ?case
  proof (cases scope)
    case (Some sc)
    obtain r s1 where g: "GetNodesForScope env sc s = (r, s1)" by (metis surj_pair)
    have "r \<noteq> Inl Diverges" using scope_returns[OF "1.prems"(1,3), of sc] g by simp
    moreover have "ln_inv H (fst s1)" using keptD[OF kept_GetNodesForScope[OF "1.prems"(2,3) g]] .
    ultimately show ?thesis
      using "1.IH"[OF Some g[symmetric]] Some g "1.prems"
      by (auto simp: FetchLiveNodes_loop.simps[of env "Some sc"] split: sum.splits)
  qed (simp add: FetchLiveNodes_loop.simps)
qed

lemma probe_returns:
  assumes "env_returns env"
  shows "\<exists>us. fst (LiveNodes_ProbeDownNodes env s) = Inr us"
proof -
  have p: "\<exists>ob. fst (LiveNodes_probe env u status w) = Inr ob" for u status w
    using assms by (cases "env_Get env (Url_WithPathAndQuery u ''/localnodes'' []) w")
      (auto simp: LiveNodes_probe_def env_returns_def split: sum.splits exn.splits, metis fst_conv)
  have "\<exists>us. fst (ProbeDownNodes_loop (env_now env) (LiveNodes_probe env) ds acc store w) = Inr us" for ds acc store w
  proof (induction ds arbitrary: acc store w)
    case (Cons d ds)
    show ?case
    proof (cases "NodeHealthStore_GetNodeStatus store d")
      case (Some status)
      obtain ob w1 where "LiveNodes_probe env d status w = (Inr ob, w1)" using p[of d status w] by (metis prod.collapse)
      with Some Cons show ?thesis by simp
    qed (simp add: Cons)
  qed simp
  then show ?thesis
    by (auto simp: LiveNodes_ProbeDownNodes_def NodeHealthStore_ProbeDownNodes_def split: prod.splits)
      (metis fst_conv)
qed

lemma work_returns:
  assumes "env_returns env" "env_ok H env" "ln_inv H st"
  shows "fst (BackgroundLoop_work env upd prb (st, w)) = Inr ()"
proof -
  obtain q s1 where f: "FetchLiveNodes env (st, w) = (q, s1)" by (metis surj_pair)
  have "q \<noteq> Inl Diverges" using fetch_returns[OF assms(1,2), of "(st, w)"] assms(3) f by (simp add: FetchLiveNodes_def) (metis fst_conv)
  then have u: "fst (UpdateLiveNodes env (st, w)) \<noteq> Inl Diverges"
    using f probe_returns[OF assms(1)] by (auto simp: UpdateLiveNodes_def split: sum.splits prod.splits) (metis fst_conv sum.distinct(1))+
  obtain r s2 where u2: "(if upd then UpdateLiveNodes env (st, w) else (Inr (), st, w)) = (r, s2)" by (metis surj_pair)
  with u have "r \<noteq> Inl Diverges" by (auto split: if_splits)
  moreover obtain us s3 where "LiveNodes_ProbeDownNodes env s2 = (Inr us, s3)" using probe_returns[OF assms(1), of s2] by (metis prod.collapse)
  ultimately show ?thesis
    unfolding BackgroundLoop_work_def u2 by (cases r; cases "projl r") auto
qed

interpretation postpone: schedule_stable env "\<lambda>s. ln_next_update (fst s) \<le> t" for env t
  by unfold_locales (auto simp: MarkActivity_def Let_def same_schedule_def)

end
