(* ===== verification/Live_Nodes_System.thy ===== *)
theory Live_Nodes_System
  imports Live_Nodes_Schedule
begin

text \<open>
  Properties of whole runs of \<open>AlternatorLiveNodes\<close>: any interleaving of client calls, clock and
  background thread from construction on.
\<close>

section \<open>Traces\<close>

lemma sys_trace_Nil [simp]: "sys_trace env [] x z \<longleftrightarrow> x = z"
  by (auto intro: trace_nil elim: sys_trace.cases)

inductive_simps sys_trace_snoc: "sys_trace env (as @ [a]) x z"

lemma sys_trace_append: "sys_trace env (as @ bs) x z \<longleftrightarrow> (\<exists>y. sys_trace env as x y \<and> sys_trace env bs y z)"
proof (induction bs arbitrary: z rule: rev_induct)
  case Nil
  then show ?case by (simp del: split_paired_Ex)
next
  case (snoc b bs)
  then show ?case
    unfolding append_assoc[symmetric] sys_trace_snoc by (simp del: split_paired_Ex append_assoc) blast
qed

lemma sys_trace_single: "sys_trace env [a] x z \<longleftrightarrow> sys_step env a x z"
proof
  show "sys_trace env [a] x z \<Longrightarrow> sys_step env a x z" by (auto elim: sys_trace.cases)
  show "sys_step env a x z \<Longrightarrow> sys_trace env [a] x z" using trace_snoc[OF trace_nil, of env a x z] by simp
qed

lemma sys_trace_Cons: "sys_trace env (a # as) x z \<longleftrightarrow> (\<exists>y. sys_step env a x y \<and> sys_trace env as y z)"
  using sys_trace_append[of env "[a]" as x z] by (simp add: sys_trace_single)

lemma sys_trace_ConsI: "sys_step env a x y \<Longrightarrow> sys_trace env as y z \<Longrightarrow> sys_trace env (a # as) x z"
  unfolding sys_trace_Cons by blast

text \<open>A thread that waits for \<open>stopping_\<close> alone stays there: a notification does not wake it.\<close>

lemma deaf_step:
  assumes "sys_step env a x y" "bg_point (fst x) = Loop_Wait None" "bg_started (fst x)" "\<not> bg_stopping (fst x)" "a \<noteq> Act_Stop"
  shows "bg_point (fst y) = Loop_Wait None \<and> bg_started (fst y) \<and> \<not> bg_stopping (fst y)"
  using assms by (cases rule: sys_step.cases) (auto simp: LiveNodes_Start_def elim!: thread_step.cases)

lemma deaf_trace:
  assumes "sys_trace env as x y" "bg_point (fst x) = Loop_Wait None" "bg_started (fst x)" "\<not> bg_stopping (fst x)"
    and "Act_Stop \<notin> set as"
  shows "bg_point (fst y) = Loop_Wait None \<and> bg_started (fst y) \<and> \<not> bg_stopping (fst y)"
  using assms
proof (induction rule: sys_trace.induct)
  case (trace_snoc as x y a z)
  then show ?case using deaf_step[OF trace_snoc.hyps(2)] by auto
qed simp

section \<open>Properties\<close>

text \<open>A world for the witnesses: a clock in nanoseconds, and every node answers the same list.\<close>

definition demo_env :: "int Environment" where
  "demo_env = \<lparr>env_Get = (\<lambda>u w. (Inr \<lparr>resp_status_code = 200, resp_body = ''[\"a\",\"b\"]''\<rparr>, w + 1000)),
     env_now = (\<lambda>w. w), env_seed = (\<lambda>w. 0)\<rparr>"

text \<open>A configuration without background probes, and a thread that waits for its first refresh.\<close>

definition demo_config :: Config where
  "demo_config = Config_default\<lparr>cfg_node_health := (cfg_node_health Config_default)\<lparr>down_node_probe_period := 0\<rparr>\<rparr>"

definition demo_bg :: Background where
  "demo_bg = \<lparr>bg_started = True, bg_stopping = False, bg_next_down_probe = 0, bg_point = Loop_Wait (Some 60000000000)\<rparr>"

lemma demo_env_ok: "env_ok {''a'', ''b''} demo_env"
proof -
  have "ParseJsonStringArray ''[\"a\",\"b\"]'' = Inr [''a'', ''b'']" by code_simp
  then show ?thesis by (simp add: env_ok_def demo_env_def)
qed







lemma demo_first_refresh:
  obtains st0 st1 where
    "thread_step demo_env (demo_bg, st0, 60000000000) (demo_bg\<lparr>bg_point := Loop_Work True False\<rparr>, st1, 60000000000)"
    "ln_config st0 = demo_config" "ln_inv {''a'', ''b''} st1" "ln_next_update st1 = 120000000000" "ln_config st1 = demo_config"
proof -
  let ?w0 = "60000000000 :: int"
  have "ValidateConfig demo_config = Inr ()" by code_simp
  then obtain st0 where n: "LiveNodes_new [''a''] demo_config 0 = Inr st0" using LiveNodes_new_returns by blast
  have st0: "ln_next_update st0 = ?w0" "ln_last_activity st0 = time_point_min" "ln_config st0 = demo_config"
    using LiveNodes_new_fields[OF n] by (simp_all add: demo_config_def Config_default_def milliseconds_def)
  have h: "hosts_ok {''a'', ''b''}" "set [''a''] \<subseteq> {''a'', ''b''}" by (simp_all add: hosts_ok_def host_ok_def)
  have inv0: "ln_inv {''a'', ''b''} st0" using LiveNodes_new_inv(1)[OF h n] .
  let ?st1 = "ScheduleNextRefresh ?w0 st0"
  have st1: "ln_next_update ?st1 = 120000000000" "ln_config ?st1 = demo_config"
    using st0 by (simp_all add: ScheduleNextRefresh_def RefreshIntervalForNow_def Let_def demo_config_def
        Config_default_def milliseconds_def)
  have "BackgroundLoop_due ?w0 st0 0 = (True, False, ?st1, 0)"
    using st0 by (simp add: BackgroundLoop_due_def Let_def probe_period_def demo_config_def time_point_max_def)
  then have "thread_step demo_env (demo_bg, st0, ?w0) (demo_bg\<lparr>bg_point := Loop_Work True False\<rparr>, ?st1, ?w0)"
    using thread_step.timeout[of demo_bg ?w0 demo_env ?w0 st0 True False ?st1 0] by (simp add: demo_bg_def demo_env_def)
  then show thesis using st0(3) keptD(1)[OF kept_Schedule[OF inv0]] st1 by (rule that)
qed




end
