(* ===== verification/Live_Nodes_Routing.thy ===== *)
theory Live_Nodes_Routing
  imports Live_Nodes_System
begin

text \<open>
  How \<open>AlternatorLiveNodes\<close> hands out nodes: the round robin of \<open>NextNode\<close>, the share of quarantined nodes,
  sticky assignments of hashes, and the plans of \<open>src/src/key_route_affinity.cpp\<close> over the live nodes
  (facts of the interpretation \<open>live\<close> of the locale \<open>nodes_source\<close>).
\<close>

section \<open>Sequences of calls\<close>

text \<open>Calls of \<open>NextNode\<close> in a row, with the results.\<close>

fun next_nodes :: "'w Environment \<Rightarrow> nat \<Rightarrow> 'w ln_state \<Rightarrow> Url result list" where
  "next_nodes env 0 s = []"
| "next_nodes env (Suc n) s = (case NextNode env s of (r, s') \<Rightarrow> r # next_nodes env n s')"

text \<open>Calls for a list of hashes, of which only the state is kept.\<close>

fun hash_calls :: "i64 list \<Rightarrow> AlternatorLiveNodes \<Rightarrow> AlternatorLiveNodes" where
  "hash_calls [] st = st"
| "hash_calls (h # hs) st = hash_calls hs (snd (LiveNodes_GetQueryPlanNodesForHash h st))"

section \<open>Round robin and quarantine traffic\<close>

definition traffic_interval :: "AlternatorLiveNodes \<Rightarrow> nat" where
  "traffic_interval st = max 1 (unat (quarantine_traffic_interval (cfg_node_health (ln_config st))))"

lemma traffic_interval_same: "same_nodes st st' \<Longrightarrow> traffic_interval st' = traffic_interval st"
  by (simp add: traffic_interval_def same_nodes_def)

lemma ucast_interval: "unat (ucast (w :: u32) :: u64) = unat w"
proof -
  have "unat w < 2 ^ 64" by (rule order_less_trans[OF unsigned_less]) simp
  then show ?thesis by (simp add: unsigned_ucast_eq take_bit_nat_eq_self)
qed

lemma ShouldTry_counts:
  assumes "LiveNodes_GetQuarantinedNodes st \<noteq> []" "unat (ln_quarantine_plan_index st) + 1 < 2 ^ 64"
  shows "fst (ShouldTryQuarantinedNode False st) \<longleftrightarrow> (unat (ln_quarantine_plan_index st) + 1) mod traffic_interval st = 0"
    "unat (ln_quarantine_plan_index (snd (ShouldTryQuarantinedNode False st))) = unat (ln_quarantine_plan_index st) + 1"
proof -
  let ?i0 = "quarantine_traffic_interval (cfg_node_health (ln_config st))" and ?p = "ln_quarantine_plan_index st"
  define i where "i = (if ?i0 = 0 then 1 else ?i0)"
  have p: "unat (?p + 1) = unat ?p + 1" using assms(2) by (simp add: unat_add_lem[THEN iffD1])
  have "unat (ucast i :: u64) = traffic_interval st"
    unfolding ucast_interval i_def traffic_interval_def by (simp add: max_def unat_eq_zero Suc_le_eq unat_gt_0)
  then have m: "unat ((?p + 1) mod ucast i) = (unat ?p + 1) mod traffic_interval st"
    using p by (simp only: unat_mod_distrib)
  have e: "ShouldTryQuarantinedNode False st = ((?p + 1) mod ucast i = 0, st\<lparr>ln_quarantine_plan_index := ?p + 1\<rparr>)"
    using assms(1) by (simp add: ShouldTryQuarantinedNode_def Let_def i_def)
  show "fst (ShouldTryQuarantinedNode False st) \<longleftrightarrow> (unat ?p + 1) mod traffic_interval st = 0"
    unfolding e fst_conv m[symmetric] unat_eq_zero ..
  show "unat (ln_quarantine_plan_index (snd (ShouldTryQuarantinedNode False st))) = unat ?p + 1"
    using p by (simp add: e)
qed

text \<open>One call with active nodes: probes and requests play no role.\<close>

lemma NextNode_active:
  assumes "LiveNodes_GetActiveNodes st \<noteq> []"
  shows "NextNode env (st, w) =
    (let (u, st') = pick_node (LiveNodes_GetActiveNodes st) (fst (MarkActivity (env_now env w) st)) in (Inr u, st', w))"
  using assms same_nodes_lists[OF MarkActivity_frame(1)[where st = st and now = "env_now env w"]] by (simp add: NextNode_def Let_def)

lemma NextNode_no_quarantine:
  assumes "ln_inv H st" "LiveNodes_GetActiveNodes st \<noteq> []" "LiveNodes_GetQuarantinedNodes st = []"
  defines "A \<equiv> LiveNodes_GetActiveNodes st"
  obtains st' where "NextNode env (st, w) = (Inr (A ! (unat (ln_next_node_index st) mod length A)), st', w)"
    "ln_inv H st'" "same_nodes st st'" "ln_next_node_index st' = ln_next_node_index st + 1"
proof -
  let ?st1 = "fst (MarkActivity (env_now env w) st)"
  note f = MarkActivity_frame[where st = st and now = "env_now env w"]
  have q: "LiveNodes_GetQuarantinedNodes ?st1 = []" using same_nodes_lists[OF f(1)] assms(3) by simp
  have t: "ShouldTryQuarantinedNode (A = []) ?st1 = (False, ?st1)" using q by (simp add: ShouldTryQuarantinedNode_def)
  let ?st' = "?st1\<lparr>ln_next_node_index := ln_next_node_index st + 1\<rparr>"
  have idx: "unat (ln_next_node_index st mod word_of_nat (length A)) = unat (ln_next_node_index st) mod length A"
    using index_in_range(2)[OF ln_inv_lists(3)[OF assms(1)]] assms(2) by (simp add: A_def)
  have e: "NextNode env (st, w) = (Inr (A ! (unat (ln_next_node_index st) mod length A)), ?st', w)"
    unfolding NextNode_active[OF assms(2)] using t assms(2) f(3) idx by (simp add: pick_node_def A_def)
  have s: "same_nodes st ?st'" using f(1) by (simp add: same_nodes_def)
  have i: "ln_inv H ?st'" using keptD[OF kept_routing[OF assms(1) s]] f(2) by simp
  show thesis by (rule that[OF e i s]) simp
qed

lemma next_nodes_no_quarantine:
  assumes "ln_inv H st" "LiveNodes_GetActiveNodes st \<noteq> []" "LiveNodes_GetQuarantinedNodes st = []"
    and "unat (ln_next_node_index st) + n \<le> 2 ^ 64"
  defines "A \<equiv> LiveNodes_GetActiveNodes st"
  shows "next_nodes env n (st, w) = map (\<lambda>k. Inr (A ! ((unat (ln_next_node_index st) + k) mod length A))) [0..<n]"
  using assms(1-4) unfolding A_def
proof (induction n arbitrary: st)
  case (Suc n)
  let ?A = "LiveNodes_GetActiveNodes st"
  obtain st' where st': "NextNode env (st, w) = (Inr (?A ! (unat (ln_next_node_index st) mod length ?A)), st', w)"
    "ln_inv H st'" "same_nodes st st'" "ln_next_node_index st' = ln_next_node_index st + 1"
    using NextNode_no_quarantine[OF Suc.prems(1-3)] .
  note l = same_nodes_lists[OF st'(3)]
  show ?case
  proof (cases n)
    case 0
    then show ?thesis using st'(1) by simp
  next
    case (Suc m)
    then have "unat (ln_next_node_index st) + 1 < 2 ^ 64" using Suc.prems(4) by simp
    then have i: "unat (ln_next_node_index st') = unat (ln_next_node_index st) + 1"
      using st'(4) by (simp add: unat_add_lem[THEN iffD1])
    have "next_nodes env n (st', w) =
        map (\<lambda>k. Inr (?A ! ((unat (ln_next_node_index st) + Suc k) mod length ?A))) [0..<n]"
      using Suc.IH[OF st'(2)] Suc.prems l i by simp
    then show ?thesis
      using st'(1) by (simp add: upt_conv_Cons map_Suc_upt[symmetric] del: upt_Suc)
  qed
qed simp

lemma NextNode_sampling:
  assumes "ln_inv H st" "LiveNodes_GetActiveNodes st \<noteq> []" "LiveNodes_GetQuarantinedNodes st \<noteq> []"
    and "unat (ln_quarantine_plan_index st) + 1 < 2 ^ 64"
  obtains u st' where "NextNode env (st, w) = (Inr u, st', w)" "ln_inv H st'" "same_nodes st st'"
    "unat (ln_quarantine_plan_index st') = unat (ln_quarantine_plan_index st) + 1"
    "u \<in> set (if (unat (ln_quarantine_plan_index st) + 1) mod traffic_interval st = 0
       then LiveNodes_GetQuarantinedNodes st else LiveNodes_GetActiveNodes st)"
proof -
  let ?A = "LiveNodes_GetActiveNodes st" and ?Q = "LiveNodes_GetQuarantinedNodes st"
  let ?st1 = "fst (MarkActivity (env_now env w) st)"
  note f = MarkActivity_frame[where st = st and now = "env_now env w"]
  note l1 = same_nodes_lists[OF f(1)]
  have inv1: "ln_inv H ?st1" using ln_inv_MarkActivity[OF assms(1)] .
  obtain b st2 where t: "ShouldTryQuarantinedNode False ?st1 = (b, st2)" by (metis surj_pair)
  have b: "b \<longleftrightarrow> (unat (ln_quarantine_plan_index st) + 1) mod traffic_interval st = 0"
    "unat (ln_quarantine_plan_index st2) = unat (ln_quarantine_plan_index st) + 1"
    using ShouldTry_counts[of ?st1] assms(3,4) l1 f(4) t traffic_interval_same[OF f(1)] by simp_all
  note g = ShouldTry_frame[OF t]
  have inv2: "ln_inv H st2" using keptD[OF kept_routing[OF inv1 g(1,2)]] .
  have s2: "same_nodes st st2" using same_nodes_trans[OF f(1) g(1)] .
  obtain q st3 where q: "NextQuarantinedNode st2 = (q, st3)" by (metis surj_pair)
  note h = NextQuarantined_frame[OF inv2 q]
  show thesis
  proof (cases b)
    case True
    have qQ: "q \<in> set ?Q" using h(4) same_nodes_lists[OF s2] assms(3) by simp
    then have ne: "\<not> Url_Empty q" using ln_inv_lists(4)[OF assms(1)] by (auto simp: nodes_ok_def)
    have "ln_quarantine_plan_index st3 = ln_quarantine_plan_index st2"
      using q by (auto simp: NextQuarantinedNode_def Let_def split: if_splits)
    moreover have "NextNode env (st, w) = (Inr q, st3, w)"
      unfolding NextNode_active[OF assms(2)] using t q ne True assms(2) by (simp add: pick_node_def)
    ultimately show thesis
      using that[of q st3] keptD[OF kept_routing[OF inv2 h(1,2)]] same_nodes_trans[OF s2 h(1)] b True qQ by simp
  next
    case False
    let ?u = "?A ! unat (ln_next_node_index st2 mod word_of_nat (length ?A))"
    let ?st3 = "st2\<lparr>ln_next_node_index := ln_next_node_index st2 + 1\<rparr>"
    have s3: "same_nodes st2 ?st3" by (simp add: same_nodes_def)
    have "?u \<in> set ?A" using index_in_range(1)[OF ln_inv_lists(3)[OF assms(1)] assms(2)] .
    moreover have "NextNode env (st, w) = (Inr ?u, ?st3, w)"
      unfolding NextNode_active[OF assms(2)] using t False assms(2) by (simp add: pick_node_def)
    ultimately show thesis
      using that[of ?u ?st3] keptD[OF kept_routing[OF inv2 s3]] same_nodes_trans[OF s2 s3] b False by simp
  qed
qed

lemma next_nodes_sampling:
  assumes "ln_inv H st" "LiveNodes_GetActiveNodes st \<noteq> []" "LiveNodes_GetQuarantinedNodes st \<noteq> []"
    and "unat (ln_quarantine_plan_index st) + n < 2 ^ 64"
  defines "A \<equiv> LiveNodes_GetActiveNodes st" and "Q \<equiv> LiveNodes_GetQuarantinedNodes st"
  shows "set (next_nodes env n (st, w)) \<subseteq> Inr ` (set A \<union> set Q) \<and>
    length (filter (\<lambda>r. r \<in> Inr ` set Q) (next_nodes env n (st, w))) + unat (ln_quarantine_plan_index st) div traffic_interval st =
      (unat (ln_quarantine_plan_index st) + n) div traffic_interval st"
  using assms(1-4) unfolding A_def Q_def
proof (induction n arbitrary: st)
  case (Suc n)
  let ?A = "LiveNodes_GetActiveNodes st" and ?Q = "LiveNodes_GetQuarantinedNodes st"
  let ?p = "unat (ln_quarantine_plan_index st)"
  have p: "?p + 1 < 2 ^ 64" using Suc.prems(4) by simp
  obtain u st' where u: "NextNode env (st, w) = (Inr u, st', w)" "ln_inv H st'" "same_nodes st st'"
    "unat (ln_quarantine_plan_index st') = ?p + 1"
    "u \<in> set (if (?p + 1) mod traffic_interval st = 0 then ?Q else ?A)"
    using NextNode_sampling[OF Suc.prems(1-3) p] .
  note l = same_nodes_lists[OF u(3)] and i = traffic_interval_same[OF u(3)]
  have uQ: "u \<in> set ?Q \<longleftrightarrow> (?p + 1) mod traffic_interval st = 0"
    using u(5) ln_inv_lists(2)[OF Suc.prems(1)] by (auto split: if_splits)
  have ih: "set (next_nodes env n (st', w)) \<subseteq> Inr ` (set ?A \<union> set ?Q) \<and>
    length (filter (\<lambda>r. r \<in> Inr ` set ?Q) (next_nodes env n (st', w))) + (?p + 1) div traffic_interval st =
      (?p + Suc n) div traffic_interval st"
    using Suc.IH[OF u(2)] Suc.prems l u(4) i by simp
  have s: "set (next_nodes env (Suc n) (st, w)) \<subseteq> Inr ` (set ?A \<union> set ?Q)"
    using u(1,5) ih by (auto split: if_splits)
  have "(?p + 1) div traffic_interval st = ?p div traffic_interval st + (if u \<in> set ?Q then 1 else 0)"
    using uQ by (simp add: div_Suc)
  with ih u(1) have "length (filter (\<lambda>r. r \<in> Inr ` set ?Q) (next_nodes env (Suc n) (st, w))) + ?p div traffic_interval st =
      (?p + Suc n) div traffic_interval st" by (auto simp: image_iff)
  with s show ?case by blast
qed simp

section \<open>Sticky assignments\<close>

lemma sint_eq_iff [simp]: "sint a = sint b \<longleftrightarrow> a = b"
  by (auto dest: signed_word_eqI)

lemma sticky_new_other:
  assumes "sticky_new h us st = (r, st')" "map_invar sint (ln_quarantine_by_hash st)" "h \<noteq> k"
  shows "map_find sint k (ln_quarantine_by_hash st') = map_find sint k (ln_quarantine_by_hash st)"
  using assms ShouldTry_frame(2)[of "us = []" st]
  by (auto simp: sticky_new_def Let_def alist_map.find_assign split: prod.splits if_splits sum.splits bool.splits)

lemma Sticky_other:
  assumes "StickyQuarantinedNodeForHash h us st = (r, st')" "map_invar sint (ln_quarantine_by_hash st)" "h \<noteq> k"
  shows "map_find sint k (ln_quarantine_by_hash st') = map_find sint k (ln_quarantine_by_hash st)"
  using assms sticky_new_other[of h us _ r st' k]
  by (auto simp: StickyQuarantinedNodeForHash_def Let_def map_find_erase map_invar_erase
      split: option.splits if_splits sum.splits bool.splits)

text \<open>What an assignment rests on: it survives calls for any hash.\<close>

definition assigned :: "string set \<Rightarrow> i64 \<Rightarrow> Url \<Rightarrow> AlternatorLiveNodes \<Rightarrow> bool" where
  "assigned H h u st \<longleftrightarrow> ln_inv H st \<and> map_find sint h (ln_quarantine_by_hash st) = Some u \<and>
     QuarantinedNodeIsFirstForHash u (SortAndDedupeNodes (LiveNodes_GetActiveNodes st)) h = Inr True"

lemma assigned_quarantined:
  assumes "assigned H h u st"
  shows "u \<in> set (LiveNodes_GetQuarantinedNodes st)" "\<not> Url_Empty u"
proof -
  have "map_invar sint (ln_quarantine_by_hash st)" "snd ` set (ln_quarantine_by_hash st) \<subseteq> set (LiveNodes_GetQuarantinedNodes st)"
    using assms by (auto simp: assigned_def ln_inv_def)
  moreover from this assms obtain k where "(k, u) \<in> set (ln_quarantine_by_hash st)" by (auto simp: assigned_def map_find_eq_Some)
  ultimately show u: "u \<in> set (LiveNodes_GetQuarantinedNodes st)" by force
  with ln_inv_lists(4)[of H st] assms show "\<not> Url_Empty u" by (auto simp: assigned_def nodes_ok_def)
qed

lemma assigned_call:
  assumes "assigned H h u st"
  shows "LiveNodes_GetQueryPlanNodesForHash h st = (Inr (u # SortAndDedupeNodes (LiveNodes_GetActiveNodes st)), st)"
proof -
  let ?A = "SortAndDedupeNodes (LiveNodes_GetActiveNodes st)"
  have inv: "ln_inv H st" using assms by (simp add: assigned_def)
  note q = assigned_quarantined[OF assms]
  have s: "StickyQuarantinedNodeForHash h ?A st = (Inr u, st)"
    using assms q by (simp add: StickyQuarantinedNodeForHash_def assigned_def)
  obtain v st' where "StickyQuarantinedNodeForHash h ?A st = (Inr v, st')"
    "LiveNodes_GetQueryPlanNodesForHash h st = (Inr ((if Url_Empty v then [] else [v]) @ ?A), st')"
    using ForHash_post[OF inv, of h] by metis
  with s q(2) show ?thesis by simp
qed

lemma assigned_step:
  assumes "assigned H h u st"
  shows "assigned H h u (snd (LiveNodes_GetQueryPlanNodesForHash k st)) \<and>
    same_nodes st (snd (LiveNodes_GetQueryPlanNodesForHash k st))"
proof (cases "k = h")
  case True
  then show ?thesis using assms assigned_call[OF assms] by simp
next
  case False
  have inv: "ln_inv H st" using assms by (simp add: assigned_def)
  obtain v st' where v: "StickyQuarantinedNodeForHash k (SortAndDedupeNodes (LiveNodes_GetActiveNodes st)) st = (Inr v, st')"
    "snd (LiveNodes_GetQueryPlanNodesForHash k st) = st'" "ln_inv H st'" "same_nodes st st'"
    using ForHash_post[OF inv, of k] by (metis snd_conv)
  have "map_find sint h (ln_quarantine_by_hash st') = map_find sint h (ln_quarantine_by_hash st)"
    using Sticky_other[OF v(1) _ False] inv by (simp add: ln_inv_def)
  with assms v same_nodes_lists[OF v(4)] show ?thesis by (simp add: assigned_def)
qed

lemma assigned_calls:
  "assigned H h u st \<Longrightarrow> assigned H h u (hash_calls hs st) \<and> same_nodes st (hash_calls hs st)"
proof (induction hs arbitrary: st)
  case (Cons k hs)
  then show ?case using assigned_step[OF Cons.prems, of k] same_nodes_trans by auto
qed simp

lemma assigned_first:
  assumes "ln_inv H st" "LiveNodes_GetQueryPlanNodesForHash h st = (Inr (u # us), st')"
    and "u \<in> set (LiveNodes_GetQuarantinedNodes st)"
  shows "assigned H h u st'" "us = SortAndDedupeNodes (LiveNodes_GetActiveNodes st)" "same_nodes st st'"
proof -
  let ?A = "SortAndDedupeNodes (LiveNodes_GetActiveNodes st)"
  obtain v st1 where v: "sticky_post h st (Inr v, st1)"
    "LiveNodes_GetQueryPlanNodesForHash h st = (Inr ((if Url_Empty v then [] else [v]) @ ?A), st1)"
    "ln_inv H st1" "same_nodes st st1" using ForHash_post[OF assms(1), of h] by metis
  have "u \<notin> set ?A" using assms(3) ln_inv_lists(2,3)[OF assms(1)] by (auto simp: nodes_ok_def)
  then have "?A \<noteq> u # us" by (metis list.set_intros(1))
  with assms(2) v(2) have e: "\<not> Url_Empty v" "v = u" "us = ?A" "st1 = st'"
    by (auto split: if_splits simp: Cons_eq_append_conv)
  with v same_nodes_lists[OF v(4)] show "assigned H h u st'" "us = ?A" "same_nodes st st'"
    by (auto simp: sticky_post_def assigned_def)
qed

text \<open>States for the witnesses: a cluster of two nodes, and one whose second node is quarantined.\<close>

definition small_config :: Config where "small_config = Config_default\<lparr>cfg_port := 1\<rparr>"
definition demo_a :: Url where "demo_a = Url_new ''http'' ''a'' 1"
definition demo_b :: Url where "demo_b = Url_new ''http'' ''b'' 1"

definition demo_quarantine :: "Url \<Rightarrow> AlternatorLiveNodes \<Rightarrow> AlternatorLiveNodes" where
  "demo_quarantine u st =
     LiveNodes_ReportNodeResult 0 u Success (LiveNodes_ReportNodeResult 0 u ConnectionFailure st)"

lemma demo_hosts: "hosts_ok {''a'', ''b''}" "node_url demo_a" "node_url demo_b"
  by (simp_all add: hosts_ok_def host_ok_def demo_a_def demo_b_def node_url_def)

definition demo_st :: AlternatorLiveNodes where
  "demo_st = projr (LiveNodes_new [''a'', ''b''] small_config 0)"

lemma demo_new:
  "LiveNodes_new [''a'', ''b''] small_config 0 = Inr demo_st" "ln_inv {''a'', ''b''} demo_st"
  "ln_next_node_index demo_st = 0" "ln_quarantine_plan_index demo_st = 0" "ln_config demo_st = small_config"
  "ln_health_store demo_st = NodeHealthStore_new 0 NodeHealthStoreConfig_default [demo_a, demo_b]"
  "ln_live_nodes demo_st = [demo_a, demo_b]" "ln_quarantine_by_hash demo_st = []" "ln_quarantine_node_index demo_st = 0"
proof -
  have "ValidateConfig small_config = Inr ()" by code_simp
  then obtain st where "LiveNodes_new [''a'', ''b''] small_config 0 = Inr st" using LiveNodes_new_returns by blast
  then show st: "LiveNodes_new [''a'', ''b''] small_config 0 = Inr demo_st" by (simp add: demo_st_def)
  have "SortAndDedupeNodes [Url_new ''http'' ''a'' 1, Url_new ''http'' ''b'' 1] = [demo_a, demo_b]" by code_simp
  then show "ln_next_node_index demo_st = 0" "ln_quarantine_plan_index demo_st = 0" "ln_config demo_st = small_config"
    "ln_health_store demo_st = NodeHealthStore_new 0 NodeHealthStoreConfig_default [demo_a, demo_b]"
    "ln_live_nodes demo_st = [demo_a, demo_b]" "ln_quarantine_by_hash demo_st = []" "ln_quarantine_node_index demo_st = 0"
    using LiveNodes_new_fields[OF st] by (simp_all add: ToUrls_def small_config_def Config_default_def)
  show "ln_inv {''a'', ''b''} demo_st" using LiveNodes_new_inv(1)[OF demo_hosts(1) _ st] by simp
qed

lemma demo_lists:
  "LiveNodes_GetActiveNodes demo_st = [demo_a, demo_b]" "LiveNodes_GetQuarantinedNodes demo_st = []"
  "LiveNodes_GetActiveNodes (demo_quarantine demo_b demo_st) = [demo_a]"
  "LiveNodes_GetQuarantinedNodes (demo_quarantine demo_b demo_st) = [demo_b]"
proof -
  let ?s = "NodeHealthStore_new 0 NodeHealthStoreConfig_default [demo_a, demo_b]"
  let ?r = "NodeHealthStore_ReportNodeResult 0 demo_b Success (NodeHealthStore_ReportNodeResult 0 demo_b ConnectionFailure ?s)"
  have "NodeHealthStore_GetActiveNodes ?s = [demo_a, demo_b]" "NodeHealthStore_GetQuarantinedNodes ?s = []"
    "NodeHealthStore_GetActiveNodes ?r = [demo_a]" "NodeHealthStore_GetQuarantinedNodes ?r = [demo_b]" by code_simp+
  moreover have "ln_health_store (demo_quarantine demo_b demo_st) = ?r"
    by (simp add: demo_quarantine_def Report_unfold Let_def demo_new)
  ultimately show "LiveNodes_GetActiveNodes demo_st = [demo_a, demo_b]" "LiveNodes_GetQuarantinedNodes demo_st = []"
    "LiveNodes_GetActiveNodes (demo_quarantine demo_b demo_st) = [demo_a]"
    "LiveNodes_GetQuarantinedNodes (demo_quarantine demo_b demo_st) = [demo_b]"
    by (simp_all add: LiveNodes_GetActiveNodes_def LiveNodes_GetQuarantinedNodes_def demo_new)
qed

lemma demo_quarantine_inv: "ln_inv H st \<Longrightarrow> node_url u \<Longrightarrow> ln_inv H (demo_quarantine u st)"
  by (simp add: demo_quarantine_def ln_inv_Report)

lemma demo_quarantine_frame:
  "ln_quarantine_plan_index (demo_quarantine u st) = ln_quarantine_plan_index st"
  "ln_config (demo_quarantine u st) = ln_config st"
proof -
  show "ln_quarantine_plan_index (demo_quarantine u st) = ln_quarantine_plan_index st"
    using MarkActivity_frame(4) by (simp add: demo_quarantine_def Report_unfold Let_def)
  show "ln_config (demo_quarantine u st) = ln_config st" by (simp add: demo_quarantine_def)
qed

section \<open>Properties\<close>

text \<open>
  \<^bold>\<open>C25\<close>: an assignment of a hash to a quarantined node is sticky. Once a plan for a hash starts with a
  quarantined node, every later plan for this hash is the same, also after plans for any other hashes,
  as long as health and live nodes do not change.
\<close>

theorem sticky_assignment:
  assumes "ln_inv H st" "LiveNodes_GetQueryPlanNodesForHash h st = (Inr (u # us), st1)"
    and "u \<in> set (LiveNodes_GetQuarantinedNodes st)"
  shows "us = SortAndDedupeNodes (LiveNodes_GetActiveNodes st) \<and>
    LiveNodes_GetQueryPlanNodesForHash h (hash_calls hs st1) = (Inr (u # us), hash_calls hs st1)"
proof -
  note a = assigned_first[OF assms] and c = assigned_calls[OF assigned_first(1)[OF assms], of hs]
  have "same_nodes st (hash_calls hs st1)" using same_nodes_trans[OF a(3)] c by blast
  with assigned_call[of H h u "hash_calls hs st1"] a(2) c same_nodes_lists show ?thesis by metis
qed

text \<open>
  \<^bold>\<open>C26\<close>: without quarantined nodes \<open>NextNode\<close> is a round robin. As many calls as there are active nodes
  return each of them exactly once, in their order from the position of the counter on, unless the
  64-bit counter wraps around in between.
\<close>

theorem NextNode_round_robin:
  assumes "ln_inv H st" "LiveNodes_GetActiveNodes st \<noteq> []" "LiveNodes_GetQuarantinedNodes st = []"
    and "unat (ln_next_node_index st) + length (LiveNodes_GetActiveNodes st) \<le> 2 ^ 64"
  shows "next_nodes env (length (LiveNodes_GetActiveNodes st)) (st, w) =
      map Inr (rotate (unat (ln_next_node_index st)) (LiveNodes_GetActiveNodes st)) \<and>
    mset (next_nodes env (length (LiveNodes_GetActiveNodes st)) (st, w)) = mset (map Inr (LiveNodes_GetActiveNodes st))"
proof -
  let ?A = "LiveNodes_GetActiveNodes st"
  have "next_nodes env (length ?A) (st, w) = map Inr (rotate (unat (ln_next_node_index st)) ?A)"
    unfolding next_nodes_no_quarantine[OF assms] by (rule nth_equalityI) (simp_all add: nth_rotate)
  moreover have "mset (rotate n xs) = mset xs" for n and xs :: "Url list"
    by (metis append_take_drop_id mset_append add.commute rotate_drop_take)
  ultimately show ?thesis by simp
qed

text \<open>
  \<^bold>\<open>C27\<close>: quarantined nodes get one routing attempt in \<open>quarantine_traffic_interval\<close>. With active and
  quarantined nodes, \<open>n\<close> calls of \<open>NextNode\<close> return nodes of these lists only, and the number of
  quarantined ones is that of the multiples of the interval among the \<open>n\<close> next values of the counter.
\<close>

theorem quarantine_traffic_share:
  assumes "ln_inv H st" "LiveNodes_GetActiveNodes st \<noteq> []" "LiveNodes_GetQuarantinedNodes st \<noteq> []"
    and "unat (ln_quarantine_plan_index st) + n < 2 ^ 64"
  shows "set (next_nodes env n (st, w)) \<subseteq> Inr ` (set (LiveNodes_GetActiveNodes st) \<union> set (LiveNodes_GetQuarantinedNodes st)) \<and>
    length (filter (\<lambda>r. r \<in> Inr ` set (LiveNodes_GetQuarantinedNodes st)) (next_nodes env n (st, w))) =
      (unat (ln_quarantine_plan_index st) + n) div traffic_interval st - unat (ln_quarantine_plan_index st) div traffic_interval st"
  using next_nodes_sampling[OF assms, of env w] by linarith

theorem NextNode_round_robin_witness:
  "LiveNodes_new [''a'', ''b''] small_config 0 = Inr demo_st \<and>
   next_nodes demo_env 2 (demo_st, 0) = [Inr demo_a, Inr demo_b]"
proof -
  have "unat (ln_next_node_index demo_st) + length (LiveNodes_GetActiveNodes demo_st) \<le> 2 ^ 64"
    by (simp add: demo_new demo_lists)
  from NextNode_round_robin[OF demo_new(2) _ demo_lists(2) this, of demo_env 0] show ?thesis
    by (simp add: demo_new(1,3) demo_lists(1) numeral_2_eq_2 del: next_nodes.simps)
qed

theorem quarantine_traffic_share_witness:
  "LiveNodes_GetActiveNodes (demo_quarantine demo_b demo_st) = [demo_a] \<and>
   LiveNodes_GetQuarantinedNodes (demo_quarantine demo_b demo_st) = [demo_b] \<and>
   length (filter (\<lambda>r. r \<in> Inr ` set [demo_b]) (next_nodes demo_env 25 (demo_quarantine demo_b demo_st, 0))) = 2"
proof -
  let ?st = "demo_quarantine demo_b demo_st"
  note l = demo_lists(3,4) and inv = demo_quarantine_inv[OF demo_new(2) demo_hosts(3)]
  have p: "ln_quarantine_plan_index ?st = 0" by (simp add: demo_quarantine_frame demo_new)
  have t: "traffic_interval ?st = 10"
    by (simp add: traffic_interval_def demo_quarantine_frame demo_new small_config_def Config_default_def NodeHealthStoreConfig_default_def)
  have "LiveNodes_GetActiveNodes ?st \<noteq> []" "LiveNodes_GetQuarantinedNodes ?st \<noteq> []"
    "unat (ln_quarantine_plan_index ?st) + 25 < 2 ^ 64" by (simp_all add: l p)
  from conjunct2[OF quarantine_traffic_share[OF inv this, of demo_env 0]]
  have "length (filter (\<lambda>r. r \<in> Inr ` set [demo_b]) (next_nodes demo_env 25 (?st, 0))) = 2"
    unfolding l p t by simp
  with l show ?thesis by blast
qed

theorem sticky_assignment_witness:
  "\<exists>st st1. ln_inv {''a'', ''b''} st \<and> LiveNodes_GetQueryPlanNodesForHash 7 st = (Inr [demo_a], st1) \<and>
     LiveNodes_GetQueryPlanNodesForHash 7 (hash_calls [8, 7, 9] st1) = (Inr [demo_a], hash_calls [8, 7, 9] st1)"
proof -
  let ?st = "demo_quarantine demo_b (demo_quarantine demo_a demo_st)"
  have inv: "ln_inv {''a'', ''b''} ?st" using demo_quarantine_inv[OF demo_quarantine_inv[OF demo_new(2)]] demo_hosts by blast
  let ?s = "NodeHealthStore_new 0 NodeHealthStoreConfig_default [demo_a, demo_b]"
  let ?r = "\<lambda>u s. NodeHealthStore_ReportNodeResult 0 u Success (NodeHealthStore_ReportNodeResult 0 u ConnectionFailure s)"
  have "NodeHealthStore_GetActiveNodes (?r demo_b (?r demo_a ?s)) = []"
    "NodeHealthStore_GetQuarantinedNodes (?r demo_b (?r demo_a ?s)) = [demo_a, demo_b]" by code_simp+
  moreover have h: "ln_health_store ?st = ?r demo_b (?r demo_a ?s)"
    by (simp add: demo_quarantine_def Report_unfold Let_def demo_new)
  ultimately have l: "LiveNodes_GetActiveNodes ?st = []" "LiveNodes_GetQuarantinedNodes ?st = [demo_a, demo_b]"
    by (simp_all add: LiveNodes_GetActiveNodes_def LiveNodes_GetQuarantinedNodes_def)
  have m: "ln_quarantine_by_hash ?st = []" "ln_quarantine_node_index ?st = 0"
    by (simp_all add: demo_quarantine_def Report_unfold Let_def demo_new MarkActivity_def)
  have "FirstNodeWithSeed [demo_a] 7 = Inr demo_a" using FirstNodeWithSeed_returns[of "[demo_a]" 7] by auto
  then have f: "QuarantinedNodeIsFirstForHash demo_a [] 7 = Inr True" by (simp add: QuarantinedNodeIsFirstForHash_def)
  have s: "SortAndDedupeNodes [] = []" "ShouldTryQuarantinedNode True ?st = (True, ?st)" "\<not> Url_Empty demo_a"
    using l demo_hosts(2) by (simp_all add: SortAndDedupeNodes_def ShouldTryQuarantinedNode_def)
  have n: "sticky_new 7 [] ?st = (Inr demo_a, ?st\<lparr>ln_quarantine_node_index := 1, ln_quarantine_by_hash := [(7, demo_a)]\<rparr>)"
    using l m f s(2) by (simp add: sticky_new_def Let_def)
  obtain st1 where c: "LiveNodes_GetQueryPlanNodesForHash 7 ?st = (Inr [demo_a], st1)"
    using n s l m by (simp add: LiveNodes_GetQueryPlanNodesForHash_def StickyQuarantinedNodeForHash_def Let_def)
  from sticky_assignment[OF inv c, of "[8, 7, 9]"] l c inv show ?thesis by auto
qed


text \<open>
  routing by key over the live nodes. When the key of a write hashes to a seed and there are active
  nodes, the plan exists and hands out at most one quarantined node, then every active node exactly
  once in the order of the seed; so two clients with the same active nodes send the key to the same
  node unless they are sampling a quarantined one.
\<close>

theorem live_partition_key_plan:
  assumes "ln_inv H st" "HashPartitionKey values table md = Inr seed" "LiveNodes_GetActiveNodes st \<noteq> []"
  shows "\<exists>p st' xs us. QueryPlanForPartitionKey LiveNodes_source values table md st = (Inr p, st') \<and> ln_inv H st' \<and>
    DrainPlan (QueryPlan_WithSortedSeed (SortAndDedupeNodes (LiveNodes_GetActiveNodes st)) seed) = Inr us \<and>
    DrainPlan p = Inr (xs @ us) \<and> distinct (xs @ us) \<and> set us = set (LiveNodes_GetActiveNodes st) \<and>
    set xs \<subseteq> set (LiveNodes_GetQuarantinedNodes st) \<and> length xs \<le> 1"
  using live.partition_key_plan[OF assms(1,2)] assms(3) by (simp add: LiveNodes_source_def) blast

theorem live_partition_key_plan_witness:
  "\<exists>p st' us xs. QueryPlanForPartitionKey LiveNodes_source [(''id'', AttributeValue_Number ''42'')] ''t''
       \<lparr>pkm_partition_key_by_table = [(''t'', ''id'')]\<rparr> demo_st = (Inr p, st') \<and>
     DrainPlan p = Inr (xs @ us) \<and> set us = {demo_a, demo_b} \<and> xs = []"
proof -
  let ?md = "\<lparr>pkm_partition_key_by_table = [(''t'', ''id'')]\<rparr>" and ?v = "[(''id'', AttributeValue_Number ''42'')]"
  have "HashPartitionKey ?v ''t'' ?md = Inr (AttributeValue_Hash (AttributeValue_Number ''42''))"
    by (simp add: HashPartitionKey_def GetPartitionKeyName_def)
  from live_partition_key_plan[OF demo_new(2) this] show ?thesis by (auto simp: demo_lists)
qed

text \<open>
  routing of a batch over the live nodes. With an operation whose key is known and an active node,
  the plan hands out quarantined nodes that are being sampled, then the nodes the operations vote for
  by falling number of votes, then the other active nodes, each node once.
\<close>

theorem live_batch_write_plan:
  assumes "ln_inv H st" "BatchWriteHashes ops md \<noteq> []" "LiveNodes_GetActiveNodes st \<noteq> []"
  shows "\<exists>p st' xs. QueryPlanForBatchWrite LiveNodes_source ops md st = (Inr p, st') \<and> ln_inv H st' \<and>
    set xs \<subseteq> set (LiveNodes_GetQuarantinedNodes st) \<and> distinct xs \<and>
    DrainPlan p = Inr (xs @ by_votes (SortAndDedupeNodes (LiveNodes_GetActiveNodes st)) (BatchWriteHashes ops md) @
      filter (\<lambda>u. votes_for (SortAndDedupeNodes (LiveNodes_GetActiveNodes st)) (BatchWriteHashes ops md) u = 0)
        (SortAndDedupeNodes (LiveNodes_GetActiveNodes st)))"
  using live.batch_write_plan[OF assms(1,2)] assms(3) by (simp add: LiveNodes_source_def) blast

theorem live_batch_write_plan_witness:
  "\<exists>p st' us. QueryPlanForBatchWrite LiveNodes_source [BatchWriteOperation_Put ''t'' [(''id'', AttributeValue_Number ''42'')]]
       \<lparr>pkm_partition_key_by_table = [(''t'', ''id'')]\<rparr> demo_st = (Inr p, st') \<and> DrainPlan p = Inr us"
proof -
  let ?md = "\<lparr>pkm_partition_key_by_table = [(''t'', ''id'')]\<rparr>"
  let ?ops = "[BatchWriteOperation_Put ''t'' [(''id'', AttributeValue_Number ''42'')]]"
  have "BatchWriteHashes ?ops ?md \<noteq> []"
    by (simp add: BatchWriteOperation_Put_def HashPartitionKey_def GetPartitionKeyName_def)
  from live_batch_write_plan[OF demo_new(2) this] show ?thesis by (simp add: demo_lists) blast
qed

end
