(* ===== verification/Live_Nodes_Cluster.thy ===== *)
theory Live_Nodes_Cluster
  imports Live_Nodes_Routing
begin

text \<open>
  Discovery and updates against a cluster: what an update installs, the union of the answers of a
  cluster-wide discovery, and the fallback from scope to scope.
\<close>

section \<open>Updates\<close>


section \<open>What discovery finds\<close>

lemma SortAndDedupe_set_eq:
  assumes "set us = set vs" "Ball (set vs) node_url"
  shows "SortAndDedupeNodes us = SortAndDedupeNodes vs"
  using SortAndDedupe_cong assms by metis

text \<open>
  A cluster whose answers do not change: \<open>resp\<close> is the response at each URL, and the hosts a node reports
  for a scope are those of a well-formed answer with status 200.
\<close>

definition static_env :: "'w Environment \<Rightarrow> (Url \<Rightarrow> HttpResponse result) \<Rightarrow> bool" where
  "static_env env resp \<longleftrightarrow> (\<forall>u w. env_Get env u w = (resp u, w)) \<and> (\<forall>u. resp u \<noteq> Inl Diverges)"

definition reported_hosts :: "(Url \<Rightarrow> HttpResponse result) \<Rightarrow> RoutingScope \<Rightarrow> Url \<Rightarrow> string list option" where
  "reported_hosts resp scope u =
     (case resp (Url_WithPathAndQuery u ''/localnodes'' (LocalNodesQuery scope)) of
        Inl e \<Rightarrow> None
      | Inr r \<Rightarrow>
          if resp_status_code r \<noteq> 200 then None
          else (case ParseJsonStringArray (resp_body r) of Inl e \<Rightarrow> None | Inr hosts \<Rightarrow> Some hosts))"

lemma static_endpoint:
  assumes "static_env env resp"
  shows "\<exists>e. e \<noteq> Diverges \<and>
    GetNodesFromEndpoint env (Url_WithPathAndQuery u ''/localnodes'' (LocalNodesQuery scope)) (st, w) =
    (case reported_hosts resp scope u of None \<Rightarrow> Inl e | Some hosts \<Rightarrow> Inr (ToUrls hosts (ln_config st)), st, w)"
proof (cases "resp (Url_WithPathAndQuery u ''/localnodes'' (LocalNodesQuery scope))")
  case (Inl e)
  then show ?thesis using assms by (intro exI[of _ e]) (auto simp: static_env_def GetNodesFromEndpoint_def reported_hosts_def)
next
  case (Inr r)
  then show ?thesis using assms
    by (cases "resp_status_code r \<noteq> 200"; cases "ParseJsonStringArray (resp_body r)")
      (auto simp: static_env_def GetNodesFromEndpoint_def reported_hosts_def)
qed

lemma static_env_ok:
  assumes "static_env env resp" "\<And>u r hosts. resp u = Inr r \<Longrightarrow> ParseJsonStringArray (resp_body r) = Inr hosts \<Longrightarrow> set hosts \<subseteq> H"
  shows "env_ok H env"
  using assms unfolding env_ok_def static_env_def by (metis prod.inject)

definition found_hosts :: "(Url \<Rightarrow> HttpResponse result) \<Rightarrow> RoutingScope \<Rightarrow> Url set \<Rightarrow> string set" where
  "found_hosts resp scope us = (\<Union>u \<in> us. case reported_hosts resp scope u of None \<Rightarrow> {} | Some hosts \<Rightarrow> set hosts)"

text \<open>The result of a discovery over a set of nodes, all of which answered or not.\<close>

definition discovery_result :: "Url set \<Rightarrow> bool \<Rightarrow> Url list result \<Rightarrow> bool" where
  "discovery_result found complete r \<longleftrightarrow>
     (if found \<noteq> {} then \<exists>us. r = Inr (SortAndDedupeNodes us) \<and> set us = found
      else if complete then r = Inr []
      else \<exists>e. e \<noteq> Diverges \<and> r = Inl e)"

lemma found_hosts_insert:
  "found_hosts resp scope (insert u us) =
     (case reported_hosts resp scope u of None \<Rightarrow> {} | Some hosts \<Rightarrow> set hosts) \<union> found_hosts resp scope us"
  by (simp add: found_hosts_def)

lemma set_ToUrls [simp]: "set (ToUrls hosts config) = node_of config ` set hosts"
  by (auto simp: ToUrls_def node_of_def)

lemma cluster_loop:
  fixes st :: AlternatorLiveNodes and discovered :: "Url list"
  assumes "static_env env resp" "plan_ok plan" "\<forall>u \<in> set (qp_nodes plan). \<not> Url_Empty u" "last_error \<noteq> Some Diverges"
  shows "\<exists>r st'. GetNodesForScope_loop env ClusterScope plan discovered last_error (st, w) = (r, st', w) \<and>
    discovery_result (set discovered \<union> node_of (ln_config st) ` found_hosts resp ClusterScope (set (qp_nodes plan)))
      (last_error = None \<and> (\<forall>u \<in> set (qp_nodes plan). reported_hosts resp ClusterScope u \<noteq> None)) r"
  using assms(2-4)
proof (induction "length (qp_nodes plan)" arbitrary: plan discovered last_error st rule: less_induct)
  case less
  obtain u plan' where n: "QueryPlan_Next plan = Inr (u, plan')" "plan_ok plan'"
    "if qp_nodes plan = [] then u = Url_default \<and> qp_nodes plan' = []
     else mset (qp_nodes plan) = add_mset u (mset (qp_nodes plan'))" using Next_spec[OF less.prems(1)] .
  note unfold = GetNodesForScope_loop.simps[of env ClusterScope plan discovered last_error "(st, w)"]
  show ?case
  proof (cases "qp_nodes plan = []")
    case True
    then show ?thesis using n less.prems(3) unfolding unfold by (auto simp: found_hosts_def discovery_result_def split: option.split)
  next
    case False
    then have nodes: "set (qp_nodes plan) = insert u (set (qp_nodes plan'))"
      using n(3) by (metis set_mset_add_mset_insert set_mset_mset)
    then have ne: "\<not> Url_Empty u" "\<forall>u \<in> set (qp_nodes plan'). \<not> Url_Empty u" using less.prems(2) by auto
    note ih = less.hyps[OF Next_shrinks[OF n(1) ne(1)] n(2) ne(2)]
    obtain e where e: "e \<noteq> Diverges" "GetNodesFromEndpoint env (Url_WithPathAndQuery u ''/localnodes'' (LocalNodesQuery ClusterScope)) (st, w) =
      (case reported_hosts resp ClusterScope u of None \<Rightarrow> Inl e | Some hosts \<Rightarrow> Inr (ToUrls hosts (ln_config st)), st, w)"
      using static_endpoint[OF assms(1)] by blast
    show ?thesis
    proof (cases "reported_hosts resp ClusterScope u")
      case None
      obtain obs where obs: "discovery_observation e = Some obs" using e(1) by (cases e) auto
      let ?st = "LiveNodes_ReportNodeResult (env_now env w) u obs st"
      have eq: "GetNodesForScope_loop env ClusterScope plan discovered last_error (st, w) =
          GetNodesForScope_loop env ClusterScope plan' discovered (Some e) (?st, w)"
        using n(1) ne(1) e None obs unfolding unfold by simp
      show ?thesis
        using ih[of "Some e" discovered ?st] e(1) unfolding eq by (simp add: nodes found_hosts_insert None)
    next
      case (Some hosts)
      have "GetNodesForScope_loop env ClusterScope plan discovered last_error (st, w) =
          GetNodesForScope_loop env ClusterScope plan' (discovered @ ToUrls hosts (ln_config st)) last_error (st, w)"
        using n(1) ne(1) e Some unfolding unfold by simp
      with ih[OF less.prems(3), of "discovered @ ToUrls hosts (ln_config st)" st] nodes Some show ?thesis
        by (simp add: found_hosts_insert image_Un Un_assoc)
    qed
  qed
qed

text \<open>
  \<^bold>\<open>C20\<close>: cluster-wide discovery. Over a cluster with fixed answers, the discovery of the cluster scope
  asks every initial node, in whatever order the plan picks, and returns exactly the union of the hosts
  reported by the nodes that answered properly; failing nodes are skipped. If nobody reported a host,
  the result is an error when a node failed and the empty list otherwise.
\<close>

theorem cluster_discovery_union:
  assumes "static_env env resp" "ln_inv H st"
  shows "\<exists>r st'. GetNodesForScope env ClusterScope (st, w) = (r, st', w) \<and>
    discovery_result (node_of (ln_config st) ` found_hosts resp ClusterScope (set (ln_initial_nodes st)))
      (\<forall>u \<in> set (ln_initial_nodes st). reported_hosts resp ClusterScope u \<noteq> None) r"
proof -
  let ?plan = "QueryPlan_FromClock (env_seed env w) (ln_initial_nodes st)"
  have n: "nodes_of (ln_config st) H (ln_initial_nodes st)" "hosts_ok H" "ValidateConfig (ln_config st) = Inr ()"
    using assms(2) by (auto simp: ln_inv_def)
  have qp: "qp_nodes ?plan = ln_initial_nodes st" by (simp add: QueryPlan_FromClock_def QueryPlan_new_def)
  have "\<forall>u \<in> set (qp_nodes ?plan). \<not> Url_Empty u" using nodes_of_ok(3)[OF n(2,3,1)] qp by simp
  from cluster_loop[OF assms(1) plan_over_nodes(1)[OF assms(2) n(1)] this, of None "[]" st w]
  show ?thesis by (simp add: GetNodesForScope_def GetDiscoveryNodesForScope_def qp)
qed

section \<open>Fallback scopes\<close>

lemma ToUrls_sorted:
  assumes "set vs = node_of config ` set hosts" "Ball (node_of config ` set hosts) node_url"
  shows "SortAndDedupeNodes vs = ToUrls hosts config"
proof -
  have "SortAndDedupeNodes vs = SortAndDedupeNodes (ToUrls hosts config)"
    using assms by (intro SortAndDedupe_set_eq) auto
  also have "\<dots> = ToUrls hosts config"
    using assms(2) unfolding ToUrls_def by (intro SortAndDedupe_idem) (auto simp: node_of_def)
  finally show ?thesis .
qed

text \<open>All nodes give the same answer for a scope.\<close>

lemma uniform_loop:
  assumes "static_env env resp" "plan_ok plan" "\<forall>u \<in> set (qp_nodes plan). \<not> Url_Empty u \<and> reported_hosts resp scope u = Some hosts"
    and "set discovered = {} \<or> IsCluster scope \<and> set discovered = node_of (ln_config st) ` set hosts"
    and "Ball (node_of (ln_config st) ` set hosts) node_url" "qp_nodes plan \<noteq> [] \<or> discovered \<noteq> [] \<or> hosts = []"
  shows "GetNodesForScope_loop env scope plan discovered None (st, w) = (Inr (ToUrls hosts (ln_config st)), st, w)"
  using assms(2-4,6)
proof (induction "length (qp_nodes plan)" arbitrary: plan discovered rule: less_induct)
  case less
  let ?us = "ToUrls hosts (ln_config st)"
  obtain u plan' where n: "QueryPlan_Next plan = Inr (u, plan')" "plan_ok plan'"
    "if qp_nodes plan = [] then u = Url_default \<and> qp_nodes plan' = []
     else mset (qp_nodes plan) = add_mset u (mset (qp_nodes plan'))" using Next_spec[OF less.prems(1)] .
  note unfold = GetNodesForScope_loop.simps[of env scope plan discovered None "(st, w)"]
  show ?case
  proof (cases "qp_nodes plan = []")
    case True
    with less.prems have "set discovered = node_of (ln_config st) ` set hosts" by auto
    from ToUrls_sorted[OF this assms(5)] True n show ?thesis
      unfolding unfold by (auto simp: SortAndDedupeNodes_def)
  next
    case False
    then have nodes: "set (qp_nodes plan) = insert u (set (qp_nodes plan'))"
      using n(3) by (metis set_mset_add_mset_insert set_mset_mset)
    then have u: "\<not> Url_Empty u" "reported_hosts resp scope u = Some hosts" using less.prems(2) by auto
    have g: "GetNodesFromEndpoint env (Url_WithPathAndQuery u ''/localnodes'' (LocalNodesQuery scope)) (st, w) = (Inr ?us, st, w)"
      using static_endpoint[OF assms(1), where scope = scope and u = u and st = st and w = w] u(2) by auto
    have us: "set ?us = node_of (ln_config st) ` set hosts" by simp
    then have empty: "?us = [] \<longleftrightarrow> hosts = []" by (metis image_is_empty set_empty)
    show ?thesis
    proof (cases "?us = [] \<or> IsCluster scope")
      case True
      with us empty less.prems(3) have "set (discovered @ ?us) = {} \<or> IsCluster scope \<and> set (discovered @ ?us) = node_of (ln_config st) ` set hosts"
        by auto
      moreover have "discovered @ ?us \<noteq> [] \<or> hosts = []" using empty by auto
      ultimately have "GetNodesForScope_loop env scope plan' (discovered @ ?us) None (st, w) = (Inr ?us, st, w)"
        using less.hyps[OF Next_shrinks[OF n(1) u(1)] n(2), of "discovered @ ?us"] less.prems(2) nodes by simp
      with True n(1) u(1) g show ?thesis unfolding unfold by (auto split: if_splits)
    next
      case False
      with n(1) u(1) g show ?thesis unfolding unfold by simp
    qed
  qed
qed

lemma uniform_scope:
  assumes "static_env env resp" "ln_inv H st" "LiveNodes_GetActiveNodes st \<noteq> []" "set hosts \<subseteq> H"
    and "\<And>u. node_url u \<Longrightarrow> reported_hosts resp scope u = Some hosts"
  shows "\<exists>st'. GetNodesForScope env scope (st, w) = (Inr (ToUrls hosts (ln_config st)), st', w) \<and>
    ln_inv H st' \<and> same_nodes st st'"
proof -
  obtain us st1 where d: "GetDiscoveryNodesForScope scope st = (us, st1)" by (metis surj_pair)
  note f = discovery_nodes[OF assms(2) d]
  have hv: "hosts_ok H" "ValidateConfig (ln_config st) = Inr ()" using assms(2) by (auto simp: ln_inv_def)
  have c: "ln_config st1 = ln_config st" using f(2) by (simp add: same_nodes_def)
  have us: "us \<noteq> []"
  proof (cases "IsCluster scope")
    case True
    then show ?thesis using d assms(2) by (auto simp: GetDiscoveryNodesForScope_def ln_inv_def)
  next
    case False
    then have "LiveNodes_GetQueryPlanNodes st = (us, st1)" using d by (simp add: GetDiscoveryNodesForScope_def)
    from GetQueryPlanNodes_frame(5)[OF assms(2) this] assms(3) show ?thesis by auto
  qed
  let ?plan = "QueryPlan_FromClock (env_seed env w) us"
  have qp: "qp_nodes ?plan = us" by (simp add: QueryPlan_FromClock_def QueryPlan_new_def)
  have p: "plan_ok ?plan" "Ball (set us) node_url" using plan_over_nodes[OF assms(2) f(3), of "env_seed env w"] qp by simp_all
  have "Ball (node_of (ln_config st1) ` set hosts) node_url"
    using assms(4) hv node_of_url c by (auto simp: hosts_ok_def)
  from uniform_loop[OF assms(1) p(1) _ _ this, where discovered = "[]"] p(2) qp us assms(5)
  have "GetNodesForScope_loop env scope ?plan [] None (st1, w) = (Inr (ToUrls hosts (ln_config st1)), st1, w)" by simp
  with d f c show ?thesis by (simp add: GetNodesForScope_def)
qed


text \<open>A cluster of two nodes in one datacenter: any other scope is empty.\<close>

definition demo_resp :: "Url \<Rightarrow> HttpResponse result" where
  "demo_resp u = Inr \<lparr>resp_status_code = 200, resp_body = (if url_query u = [] then ''[\"a\",\"b\"]'' else ''[]'')\<rparr>"

definition demo_static :: "int Environment" where
  "demo_static = \<lparr>env_Get = (\<lambda>u w. (demo_resp u, w)), env_now = (\<lambda>w. w), env_seed = (\<lambda>w. 0)\<rparr>"

definition demo_hosts_of :: "RoutingScope \<Rightarrow> string list" where
  "demo_hosts_of scope = (if LocalNodesQuery scope = [] then [''a'', ''b''] else [])"

lemma demo_static: "static_env demo_static demo_resp"
  by (simp add: static_env_def demo_static_def demo_resp_def)

lemma demo_parse: "ParseJsonStringArray ''[\"a\",\"b\"]'' = Inr [''a'', ''b'']" "ParseJsonStringArray ''[]'' = Inr []"
  by code_simp+

lemma demo_reported: "reported_hosts demo_resp scope u = Some (demo_hosts_of scope)"
  by (simp add: reported_hosts_def demo_resp_def demo_parse demo_hosts_of_def Url_WithPathAndQuery_def)

lemma demo_static_ok: "env_ok {''a'', ''b''} demo_static"
  by (rule static_env_ok[OF demo_static]) (auto simp: demo_resp_def demo_parse split: if_splits)

lemma demo_hosts_of: "set (demo_hosts_of scope) \<subseteq> {''a'', ''b''}"
  by (auto simp: demo_hosts_of_def split: if_splits)

theorem cluster_discovery_union_witness:
  "\<exists>us st'. GetNodesForScope demo_static ClusterScope (demo_st, 0) = (Inr us, st', 0) \<and> set us = {demo_a, demo_b}"
proof -
  have "ln_initial_nodes demo_st = [demo_a, demo_b]" using demo_new(7) LiveNodes_new_inv(4)[OF demo_hosts(1) _ demo_new(1)] by simp
  then have f: "node_of (ln_config demo_st) ` found_hosts demo_resp ClusterScope (set (ln_initial_nodes demo_st)) = {demo_a, demo_b}"
    by (simp add: found_hosts_def demo_reported demo_hosts_of_def node_of_def demo_new(5) small_config_def Config_default_def demo_a_def demo_b_def)
  from cluster_discovery_union[OF demo_static demo_new(2), of 0] show ?thesis
    unfolding f by (auto simp: discovery_result_def)
qed


definition fallback_config :: Config where
  "fallback_config = small_config\<lparr>cfg_routing_scope := Some (DatacenterScope ''x'' (Some ClusterScope))\<rparr>"


end
