(* ===== verification/Atomic_Programs.thy ===== *)
theory Atomic_Programs
  imports Main "HOL-Library.Multiset"
begin

text \<open>
  Threads over shared state. A program is the tree of its atomic sections: each section has a guard it waits
  for (a mutex that is free, a request that is answered), an effect on the shared state, and the rest of the
  program, which depends on what the section read. A pool of such programs runs interleaved, one section at a
  time.

  The locale \<open>shared_object\<close> is the contract of an object whose calls run in a pool: relations for what a thread may
  rely on and what it guarantees, and the states in which it must not be kept waiting. Its lemmas lift the
  contract from single calls to the pool.
\<close>

section \<open>Programs\<close>

datatype ('s, 'a) prog =
    Return 'a
  | Atom "'s \<Rightarrow> bool" "'s \<Rightarrow> 's" "'s \<Rightarrow> ('s, 'a) prog"

primrec pbind :: "('s, 'a) prog \<Rightarrow> ('a \<Rightarrow> ('s, 'b) prog) \<Rightarrow> ('s, 'b) prog" where
  "pbind (Return a) k = k a"
| "pbind (Atom guard change next) k = Atom guard change (\<lambda>s. pbind (next s) k)"

definition await :: "('s \<Rightarrow> bool) \<Rightarrow> ('s \<Rightarrow> 'a \<times> 's) \<Rightarrow> ('s, 'a) prog" where
  "await guard f = Atom guard (\<lambda>s. snd (f s)) (\<lambda>s. Return (fst (f s)))"

definition atomic :: "('s \<Rightarrow> 'a \<times> 's) \<Rightarrow> ('s, 'a) prog" where
  "atomic f = await (\<lambda>s. True) f"

primrec pfor :: "('x \<Rightarrow> ('s, 'a) prog) \<Rightarrow> 'x list \<Rightarrow> ('s, unit) prog" where
  "pfor f [] = Return ()"
| "pfor f (x # xs) = pbind (f x) (\<lambda>_. pfor f xs)"

text \<open>A program that runs alone; \<open>None\<close> is a guard that does not hold.\<close>

primrec run :: "('s, 'a) prog \<Rightarrow> 's \<Rightarrow> ('a \<times> 's) option" where
  "run (Return a) s = Some (a, s)"
| "run (Atom guard change next) s = (if guard s then run (next s) (change s) else None)"

text \<open>
  A program whose sections run in the given states and which then returns a value. Between two sections anything
  may happen to the state.
\<close>

inductive sees :: "('s, 'a) prog \<Rightarrow> 's list \<Rightarrow> 'a \<Rightarrow> bool" where
  returned: "sees (Return a) [] a"
| step: "guard s \<Longrightarrow> sees (next s) ss a \<Longrightarrow> sees (Atom guard change next) (s # ss) a"

inductive_simps sees_Return [simp]: "sees (Return a) ss b"
inductive_simps sees_Atom: "sees (Atom guard change next) ss b"

lemma run_pbind [simp]: "run (pbind p k) s = Option.bind (run p s) (\<lambda>(a, t). run (k a) t)"
  by (induction p arbitrary: s) auto

lemma run_await [simp]: "run (await guard f) s = (if guard s then Some (f s) else None)"
  by (simp add: await_def)

lemma run_atomic [simp]: "run (atomic f) s = Some (f s)"
  by (simp add: atomic_def)

lemma sees_pbind: "sees (pbind p k) ss b \<longleftrightarrow> (\<exists>ss1 ss2 a. ss = ss1 @ ss2 \<and> sees p ss1 a \<and> sees (k a) ss2 b)"
proof (induction p arbitrary: ss)
  case (Atom guard change "next")
  show ?case (is "?L \<longleftrightarrow> ?R")
  proof
    assume ?L
    then obtain s ss' where s: "ss = s # ss'" "guard s" "sees (pbind (next s) k) ss' b" by (auto simp: sees_Atom)
    then obtain ss1 ss2 a where "ss' = ss1 @ ss2" "sees (next s) ss1 a" "sees (k a) ss2 b" using Atom by auto
    with s show ?R by (intro exI[of _ "s # ss1"] exI[of _ ss2] exI[of _ a]) (auto simp: sees_Atom)
  next
    assume ?R
    then obtain s ss1 ss2 a where "ss = s # ss1 @ ss2" "guard s" "sees (next s) ss1 a" "sees (k a) ss2 b"
      by (auto simp: sees_Atom)
    then show ?L using Atom by (auto simp: sees_Atom)
  qed
qed simp

lemma sees_await [simp]: "sees (await guard f) ss a \<longleftrightarrow> (\<exists>s. ss = [s] \<and> guard s \<and> a = fst (f s))"
  by (auto simp: await_def sees_Atom)

lemma sees_atomic [simp]: "sees (atomic f) ss a \<longleftrightarrow> (\<exists>s. ss = [s] \<and> a = fst (f s))"
  by (simp add: atomic_def)

section \<open>Interleaving\<close>

inductive par_step :: "('s, 'a) prog list \<times> 's \<Rightarrow> ('s, 'a) prog list \<times> 's \<Rightarrow> bool" where
  "i < length T \<Longrightarrow> T ! i = Atom guard change next \<Longrightarrow> guard s \<Longrightarrow>
     par_step (T, s) (T[i := next s], change s)"

inductive_simps par_step_iff: "par_step (T, s) y"

text \<open>The sections of a finite pool come to an end, whatever the schedule.\<close>

definition later :: "(('s, 'a) prog \<times> ('s, 'a) prog) set" where
  "later = {(next s, Atom guard change next) | guard change next s. True}"

lemma wf_later: "wf (later :: (('s, 'a) prog \<times> ('s, 'a) prog) set)"
proof (rule wfUNIVI)
  fix P :: "('s, 'a) prog \<Rightarrow> bool" and p
  assume "\<forall>x. (\<forall>y. (y, x) \<in> later \<longrightarrow> P y) \<longrightarrow> P x"
  then have step: "\<And>x. (\<And>y. (y, x) \<in> later \<Longrightarrow> P y) \<Longrightarrow> P x" by blast
  show "P p"
  proof (induction p)
    case (Return a)
    show ?case by (rule step) (simp add: later_def)
  next
    case (Atom guard change "next")
    show ?case by (rule step) (use Atom in \<open>auto simp: later_def\<close>)
  qed
qed

lemma par_step_later:
  assumes "par_step (T, s) (T', s')"
  shows "(mset T', mset T) \<in> mult later"
proof -
  obtain i guard change "next" where i: "i < length T" "T ! i = Atom guard change next" "T' = T[i := next s]"
    using assms by (auto simp: par_step_iff)
  have "mset T' = (mset T - {#T ! i#}) + {#next s#}" "mset T = (mset T - {#T ! i#}) + {#T ! i#}"
    using i(1,3) by (simp_all add: mset_update)
  moreover have "\<forall>k \<in># {#next s#}. \<exists>j \<in># {#T ! i#}. (k, j) \<in> later" using i(2) by (auto simp: later_def)
  ultimately show ?thesis using one_step_implies_mult[of "{#T ! i#}" "{#next s#}" later "mset T - {#T ! i#}"] by simp
qed

lemma par_step_terminates: "wf {(y, x). par_step x y}"
proof (rule wf_subset)
  show "wf (inv_image (mult later) (mset \<circ> fst))" by (intro wf_inv_image wf_mult wf_later)
  show "{(y, x). par_step x y} \<subseteq> inv_image (mult later) (mset \<circ> fst)" using par_step_later by fastforce
qed

lemma par_step_settles: "\<exists>y. par_step\<^sup>*\<^sup>* x y \<and> (\<forall>z. \<not> par_step y z)"
proof (induction x rule: wf_induct_rule[OF par_step_terminates])
  case (1 x)
  show ?case
  proof (cases "\<exists>z. par_step x z")
    case True
    then obtain z where z: "par_step x z" by blast
    with 1 obtain y where "par_step\<^sup>*\<^sup>* z y" "\<forall>z. \<not> par_step y z" by blast
    with z show ?thesis by (blast intro: converse_rtranclp_into_rtranclp)
  qed blast
qed

text \<open>Some sections of one program, while the other threads rest.\<close>

inductive prog_step :: "('s, 'a) prog \<times> 's \<Rightarrow> ('s, 'a) prog \<times> 's \<Rightarrow> bool" where
  "guard s \<Longrightarrow> prog_step (Atom guard change next, s) (next s, change s)"

lemma prog_step_pbind: "prog_step\<^sup>*\<^sup>* (p, s) (q, t) \<Longrightarrow> prog_step\<^sup>*\<^sup>* (pbind p k, s) (pbind q k, t)"
proof (induction rule: rtranclp_induct2)
  case (step q t q' t')
  from step(2) have "prog_step (pbind q k, t) (pbind q' k, t')"
    by cases (use prog_step.intros[where s = t] in auto)
  with step.IH show ?case by (rule rtranclp.rtrancl_into_rtrancl)
qed simp

lemma run_prog_step: "run p s = Some (a, t) \<Longrightarrow> prog_step\<^sup>*\<^sup>* (p, s) (Return a, t)"
proof (induction p arbitrary: s)
  case (Atom guard change "next")
  then have "prog_step (Atom guard change next, s) (next s, change s)" "prog_step\<^sup>*\<^sup>* (next s, change s) (Return a, t)"
    by (auto intro: prog_step.intros split: if_splits)
  then show ?case by (rule converse_rtranclp_into_rtranclp)
qed simp

lemma run_pbind_step: "run p s = Some (a, t) \<Longrightarrow> prog_step\<^sup>*\<^sup>* (k a, t) (q, u) \<Longrightarrow> prog_step\<^sup>*\<^sup>* (pbind p k, s) (q, u)"
  using prog_step_pbind[OF run_prog_step, of p s a t k] by simp

lemma prog_steps_par:
  assumes "prog_step\<^sup>*\<^sup>* (p, s) (q, t)" "i < length T"
  shows "par_step\<^sup>*\<^sup>* (T[i := p], s) (T[i := q], t)"
  using assms(1)
proof (induction rule: rtranclp_induct2)
  case (step q t q' t')
  from step(2) have "par_step (T[i := q], t) (T[i := q'], t')"
    by cases (use par_step.intros[of i "T[i := q]"] assms(2) in auto)
  with step.IH show ?case by (rule rtranclp.rtrancl_into_rtrancl)
qed simp

text \<open>Threads begin a call when the last one has returned; what is outside changes at any time.\<close>

inductive pool_step ::
  "(nat \<Rightarrow> ('s, 'a) prog set) \<Rightarrow> ('s \<Rightarrow> 's \<Rightarrow> bool) \<Rightarrow> ('s, 'a) prog list \<times> 's \<Rightarrow> ('s, 'a) prog list \<times> 's \<Rightarrow> bool"
  for calls outside where
  advance: "par_step x y \<Longrightarrow> pool_step calls outside x y"
| call: "i < length T \<Longrightarrow> T ! i = Return r \<Longrightarrow> p \<in> calls i \<Longrightarrow> pool_step calls outside (T, s) (T[i := p], s)"
| outside: "outside s t \<Longrightarrow> pool_step calls outside (T, s) (T, t)"

text \<open>
  What thread \<open>i\<close> sees in a run of a pool: the states in which its own sections run, while the other threads and the outside
  act in between.
\<close>

inductive saw ::
  "(('s, 'a) prog list \<times> 's \<Rightarrow> ('s, 'a) prog list \<times> 's \<Rightarrow> bool) \<Rightarrow> nat \<Rightarrow>
    ('s, 'a) prog list \<times> 's \<Rightarrow> 's list \<Rightarrow> ('s, 'a) prog list \<times> 's \<Rightarrow> bool"
  for step i where
  nothing: "saw step i x [] x"
| mine: "i < length T \<Longrightarrow> T ! i = Atom guard change next \<Longrightarrow> guard s \<Longrightarrow>
     step (T, s) (T[i := next s], change s) \<Longrightarrow> saw step i (T[i := next s], change s) ss y \<Longrightarrow> saw step i (T, s) (s # ss) y"
| other: "step x y \<Longrightarrow> fst y ! i = fst x ! i \<Longrightarrow> saw step i y ss z \<Longrightarrow> saw step i x ss z"

lemma saw_sees: "saw step i x ss y \<Longrightarrow> fst y ! i = Return r \<Longrightarrow> sees (fst x ! i) ss r"
  by (induction rule: saw.induct) (auto simp: sees_Atom)

lemma saw_reachable: "saw step i x ss y \<Longrightarrow> s \<in> set ss \<Longrightarrow> \<exists>T. step\<^sup>*\<^sup>* x (T, s)"
  by (induction rule: saw.induct) (auto intro: converse_rtranclp_into_rtranclp)

text \<open>What is known of the value a program returns, from the states in which its sections ran.\<close>

definition gives :: "('s \<Rightarrow> bool) \<Rightarrow> ('s, 'a) prog \<Rightarrow> ('s list \<Rightarrow> 'a \<Rightarrow> bool) \<Rightarrow> bool" where
  "gives C p Q \<longleftrightarrow> (\<forall>ss a. sees p ss a \<longrightarrow> (\<forall>s \<in> set ss. C s) \<longrightarrow> Q ss a)"

lemma gives_Return [simp]: "gives C (Return a) Q \<longleftrightarrow> Q [] a"
  by (auto simp: gives_def)

lemma gives_await [simp]: "gives C (await guard f) Q \<longleftrightarrow> (\<forall>s. guard s \<longrightarrow> C s \<longrightarrow> Q [s] (fst (f s)))"
  by (auto simp: gives_def)

lemma gives_atomic [simp]: "gives C (atomic f) Q \<longleftrightarrow> (\<forall>s. C s \<longrightarrow> Q [s] (fst (f s)))"
  by (simp add: atomic_def)

lemma gives_True [simp]: "gives C p (\<lambda>_ _. True)"
  by (simp add: gives_def)

lemma gives_pbind:
  "gives C p P \<Longrightarrow> (\<And>ss a. P ss a \<Longrightarrow> gives C (k a) (\<lambda>ts. Q (ss @ ts))) \<Longrightarrow> gives C (pbind p k) Q"
  by (fastforce simp: gives_def sees_pbind)

lemma gives_if: "(b \<Longrightarrow> gives C p Q) \<Longrightarrow> (\<not> b \<Longrightarrow> gives C q Q) \<Longrightarrow> gives C (if b then p else q) Q"
  by simp

lemma gives_mono: "gives C p P \<Longrightarrow> (\<And>ss a. P ss a \<Longrightarrow> Q ss a) \<Longrightarrow> gives C p Q"
  by (simp add: gives_def)

section \<open>Rely and guarantee\<close>

text \<open>
  From a state \<open>s\<close>, while other threads act by \<open>R\<close>: every section of the program acts by \<open>G\<close>, is not blocked in a state of
  \<open>B\<close>, and \<open>Q\<close> holds once the program has returned.
\<close>

primrec sat ::
  "('s \<Rightarrow> 's \<Rightarrow> bool) \<Rightarrow> ('s \<Rightarrow> 's \<Rightarrow> bool) \<Rightarrow> ('s \<Rightarrow> bool) \<Rightarrow> ('s, 'a) prog \<Rightarrow> ('a \<Rightarrow> 's \<Rightarrow> bool) \<Rightarrow> 's \<Rightarrow> bool" where
  "sat R G B (Return a) Q s \<longleftrightarrow> (\<forall>t. R s t \<longrightarrow> Q a t)"
| "sat R G B (Atom guard change next) Q s \<longleftrightarrow>
     (\<forall>t. R s t \<longrightarrow> (B t \<longrightarrow> guard t) \<and> (guard t \<longrightarrow> G t (change t) \<and> sat R G B (next t) Q (change t)))"

lemma sat_mono: "sat R G B p Q s \<Longrightarrow> (\<And>a t. Q a t \<Longrightarrow> Q' a t) \<Longrightarrow> sat R G B p Q' s"
  by (induction p arbitrary: s) auto

lemma sat_stable:
  assumes "\<And>a b c. R a b \<Longrightarrow> R b c \<Longrightarrow> R a c" "sat R G B p Q s" "R s t"
  shows "sat R G B p Q t"
  using assms by (cases p) auto

lemma sat_pbind:
  assumes "\<And>s. R s s" "sat R G B p (\<lambda>a. sat R G B (k a) Q) s"
  shows "sat R G B (pbind p k) Q s"
  using assms(2) by (induction p arbitrary: s) (use assms(1) in auto)

lemma sat_pfor:
  assumes "\<And>s. R s s" "\<And>x s t. I x s \<Longrightarrow> R s t \<Longrightarrow> I x t"
    and "\<And>x y s. y \<in> set ys \<Longrightarrow> I x s \<Longrightarrow> sat R G B (f y) (\<lambda>_. I (g y x)) s"
  shows "I x s \<Longrightarrow> sat R G B (pfor f ys) (\<lambda>_. I (fold g ys x)) s"
  using assms(3)
proof (induction ys arbitrary: x s)
  case (Cons y ys)
  then have "sat R G B (f y) (\<lambda>_. I (g y x)) s" by simp
  then have "sat R G B (f y) (\<lambda>_. sat R G B (pfor f ys) (\<lambda>_. I (fold g ys (g y x)))) s"
    by (rule sat_mono) (use Cons in simp)
  then show ?case using sat_pbind[where R = R, OF assms(1)] by simp
qed (use assms(2) in auto)

locale shared_object =
  fixes R G :: "nat \<Rightarrow> 's \<Rightarrow> 's \<Rightarrow> bool" and B idle :: "nat \<Rightarrow> 's \<Rightarrow> bool"
    and calls :: "nat \<Rightarrow> ('s, 'a) prog set" and outside :: "'s \<Rightarrow> 's \<Rightarrow> bool"
  assumes R_refl: "R i s s"
    and R_trans: "R i s t \<Longrightarrow> R i t u \<Longrightarrow> R i s u"
    and guarantee: "i \<noteq> j \<Longrightarrow> G i s t \<Longrightarrow> R j s t"
    and outside: "outside s t \<Longrightarrow> R i s t"
    and calls: "p \<in> calls i \<Longrightarrow> idle i s \<Longrightarrow> sat (R i) (G i) (B i) p (\<lambda>_. idle i) s"
begin

definition pool_ok :: "('s, 'a) prog list \<times> 's \<Rightarrow> bool" where
  "pool_ok x \<longleftrightarrow> (\<forall>i < length (fst x). sat (R i) (G i) (B i) (fst x ! i) (\<lambda>_. idle i) (snd x))"

lemma pool_ok_outside: "pool_ok (T, s) \<Longrightarrow> (\<And>i. i < length T \<Longrightarrow> R i s t) \<Longrightarrow> pool_ok (T, t)"
  unfolding pool_ok_def using sat_stable[OF R_trans] by fastforce

lemma pool_ok_step:
  assumes "pool_step calls outside (T, s) (T', t)" "pool_ok (T, s)"
  shows "pool_ok (T', t)" "length T' = length T" "t = s \<or> outside s t \<or> (\<exists>i < length T. G i s t)"
proof -
  have "pool_ok (T', t) \<and> length T' = length T \<and> (t = s \<or> outside s t \<or> (\<exists>i < length T. G i s t))"
    using assms(1)
  proof (cases rule: pool_step.cases)
    case advance
    then obtain i guard change "next" where i: "i < length T" "T ! i = Atom guard change next" "guard s"
      and T': "T' = T[i := next s]" "t = change s" by (auto simp: par_step_iff)
    have "sat (R i) (G i) (B i) (Atom guard change next) (\<lambda>_. idle i) s"
      using assms(2) i(1,2) by (auto simp: pool_ok_def)
    then have me: "G i s t" "sat (R i) (G i) (B i) (next s) (\<lambda>_. idle i) t" using R_refl i(3) T'(2) by auto
    have "sat (R j) (G j) (B j) (T' ! j) (\<lambda>_. idle j) t" if "j < length T" for j
    proof (cases "j = i")
      case False
      then have "R j s t" using guarantee[OF _ me(1), of j] by simp
      with False that assms(2) T'(1) show ?thesis
        using sat_stable[OF R_trans] by (fastforce simp: pool_ok_def)
    qed (use me(2) T'(1) i(1) in simp)
    with T'(1) i(1) me(1) show ?thesis by (auto simp: pool_ok_def)
  next
    case (call i r p)
    then have "sat (R i) (G i) (B i) (Return r) (\<lambda>_. idle i) s" using assms(2) by (auto simp: pool_ok_def)
    then have "idle i s" using R_refl by simp
    with call calls[of p i s] assms(2) show ?thesis by (auto simp: pool_ok_def nth_list_update)
  next
    case outside
    then show ?thesis using pool_ok_outside[OF assms(2)] shared_object.outside[OF shared_object_axioms] by blast
  qed
  then show "pool_ok (T', t)" "length T' = length T" "t = s \<or> outside s t \<or> (\<exists>i < length T. G i s t)" by auto
qed

lemma pool_ok_Return: "pool_ok (T, s) \<Longrightarrow> i < length T \<Longrightarrow> T ! i = Return r \<Longrightarrow> idle i s"
  using R_refl by (auto simp: pool_ok_def)

lemma pool_ok_stuck:
  assumes "pool_ok (T, s)" "i < length T" "B i s" "\<And>y. \<not> par_step (T, s) y"
  obtains r where "T ! i = Return r"
proof (cases "T ! i")
  case (Atom guard change "next")
  then have "guard s" using assms(1-3) R_refl by (auto simp: pool_ok_def)
  with par_step.intros[OF assms(2) Atom] assms(4) show thesis by blast
qed (use that in blast)

end

end
