(* ===== verification/Live_Nodes_Atomic.thy ===== *)
theory Live_Nodes_Atomic
  imports Live_Nodes_Routing Atomic_Programs
begin

text \<open>
  The calls of \<open>AlternatorLiveNodes\<close> as programs of atomic sections, as finely as the locks of
  \<open>src/src/live_nodes.cpp\<close> and \<open>src/src/node_health.cpp\<close> cut them: a section is what runs under one hold of a mutex, one
  operation on an atomic counter, one reading of the clock, or one HTTP request. Other threads act
  between any two sections.

  The shared state is the object, the world, and who holds \<open>mutex_\<close>. The mutex of the health store is released
  within every call of the store, so each such call is a section; \<open>mutex_\<close> is held over several sections only while
  a node list is installed. A request that is never answered is a guard that never holds.

  A call that runs alone is the function of \<open>Live_Nodes\<close>: \<open>Live_Nodes_Alone\<close> shows this for all calls.
\<close>

section \<open>Sections\<close>

type_synonym 'w shared = "nat option \<times> 'w ln_state"

text \<open>A section under \<open>mutex_\<close>, and operations on atomic members and on members that never change.\<close>

definition on_mutex :: "(AlternatorLiveNodes \<Rightarrow> 'a \<times> AlternatorLiveNodes) \<Rightarrow> ('w shared, 'a) prog" where
  "on_mutex f = await (\<lambda>(m, st, w). m = None) (\<lambda>(m, st, w). case f st of (a, st') \<Rightarrow> (a, m, st', w))"

definition on_member :: "(AlternatorLiveNodes \<Rightarrow> 'a \<times> AlternatorLiveNodes) \<Rightarrow> ('w shared, 'a) prog" where
  "on_member f = atomic (\<lambda>(m, st, w). case f st of (a, st') \<Rightarrow> (a, m, st', w))"

text \<open>A call of the health store, at the time of its clock.\<close>

definition on_store ::
  "'w Environment \<Rightarrow> (time_point \<Rightarrow> NodeHealthStore \<Rightarrow> 'a \<times> NodeHealthStore) \<Rightarrow> ('w shared, 'a) prog" where
  "on_store env f = atomic (\<lambda>(m, st, w).
     case f (env_now env w) (ln_health_store st) of (a, store) \<Rightarrow> (a, m, st\<lparr>ln_health_store := store\<rparr>, w))"

definition on_clock :: "('w \<Rightarrow> 'a) \<Rightarrow> ('w shared, 'a) prog" where
  "on_clock f = atomic (\<lambda>(m, st, w). (f w, m, st, w))"

definition request :: "'w Environment \<Rightarrow> Url \<Rightarrow> ('w shared, HttpResponse result) prog" where
  "request env url =
     await (\<lambda>(m, st, w). fst (env_Get env url w) \<noteq> Inl Diverges)
       (\<lambda>(m, st, w). case env_Get env url w of (r, w') \<Rightarrow> (r, m, st, w'))"

abbreviation peek :: "('s \<Rightarrow> 'a) \<Rightarrow> 's \<Rightarrow> 'a \<times> 's" where
  "peek f \<equiv> \<lambda>s. (f s, s)"

abbreviation poke :: "('s \<Rightarrow> 's) \<Rightarrow> 's \<Rightarrow> unit \<times> 's" where
  "poke f \<equiv> \<lambda>s. ((), f s)"

section \<open>Node lists and routing\<close>

definition MarkActivity_prog :: "'w Environment \<Rightarrow> ('w shared, bool) prog" where
  "MarkActivity_prog env =
     pbind (on_clock (env_now env)) (\<lambda>now. on_mutex (\<lambda>st. case MarkActivity now st of (st', notify) \<Rightarrow> (notify, st')))"

definition GetNodes_prog :: "('w shared, Url list) prog" where
  "GetNodes_prog = on_mutex (peek LiveNodes_GetNodes)"

definition GetActiveNodes_prog :: "'w Environment \<Rightarrow> ('w shared, Url list) prog" where
  "GetActiveNodes_prog env = on_store env (\<lambda>_. peek NodeHealthStore_GetActiveNodes)"

definition GetQuarantinedNodes_prog :: "'w Environment \<Rightarrow> ('w shared, Url list) prog" where
  "GetQuarantinedNodes_prog env = on_store env (\<lambda>_. peek NodeHealthStore_GetQuarantinedNodes)"

definition GetDownNodes_prog :: "'w Environment \<Rightarrow> ('w shared, Url list) prog" where
  "GetDownNodes_prog env = on_store env (\<lambda>_. peek NodeHealthStore_GetDownNodes)"

text \<open>\<open>fetch_add\<close> on the three counters.\<close>

definition count_plan :: "AlternatorLiveNodes \<Rightarrow> bool \<times> AlternatorLiveNodes" where
  "count_plan st =
     (let interval0 = quarantine_traffic_interval (cfg_node_health (ln_config st));
          interval = (if interval0 = 0 then 1 else interval0);
          attempt = ln_quarantine_plan_index st + 1
      in (attempt mod ucast interval = 0, st\<lparr>ln_quarantine_plan_index := ln_quarantine_plan_index st + 1\<rparr>))"

definition pick_quarantined :: "Url list \<Rightarrow> AlternatorLiveNodes \<Rightarrow> Url \<times> AlternatorLiveNodes" where
  "pick_quarantined nodes st =
     (nodes ! unat (ln_quarantine_node_index st mod word_of_nat (length nodes)),
      st\<lparr>ln_quarantine_node_index := ln_quarantine_node_index st + 1\<rparr>)"

definition pick_next :: "Url list \<Rightarrow> AlternatorLiveNodes \<Rightarrow> Url \<times> AlternatorLiveNodes" where
  "pick_next nodes st =
     (nodes ! unat (ln_next_node_index st mod word_of_nat (length nodes)),
      st\<lparr>ln_next_node_index := ln_next_node_index st + 1\<rparr>)"

definition ShouldTryQuarantinedNode_prog :: "'w Environment \<Rightarrow> bool \<Rightarrow> ('w shared, bool) prog" where
  "ShouldTryQuarantinedNode_prog env active_nodes_empty =
     pbind (GetQuarantinedNodes_prog env) (\<lambda>quarantined_nodes.
       if quarantined_nodes = [] then Return False
       else if active_nodes_empty then Return True
       else on_member count_plan)"

definition NextQuarantinedNode_prog :: "'w Environment \<Rightarrow> ('w shared, Url) prog" where
  "NextQuarantinedNode_prog env =
     pbind (GetQuarantinedNodes_prog env) (\<lambda>nodes.
       if nodes = [] then Return Url_default else on_member (pick_quarantined nodes))"

definition GetQueryPlanNodes_prog :: "'w Environment \<Rightarrow> ('w shared, Url list) prog" where
  "GetQueryPlanNodes_prog env =
     pbind (GetActiveNodes_prog env) (\<lambda>candidates.
     pbind (ShouldTryQuarantinedNode_prog env (candidates = [])) (\<lambda>try_quarantined.
       if try_quarantined then
         pbind (NextQuarantinedNode_prog env) (\<lambda>quarantined.
           Return (SortAndDedupeNodes (if \<not> Url_Empty quarantined then candidates @ [quarantined] else candidates)))
       else Return (SortAndDedupeNodes candidates)))"

definition sticky_new_prog :: "'w Environment \<Rightarrow> i64 \<Rightarrow> Url list \<Rightarrow> ('w shared, Url result) prog" where
  "sticky_new_prog env hash active_nodes =
     pbind (ShouldTryQuarantinedNode_prog env (active_nodes = [])) (\<lambda>try_quarantined.
       if \<not> try_quarantined then Return (Inr Url_default)
       else
         pbind (GetQuarantinedNodes_prog env) (\<lambda>quarantined_nodes.
           if quarantined_nodes = [] then Return (Inr Url_default)
           else
             pbind (on_member (pick_quarantined quarantined_nodes)) (\<lambda>node.
               case QuarantinedNodeIsFirstForHash node active_nodes hash of
                 Inl e \<Rightarrow> Return (Inl e)
               | Inr False \<Rightarrow> Return (Inr Url_default)
               | Inr True \<Rightarrow>
                   pbind (on_mutex (poke (\<lambda>st.
                       st\<lparr>ln_quarantine_by_hash := map_assign sint hash node (ln_quarantine_by_hash st)\<rparr>)))
                     (\<lambda>_. Return (Inr node)))))"

text \<open>The first section under the mutex: \<open>None\<close> where the code goes on below it.\<close>

definition sticky_lookup ::
  "i64 \<Rightarrow> Url list \<Rightarrow> Url list \<Rightarrow> AlternatorLiveNodes \<Rightarrow> Url option result \<times> AlternatorLiveNodes" where
  "sticky_lookup hash active_nodes quarantined_nodes st =
     (let erased = st\<lparr>ln_quarantine_by_hash := map_erase sint hash (ln_quarantine_by_hash st)\<rparr>
      in case map_find sint hash (ln_quarantine_by_hash st) of
           Some node \<Rightarrow>
             if node \<in> set quarantined_nodes then
               (case QuarantinedNodeIsFirstForHash node active_nodes hash of
                  Inl e \<Rightarrow> (Inl e, st)
                | Inr False \<Rightarrow> (Inr (Some Url_default), erased)
                | Inr True \<Rightarrow> (Inr (Some node), st))
             else (Inr None, erased)
         | None \<Rightarrow> (Inr None, st))"

definition StickyQuarantinedNodeForHash_prog ::
  "'w Environment \<Rightarrow> i64 \<Rightarrow> Url list \<Rightarrow> ('w shared, Url result) prog" where
  "StickyQuarantinedNodeForHash_prog env hash active_nodes =
     pbind (GetQuarantinedNodes_prog env) (\<lambda>quarantined_nodes.
     pbind (on_mutex (sticky_lookup hash active_nodes quarantined_nodes)) (\<lambda>found.
       case found of
         Inl e \<Rightarrow> Return (Inl e)
       | Inr (Some node) \<Rightarrow> Return (Inr node)
       | Inr None \<Rightarrow> sticky_new_prog env hash active_nodes))"

definition GetQueryPlanNodesForHash_prog :: "'w Environment \<Rightarrow> i64 \<Rightarrow> ('w shared, Url list result) prog" where
  "GetQueryPlanNodesForHash_prog env hash =
     pbind (GetActiveNodes_prog env) (\<lambda>nodes.
     pbind (StickyQuarantinedNodeForHash_prog env hash (SortAndDedupeNodes nodes)) (\<lambda>r.
       Return (rbind r (\<lambda>quarantined.
         Inr (AppendUniqueNodes (if \<not> Url_Empty quarantined then [quarantined] else []) (SortAndDedupeNodes nodes))))))"

section \<open>Health reports and probes\<close>

definition RemoveQuarantineHashAssignmentsForNode_prog :: "Url \<Rightarrow> ('w shared, unit) prog" where
  "RemoveQuarantineHashAssignmentsForNode_prog node = on_mutex (poke (RemoveQuarantineHashAssignmentsForNode node))"

definition ReportNodeResult_prog :: "'w Environment \<Rightarrow> Url \<Rightarrow> NodeHealthObservation \<Rightarrow> ('w shared, unit) prog" where
  "ReportNodeResult_prog env node observation =
     pbind (MarkActivity_prog env) (\<lambda>_.
     pbind (on_store env (\<lambda>now. poke (NodeHealthStore_ReportNodeResult now node observation))) (\<lambda>_.
     pbind (on_store env (\<lambda>_. peek (\<lambda>store. NodeHealthStore_GetNodeStatus store node))) (\<lambda>status.
       case status of
         None \<Rightarrow> RemoveQuarantineHashAssignmentsForNode_prog node
       | Some status \<Rightarrow>
           if nh_state status \<noteq> Quarantined then RemoveQuarantineHashAssignmentsForNode_prog node else Return ())))"

primrec ProbeDownNodes_loop_prog :: "'w Environment \<Rightarrow> Url list \<Rightarrow> Url list \<Rightarrow> ('w shared, Url list) prog" where
  "ProbeDownNodes_loop_prog env [] responsive = Return responsive"
| "ProbeDownNodes_loop_prog env (node # candidates) responsive =
     pbind (on_store env (\<lambda>_. peek (\<lambda>store. NodeHealthStore_GetNodeStatus store node))) (\<lambda>status.
       if status = None then ProbeDownNodes_loop_prog env candidates responsive
       else
         pbind (request env (Url_WithPathAndQuery node ''/localnodes'' [])) (\<lambda>r.
           let observation =
             (case r of Inr resp \<Rightarrow> if 500 \<le> resp_status_code resp then ServerError else Success
              | Inl _ \<Rightarrow> ConnectionFailure)
           in pbind (on_store env (\<lambda>now. poke (NodeHealthStore_ReportNodeResult now node observation))) (\<lambda>_.
                ProbeDownNodes_loop_prog env candidates
                  (if observation = Success then responsive @ [node] else responsive))))"

definition ProbeDownNodes_prog :: "'w Environment \<Rightarrow> ('w shared, Url list) prog" where
  "ProbeDownNodes_prog env =
     pbind (on_store env (\<lambda>_. peek (\<lambda>store. nh_disabled (nhs_config store)))) (\<lambda>disabled.
       if disabled then Return []
       else pbind (GetDownNodes_prog env) (\<lambda>candidates. ProbeDownNodes_loop_prog env candidates []))"

definition NextNode_prog :: "'w Environment \<Rightarrow> ('w shared, Url) prog" where
  "NextNode_prog env =
     pbind (MarkActivity_prog env) (\<lambda>_.
     pbind (GetActiveNodes_prog env) (\<lambda>active_nodes.
     pbind (if active_nodes = [] then pbind (ProbeDownNodes_prog env) (\<lambda>_. GetActiveNodes_prog env)
            else Return active_nodes) (\<lambda>candidates.
     pbind (ShouldTryQuarantinedNode_prog env (candidates = [])) (\<lambda>try_quarantined.
     pbind (if try_quarantined then NextQuarantinedNode_prog env else Return Url_default) (\<lambda>quarantined.
       if \<not> Url_Empty quarantined then Return quarantined
       else if candidates = [] then Return Url_default
       else on_member (pick_next candidates))))))"

definition NextKnownNode_prog :: "('w shared, Url) prog" where
  "NextKnownNode_prog =
     pbind GetNodes_prog (\<lambda>nodes. if nodes = [] then Return Url_default else on_member (pick_next nodes))"

section \<open>Discovery\<close>

definition GetNodesFromEndpoint_prog :: "'w Environment \<Rightarrow> Url \<Rightarrow> ('w shared, Url list result) prog" where
  "GetNodesFromEndpoint_prog env endpoint =
     pbind (request env endpoint) (\<lambda>r.
       case r of
         Inl e \<Rightarrow> Return (Inl e)
       | Inr resp \<Rightarrow>
           if resp_status_code resp \<noteq> 200 then
             Return (Inl (Http_Status_Error (''non-200 response from '' @ Url_ToString endpoint) (resp_status_code resp)))
           else
             (case ParseJsonStringArray (resp_body resp) of
                Inl e \<Rightarrow> Return (Inl (Invalid_Http_Response (exn_what e)))
              | Inr nodes \<Rightarrow> pbind (on_member (peek ln_config)) (\<lambda>config. Return (Inr (ToUrls nodes config)))))"

function GetNodesForScope_loop_prog ::
  "'w Environment \<Rightarrow> RoutingScope \<Rightarrow> QueryPlan \<Rightarrow> Url list \<Rightarrow> exn option \<Rightarrow> ('w shared, Url list result) prog" where
  "GetNodesForScope_loop_prog env scope plan discovered last_error =
     (case QueryPlan_Next plan of
        Inl e \<Rightarrow> Return (Inl e)
      | Inr (node, plan') \<Rightarrow>
          if Url_Empty node then
            Return (if discovered \<noteq> [] then Inr (SortAndDedupeNodes discovered)
                    else case last_error of Some e \<Rightarrow> Inl e | None \<Rightarrow> Inr [])
          else
            pbind (GetNodesFromEndpoint_prog env (Url_WithPathAndQuery node ''/localnodes'' (LocalNodesQuery scope))) (\<lambda>r.
              case r of
                Inr nodes \<Rightarrow>
                  if nodes = [] then GetNodesForScope_loop_prog env scope plan' discovered last_error
                  else if \<not> IsCluster scope then Return (Inr nodes)
                  else GetNodesForScope_loop_prog env scope plan' (discovered @ nodes) last_error
              | Inl e \<Rightarrow>
                  (case discovery_observation e of
                     None \<Rightarrow> Return (Inl e)
                   | Some observation \<Rightarrow>
                       pbind (ReportNodeResult_prog env node observation) (\<lambda>_.
                         GetNodesForScope_loop_prog env scope plan' discovered (Some e)))))"
  by pat_completeness auto
termination
  by (relation "measure (\<lambda>(env, scope, plan, d, e). length (qp_nodes plan))") (auto dest: Next_shrinks)

declare GetNodesForScope_loop_prog.simps [simp del]

definition GetDiscoveryNodesForScope_prog :: "'w Environment \<Rightarrow> RoutingScope \<Rightarrow> ('w shared, Url list) prog" where
  "GetDiscoveryNodesForScope_prog env scope =
     (if IsCluster scope then on_member (peek ln_initial_nodes) else GetQueryPlanNodes_prog env)"

definition GetNodesForScope_prog :: "'w Environment \<Rightarrow> RoutingScope \<Rightarrow> ('w shared, Url list result) prog" where
  "GetNodesForScope_prog env scope =
     pbind (GetDiscoveryNodesForScope_prog env scope) (\<lambda>nodes.
     pbind (on_clock (env_seed env)) (\<lambda>seed.
       GetNodesForScope_loop_prog env scope (QueryPlan_FromClock seed nodes) [] None))"

function FetchLiveNodes_loop_prog :: "'w Environment \<Rightarrow> RoutingScope option \<Rightarrow> ('w shared, Url list result) prog" where
  "FetchLiveNodes_loop_prog env scope =
     (case scope of
        None \<Rightarrow> Return (Inr [])
      | Some scope' \<Rightarrow>
          pbind (GetNodesForScope_prog env scope') (\<lambda>r.
            case r of
              Inl e \<Rightarrow> Return (Inl e)
            | Inr nodes \<Rightarrow>
                if nodes \<noteq> [] then Return (Inr nodes) else FetchLiveNodes_loop_prog env (RoutingScope_Fallback scope')))"
  by pat_completeness auto
termination
  by (relation "measure (\<lambda>(env, scope). case scope of None \<Rightarrow> 0 | Some x \<Rightarrow> Suc (size x))")
    (auto split: option.splits dest: size_Fallback)

declare FetchLiveNodes_loop_prog.simps [simp del]

definition FetchLiveNodes_prog :: "'w Environment \<Rightarrow> ('w shared, Url list result) prog" where
  "FetchLiveNodes_prog env =
     pbind (on_member (peek (\<lambda>st. cfg_routing_scope (ln_config st)))) (FetchLiveNodes_loop_prog env)"

text \<open>
  The installation of a list by thread \<open>i\<close>: \<open>mutex_\<close> is held while the store is brought in line with the list node by
  node; the assignments of removed nodes go afterwards, each under a hold of its own.
\<close>

definition lock_mutex :: "nat \<Rightarrow> ('w shared, Url list) prog" where
  "lock_mutex i = await (\<lambda>(m, st, w). m = None) (\<lambda>(m, st, w). (ln_live_nodes st, Some i, st, w))"

definition unlock_mutex :: "('w shared, unit) prog" where
  "unlock_mutex = atomic (\<lambda>(m, st, w). ((), None, st, w))"

definition install_nodes_prog :: "nat \<Rightarrow> 'w Environment \<Rightarrow> Url list \<Rightarrow> ('w shared, unit) prog" where
  "install_nodes_prog i env new_nodes =
     pbind (lock_mutex i) (\<lambda>live_nodes.
     let removed_nodes = filter (\<lambda>node. node \<notin> set new_nodes) live_nodes in
     pbind (pfor (\<lambda>node. on_store env (\<lambda>now. poke (NodeHealthStore_AddNode now node))) new_nodes) (\<lambda>_.
     pbind (pfor (\<lambda>node. on_store env (\<lambda>_. poke (NodeHealthStore_RemoveNode node))) removed_nodes) (\<lambda>_.
     pbind (on_member (poke (\<lambda>st. st\<lparr>ln_live_nodes := SortAndDedupeNodes new_nodes\<rparr>))) (\<lambda>_.
     pbind unlock_mutex (\<lambda>_.
       pfor RemoveQuarantineHashAssignmentsForNode_prog removed_nodes)))))"

definition UpdateLiveNodes_prog :: "nat \<Rightarrow> 'w Environment \<Rightarrow> ('w shared, unit result) prog" where
  "UpdateLiveNodes_prog i env =
     pbind (FetchLiveNodes_prog env) (\<lambda>r.
       case r of
         Inl e \<Rightarrow> Return (Inl e)
       | Inr new_nodes \<Rightarrow>
           pbind (if new_nodes = [] then Return () else install_nodes_prog i env new_nodes) (\<lambda>_.
           pbind (ProbeDownNodes_prog env) (\<lambda>_. Return (Inr ()))))"

section \<open>Checks of the deployment\<close>

function CheckScopes_loop_prog ::
  "'w Environment \<Rightarrow> RoutingScope option \<Rightarrow> string list \<Rightarrow> ('w shared, unit result) prog" where
  "CheckScopes_loop_prog env scope misses =
     (case scope of
        None \<Rightarrow>
          Return (if misses \<noteq> [] then
              Inl (Runtime_Error (fold (\<lambda>miss message. message @ '' '' @ miss) misses ''routing scope has no nodes:''))
            else Inr ())
      | Some scope' \<Rightarrow>
          if IsCluster scope' then Return (Inr ())
          else
            pbind (GetNodesForScope_prog env scope') (\<lambda>r.
              case r of
                Inl e \<Rightarrow> Return (Inl e)
              | Inr nodes \<Rightarrow>
                  if nodes \<noteq> [] then Return (Inr ())
                  else CheckScopes_loop_prog env (RoutingScope_Fallback scope') (misses @ [RoutingScope_ToString scope'])))"
  by pat_completeness auto
termination
  by (relation "measure (\<lambda>(env, scope, misses). case scope of None \<Rightarrow> 0 | Some x \<Rightarrow> Suc (size x))")
    (auto split: option.splits dest: size_Fallback)

declare CheckScopes_loop_prog.simps [simp del]

definition CheckIfRackAndDatacenterSetCorrectly_prog :: "'w Environment \<Rightarrow> ('w shared, unit result) prog" where
  "CheckIfRackAndDatacenterSetCorrectly_prog env =
     pbind (on_member (peek (\<lambda>st. cfg_routing_scope (ln_config st)))) (\<lambda>scope. CheckScopes_loop_prog env scope [])"

definition CheckIfRackDatacenterFeatureIsSupported_prog :: "'w Environment \<Rightarrow> ('w shared, bool result) prog" where
  "CheckIfRackDatacenterFeatureIsSupported_prog env =
     pbind NextKnownNode_prog (\<lambda>node.
       if Url_Empty node then Return (Inl (Runtime_Error ''no known nodes are available''))
       else
         pbind (GetNodesFromEndpoint_prog env (Url_WithPathAndQuery node ''/localnodes'' ''rack=fakeRack'')) (\<lambda>r1.
           case r1 of
             Inl e \<Rightarrow> Return (Inl e)
           | Inr hosts_with_fake_rack \<Rightarrow>
               pbind (GetNodesFromEndpoint_prog env (Url_WithPathAndQuery node ''/localnodes'' [])) (\<lambda>r2.
                 Return (rbind r2 (\<lambda>hosts_without_rack.
                   if hosts_without_rack = [] then Inl (Runtime_Error ''host returned empty /localnodes list'')
                   else Inr (length hosts_with_fake_rack \<noteq> length hosts_without_rack))))))"

section \<open>The background thread\<close>

text \<open>What the loop does after a timeout: the schedule under \<open>mutex_\<close>, then the work with every exception swallowed.\<close>

definition BackgroundLoop_due_prog :: "'w Environment \<Rightarrow> time_point \<Rightarrow> ('w shared, bool \<times> bool \<times> time_point) prog" where
  "BackgroundLoop_due_prog env next_down_probe =
     pbind (on_clock (env_now env)) (\<lambda>now.
       on_mutex (\<lambda>st. case BackgroundLoop_due now st next_down_probe of (upd, prb, st', next_probe) \<Rightarrow> ((upd, prb, next_probe), st')))"

definition BackgroundLoop_work_prog :: "nat \<Rightarrow> 'w Environment \<Rightarrow> bool \<Rightarrow> bool \<Rightarrow> ('w shared, unit result) prog" where
  "BackgroundLoop_work_prog i env should_update should_probe_down =
     pbind (if should_update then UpdateLiveNodes_prog i env else Return (Inr ())) (\<lambda>r.
       case r of
         Inl Diverges \<Rightarrow> Return (Inl Diverges)
       | Inl e \<Rightarrow> Return (Inr ())
       | Inr _ \<Rightarrow>
           if should_probe_down then pbind (ProbeDownNodes_prog env) (\<lambda>_. Return (Inr ())) else Return (Inr ()))"

section \<open>Calls\<close>

datatype LiveNodes_call =
    Call_NextNode
  | Call_GetNodes
  | Call_GetActiveNodes
  | Call_GetQuarantinedNodes
  | Call_GetDownNodes
  | Call_GetQueryPlanNodes
  | Call_GetQueryPlanNodesForHash i64
  | Call_UpdateLiveNodes
  | Call_ReportNodeResult Url NodeHealthObservation
  | Call_ProbeDownNodes
  | Call_CheckIfRackAndDatacenterSetCorrectly
  | Call_CheckIfRackDatacenterFeatureIsSupported
  | Background_due time_point
  | Background_work bool bool

datatype outcome =
    Out_Node "Url result" | Out_Nodes "Url list result" | Out_Unit "unit result" | Out_Flag "bool result"
  | Out_Due "bool \<times> bool \<times> time_point"

abbreviation yields :: "('s, 'a) prog \<Rightarrow> ('a \<Rightarrow> outcome) \<Rightarrow> ('s, outcome) prog" where
  "yields p out \<equiv> pbind p (\<lambda>a. Return (out a))"

fun call_prog :: "nat \<Rightarrow> 'w Environment \<Rightarrow> LiveNodes_call \<Rightarrow> ('w shared, outcome) prog" where
  "call_prog i env Call_NextNode = yields (NextNode_prog env) (Out_Node \<circ> Inr)"
| "call_prog i env Call_GetNodes = yields GetNodes_prog (Out_Nodes \<circ> Inr)"
| "call_prog i env Call_GetActiveNodes = yields (GetActiveNodes_prog env) (Out_Nodes \<circ> Inr)"
| "call_prog i env Call_GetQuarantinedNodes = yields (GetQuarantinedNodes_prog env) (Out_Nodes \<circ> Inr)"
| "call_prog i env Call_GetDownNodes = yields (GetDownNodes_prog env) (Out_Nodes \<circ> Inr)"
| "call_prog i env Call_GetQueryPlanNodes = yields (GetQueryPlanNodes_prog env) (Out_Nodes \<circ> Inr)"
| "call_prog i env (Call_GetQueryPlanNodesForHash hash) = yields (GetQueryPlanNodesForHash_prog env hash) Out_Nodes"
| "call_prog i env Call_UpdateLiveNodes = yields (UpdateLiveNodes_prog i env) Out_Unit"
| "call_prog i env (Call_ReportNodeResult node observation) = yields (ReportNodeResult_prog env node observation) (Out_Unit \<circ> Inr)"
| "call_prog i env Call_ProbeDownNodes = yields (ProbeDownNodes_prog env) (Out_Nodes \<circ> Inr)"
| "call_prog i env Call_CheckIfRackAndDatacenterSetCorrectly = yields (CheckIfRackAndDatacenterSetCorrectly_prog env) Out_Unit"
| "call_prog i env Call_CheckIfRackDatacenterFeatureIsSupported =
     yields (CheckIfRackDatacenterFeatureIsSupported_prog env) Out_Flag"
| "call_prog i env (Background_due next_down_probe) = yields (BackgroundLoop_due_prog env next_down_probe) Out_Due"
| "call_prog i env (Background_work upd prb) = yields (BackgroundLoop_work_prog i env upd prb) Out_Unit"

text \<open>The same calls by the functions of \<open>Live_Nodes\<close> and \<open>Live_Nodes_Thread\<close>.\<close>

definition on_object :: "(AlternatorLiveNodes \<Rightarrow> 'a \<times> AlternatorLiveNodes) \<Rightarrow> 'w ln_state \<Rightarrow> 'a \<times> 'w ln_state" where
  "on_object f s = (case f (fst s) of (a, st) \<Rightarrow> (a, st, snd s))"

fun call_alone :: "'w Environment \<Rightarrow> LiveNodes_call \<Rightarrow> 'w ln_state \<Rightarrow> outcome \<times> 'w ln_state" where
  "call_alone env Call_NextNode s = apfst Out_Node (NextNode env s)"
| "call_alone env Call_GetNodes s = (Out_Nodes (Inr (LiveNodes_GetNodes (fst s))), s)"
| "call_alone env Call_GetActiveNodes s = (Out_Nodes (Inr (LiveNodes_GetActiveNodes (fst s))), s)"
| "call_alone env Call_GetQuarantinedNodes s = (Out_Nodes (Inr (LiveNodes_GetQuarantinedNodes (fst s))), s)"
| "call_alone env Call_GetDownNodes s = (Out_Nodes (Inr (LiveNodes_GetDownNodes (fst s))), s)"
| "call_alone env Call_GetQueryPlanNodes s = apfst (Out_Nodes \<circ> Inr) (on_object LiveNodes_GetQueryPlanNodes s)"
| "call_alone env (Call_GetQueryPlanNodesForHash hash) s = apfst Out_Nodes (on_object (LiveNodes_GetQueryPlanNodesForHash hash) s)"
| "call_alone env Call_UpdateLiveNodes s = apfst Out_Unit (UpdateLiveNodes env s)"
| "call_alone env (Call_ReportNodeResult node observation) s =
     apfst (Out_Unit \<circ> Inr) (on_object (poke (LiveNodes_ReportNodeResult (env_now env (snd s)) node observation)) s)"
| "call_alone env Call_ProbeDownNodes s = apfst Out_Nodes (LiveNodes_ProbeDownNodes env s)"
| "call_alone env Call_CheckIfRackAndDatacenterSetCorrectly s = apfst Out_Unit (CheckIfRackAndDatacenterSetCorrectly env s)"
| "call_alone env Call_CheckIfRackDatacenterFeatureIsSupported s = apfst Out_Flag (CheckIfRackDatacenterFeatureIsSupported env s)"
| "call_alone env (Background_due next_down_probe) s =
     apfst Out_Due (on_object (\<lambda>st. case BackgroundLoop_due (env_now env (snd s)) st next_down_probe of
       (upd, prb, st', next_probe) \<Rightarrow> ((upd, prb, next_probe), st')) s)"
| "call_alone env (Background_work upd prb) s = apfst Out_Unit (BackgroundLoop_work env upd prb s)"

end
