(* ===== verification/Live_Nodes_Alone.thy ===== *)
theory Live_Nodes_Alone
  imports Live_Nodes_Atomic
begin

text \<open>
  Refinement of the calls: the programs of \<open>Live_Nodes_Atomic\<close>, run from beginning to end with no other thread between their
  sections, are the functions of \<open>Live_Nodes\<close> and \<open>Live_Nodes_Thread\<close>, for which the properties of the other theories are stated.
\<close>

section \<open>Node lists, plans, reports\<close>

lemma run_sections [simp]:
  "run (on_mutex f) (None, st, w) = Some (case f st of (a, st') \<Rightarrow> (a, None, st', w))"
  "run (on_member f) (m, st, w) = Some (case f st of (a, st') \<Rightarrow> (a, m, st', w))"
  "run (on_store env g) (m, st, w) =
     Some (case g (env_now env w) (ln_health_store st) of (a, store) \<Rightarrow> (a, m, st\<lparr>ln_health_store := store\<rparr>, w))"
  "run (on_clock h) (m, st, w) = Some (h w, m, st, w)"
  by (simp_all add: on_mutex_def on_member_def on_store_def on_clock_def)

lemma run_lists [simp]:
  "run (GetActiveNodes_prog env) (m, st, w) = Some (LiveNodes_GetActiveNodes st, m, st, w)"
  "run (GetQuarantinedNodes_prog env) (m, st, w) = Some (LiveNodes_GetQuarantinedNodes st, m, st, w)"
  "run (GetDownNodes_prog env) (m, st, w) = Some (LiveNodes_GetDownNodes st, m, st, w)"
  "run GetNodes_prog (None, st, w) = Some (LiveNodes_GetNodes st, None, st, w)"
  by (simp_all add: GetActiveNodes_prog_def GetQuarantinedNodes_prog_def GetDownNodes_prog_def GetNodes_prog_def
      LiveNodes_GetActiveNodes_def LiveNodes_GetQuarantinedNodes_def LiveNodes_GetDownNodes_def)

lemma run_request [simp]:
  "env_returns env \<Longrightarrow> run (request env url) (m, st, w) = Some (case env_Get env url w of (r, w') \<Rightarrow> (r, m, st, w'))"
  by (simp add: request_def env_returns_def)

lemma run_MarkActivity [simp]:
  "run (MarkActivity_prog env) (None, st, w) =
     Some (case MarkActivity (env_now env w) st of (st', notify) \<Rightarrow> (notify, None, st', w))"
  by (auto simp: MarkActivity_prog_def split: prod.splits)

lemma run_ShouldTry [simp]:
  "run (ShouldTryQuarantinedNode_prog env b) (None, st, w) =
     Some (case ShouldTryQuarantinedNode b st of (a, st') \<Rightarrow> (a, None, st', w))"
  by (simp add: ShouldTryQuarantinedNode_prog_def ShouldTryQuarantinedNode_def count_plan_def Let_def)

lemma run_NextQuarantined [simp]:
  "run (NextQuarantinedNode_prog env) (None, st, w) =
     Some (case NextQuarantinedNode st of (a, st') \<Rightarrow> (a, None, st', w))"
  by (simp add: NextQuarantinedNode_prog_def NextQuarantinedNode_def pick_quarantined_def Let_def)

lemma run_PlanNodes [simp]:
  "run (GetQueryPlanNodes_prog env) (None, st, w) =
     Some (case LiveNodes_GetQueryPlanNodes st of (a, st') \<Rightarrow> (a, None, st', w))"
  by (auto simp: GetQueryPlanNodes_prog_def LiveNodes_GetQueryPlanNodes_def Let_def split: prod.splits)

lemma run_sticky_new [simp]:
  "run (sticky_new_prog env hash us) (None, st, w) = Some (case sticky_new hash us st of (a, st') \<Rightarrow> (a, None, st', w))"
  by (auto simp: sticky_new_prog_def sticky_new_def pick_quarantined_def Let_def
      split: prod.splits sum.splits bool.splits)

lemma run_Sticky [simp]:
  "run (StickyQuarantinedNodeForHash_prog env hash us) (None, st, w) =
     Some (case StickyQuarantinedNodeForHash hash us st of (a, st') \<Rightarrow> (a, None, st', w))"
  by (auto simp: StickyQuarantinedNodeForHash_prog_def StickyQuarantinedNodeForHash_def sticky_lookup_def Let_def
      split: prod.splits sum.splits bool.splits option.splits)

lemma run_ForHash [simp]:
  "run (GetQueryPlanNodesForHash_prog env hash) (None, st, w) =
     Some (case LiveNodes_GetQueryPlanNodesForHash hash st of (a, st') \<Rightarrow> (a, None, st', w))"
  by (auto simp: GetQueryPlanNodesForHash_prog_def LiveNodes_GetQueryPlanNodesForHash_def Let_def
      split: prod.splits sum.splits)

lemma run_Report [simp]:
  "run (ReportNodeResult_prog env node obs) (None, st, w) =
     Some ((), None, LiveNodes_ReportNodeResult (env_now env w) node obs st, w)"
  by (auto simp: ReportNodeResult_prog_def RemoveQuarantineHashAssignmentsForNode_prog_def LiveNodes_ReportNodeResult_def
      Let_def split: prod.splits option.splits)

lemma run_Probe_loop:
  assumes "env_returns env"
  shows "ProbeDownNodes_loop (env_now env) (LiveNodes_probe env) us acc (ln_health_store st) w = (Inr vs, store, w') \<Longrightarrow>
    run (ProbeDownNodes_loop_prog env us acc) (None, st, w) = Some (vs, None, st\<lparr>ln_health_store := store\<rparr>, w')"
proof (induction us arbitrary: acc st w)
  case (Cons u us)
  obtain r w1 where g: "env_Get env (Url_WithPathAndQuery u ''/localnodes'' []) w = (r, w1)" by fastforce
  with assms have "r \<noteq> Inl Diverges" unfolding env_returns_def by (metis fst_conv)
  then have "LiveNodes_probe env u status w =
      (Inr (case r of Inr resp \<Rightarrow> if 500 \<le> resp_status_code resp then ServerError else Success | Inl _ \<Rightarrow> ConnectionFailure), w1)"
    for status using g by (auto simp: LiveNodes_probe_def split: sum.splits exn.splits)
  with g Cons.prems Cons.IH[of acc st w] Cons.IH[where w = w1] show ?case
    by (auto simp: run_request[OF assms] Let_def split: option.splits)
qed simp

lemma run_Probe:
  assumes "env_returns env"
  obtains vs st' w' where "LiveNodes_ProbeDownNodes env (st, w) = (Inr vs, st', w')"
    "run (ProbeDownNodes_prog env) (None, st, w) = Some (vs, None, st', w')"
proof -
  obtain vs st' w' where p: "LiveNodes_ProbeDownNodes env (st, w) = (Inr vs, st', w')"
    using probe_returns[OF assms, of "(st, w)"] by (metis prod.collapse)
  then have "run (ProbeDownNodes_prog env) (None, st, w) = Some (vs, None, st', w')"
    by (auto simp: LiveNodes_ProbeDownNodes_def ProbeDownNodes_prog_def NodeHealthStore_ProbeDownNodes_def run_Probe_loop[OF assms]
      LiveNodes_GetDownNodes_def split: if_splits prod.splits)
  with p show thesis by (rule that)
qed

lemma run_NextNode:
  assumes "env_returns env"
  shows "\<exists>u st' w'. NextNode env (st, w) = (Inr u, st', w') \<and> run (NextNode_prog env) (None, st, w) = Some (u, None, st', w')"
proof -
  obtain st1 notify where m: "MarkActivity (env_now env w) st = (st1, notify)" by fastforce
  obtain vs st2 w2 where p: "LiveNodes_ProbeDownNodes env (st1, w) = (Inr vs, st2, w2)"
    "run (ProbeDownNodes_prog env) (None, st1, w) = Some (vs, None, st2, w2)" by (rule run_Probe[OF assms])
  show ?thesis
    by (auto simp: NextNode_prog_def NextNode_def m p pick_node_def pick_next_def Let_def split: prod.splits if_splits)
qed

lemma run_endpoint:
  assumes "env_returns env"
  shows "run (GetNodesFromEndpoint_prog env url) (None, s) =
    Some (case GetNodesFromEndpoint env url s of (r, t) \<Rightarrow> (r, None, t))"
  by (cases s) (auto simp: GetNodesFromEndpoint_prog_def GetNodesFromEndpoint_def run_request[OF assms] split: prod.splits sum.splits)

lemma run_scope_loop:
  assumes "env_returns env"
  shows "run (GetNodesForScope_loop_prog env scope plan discovered last_error) (None, s) =
    Some (case GetNodesForScope_loop env scope plan discovered last_error s of (r, t) \<Rightarrow> (r, None, t))"
  using assms
proof (induction env scope plan discovered last_error s rule: GetNodesForScope_loop.induct)
  case (1 env scope plan discovered last_error s)
  note unfold = GetNodesForScope_loop.simps[of env scope plan discovered last_error s]
    GetNodesForScope_loop_prog.simps[of env scope plan discovered last_error]
  show ?case
  proof (cases "QueryPlan_Next plan")
    case (Inr x)
    obtain u plan' where x: "x = (u, plan')" by fastforce
    obtain r st w where g: "GetNodesFromEndpoint env (Url_WithPathAndQuery u ''/localnodes'' (LocalNodesQuery scope)) s = (r, st, w)"
      by (metis prod_cases3)
    note e = run_endpoint[OF "1.prems"]
    show ?thesis
    proof (cases "Url_Empty u")
      case False
      then show ?thesis
      proof (cases r)
        case (Inl ex)
        with False Inr x g e show ?thesis
          using "1.IH"(1)[OF Inr x[symmetric] False g[symmetric] Inl refl] "1.prems"
          unfolding unfold by (auto split: option.splits)
      next
        case r: (Inr nodes)
        with False Inr x g e show ?thesis
          using "1.IH"(2)[OF Inr x[symmetric] False g[symmetric] r] "1.IH"(3)[OF Inr x[symmetric] False g[symmetric] r] "1.prems"
          unfolding unfold by auto
      qed
    qed (use Inr x in \<open>auto simp: unfold split: option.splits\<close>)
  qed (simp add: unfold)
qed

lemma run_GetNodesForScope:
  assumes "env_returns env"
  shows "run (GetNodesForScope_prog env scope) (None, s) =
    Some (case GetNodesForScope env scope s of (r, t) \<Rightarrow> (r, None, t))"
  by (cases s) (auto simp: GetNodesForScope_prog_def GetNodesForScope_def GetDiscoveryNodesForScope_prog_def
      GetDiscoveryNodesForScope_def run_scope_loop[OF assms] split: prod.splits)

lemma run_Fetch_loop:
  assumes "env_returns env"
  shows "run (FetchLiveNodes_loop_prog env scope) (None, s) =
    Some (case FetchLiveNodes_loop env scope s of (r, t) \<Rightarrow> (r, None, t))"
  using assms
proof (induction env scope s rule: FetchLiveNodes_loop.induct)
  case (1 env scope s)
  show ?case
  proof (cases scope)
    case (Some sc)
    obtain r t where "GetNodesForScope env sc s = (r, t)" by (metis surj_pair)
    with Some 1 run_GetNodesForScope[OF "1.prems", of sc s] show ?thesis
      by (auto simp: FetchLiveNodes_loop.simps[of env "Some sc"] FetchLiveNodes_loop_prog.simps[of env "Some sc"] split: sum.splits)
  qed (simp add: FetchLiveNodes_loop.simps FetchLiveNodes_loop_prog.simps)
qed

lemma run_Fetch:
  "env_returns env \<Longrightarrow> run (FetchLiveNodes_prog env) (None, s) = Some (case FetchLiveNodes env s of (r, t) \<Rightarrow> (r, None, t))"
  by (cases s) (simp add: FetchLiveNodes_prog_def FetchLiveNodes_def run_Fetch_loop)

lemma run_pfor_store:
  "run (pfor (\<lambda>x. on_store env (\<lambda>now. poke (f now x))) xs) (m, st, w) =
     Some ((), m, st\<lparr>ln_health_store := fold (f (env_now env w)) xs (ln_health_store st)\<rparr>, w)"
  by (induction xs arbitrary: st) simp_all

lemma run_pfor_Remove:
  "run (pfor RemoveQuarantineHashAssignmentsForNode_prog us) (None, st, w) =
     Some ((), None, fold RemoveQuarantineHashAssignmentsForNode us st, w)"
  by (induction us arbitrary: st) (simp_all add: RemoveQuarantineHashAssignmentsForNode_prog_def)

lemma run_install:
  "run (install_nodes_prog i env us) (None, st, w) = Some ((), None, install_nodes (env_now env w) us st, w)"
  by (simp add: install_nodes_prog_def install_nodes_def lock_mutex_def unlock_mutex_def run_pfor_store run_pfor_Remove Let_def)

lemma run_Update:
  assumes "env_returns env"
  shows "run (UpdateLiveNodes_prog i env) (None, s) = Some (case UpdateLiveNodes env s of (r, t) \<Rightarrow> (r, None, t))"
proof -
  obtain r st w where f: "FetchLiveNodes env s = (r, st, w)" by (metis prod_cases3)
  show ?thesis
  proof (cases r)
    case (Inr us)
    let ?st = "if us = [] then st else install_nodes (env_now env w) us st"
    obtain vs st' w' where "LiveNodes_ProbeDownNodes env (?st, w) = (Inr vs, st', w')"
      "run (ProbeDownNodes_prog env) (None, ?st, w) = Some (vs, None, st', w')" by (rule run_Probe[OF assms])
    with f Inr run_Fetch[OF assms, of s] run_install[of i env us st w] show ?thesis
      by (auto simp: UpdateLiveNodes_prog_def UpdateLiveNodes_def split: if_splits)
  qed (use f run_Fetch[OF assms, of s] in \<open>simp add: UpdateLiveNodes_prog_def UpdateLiveNodes_def\<close>)
qed

lemma run_CheckScopes:
  assumes "env_returns env"
  shows "run (CheckScopes_loop_prog env scope misses) (None, s) =
    Some (case CheckScopes_loop env scope misses s of (r, t) \<Rightarrow> (r, None, t))"
  using assms
proof (induction env scope misses s rule: CheckScopes_loop.induct)
  case (1 env scope misses s)
  show ?case
  proof (cases scope)
    case (Some sc)
    obtain r t where "GetNodesForScope env sc s = (r, t)" by (metis surj_pair)
    with Some 1 run_GetNodesForScope[OF "1.prems", of sc s] show ?thesis
      by (auto simp: CheckScopes_loop.simps[of env "Some sc"] CheckScopes_loop_prog.simps[of env "Some sc"] split: sum.splits)
  qed (simp add: CheckScopes_loop.simps CheckScopes_loop_prog.simps)
qed

lemma run_CheckFeature:
  assumes "env_returns env"
  shows "run (CheckIfRackDatacenterFeatureIsSupported_prog env) (None, s) =
    Some (case CheckIfRackDatacenterFeatureIsSupported env s of (r, t) \<Rightarrow> (r, None, t))"
  by (cases s) (auto simp: CheckIfRackDatacenterFeatureIsSupported_prog_def CheckIfRackDatacenterFeatureIsSupported_def
      NextKnownNode_prog_def NextKnownNode_def pick_next_def run_endpoint[OF assms] Let_def split: prod.splits sum.splits)

lemma run_work:
  assumes "env_returns env"
  shows "run (BackgroundLoop_work_prog i env upd prb) (None, s) =
    Some (case BackgroundLoop_work env upd prb s of (r, t) \<Rightarrow> (r, None, t))"
proof -
  obtain r st w where u: "(if upd then UpdateLiveNodes env s else (Inr (), s)) = (r, st, w)" by (metis prod_cases3)
  obtain vs st' w' where "LiveNodes_ProbeDownNodes env (st, w) = (Inr vs, st', w')"
    "run (ProbeDownNodes_prog env) (None, st, w) = Some (vs, None, st', w')" by (rule run_Probe[OF assms])
  with u run_Update[OF assms, of i s] show ?thesis
    by (auto simp: BackgroundLoop_work_prog_def BackgroundLoop_work_def split: if_splits sum.splits exn.splits)
qed

section \<open>All calls\<close>



end
