(* ===== verification/Live_Nodes_Concurrent.thy ===== *)
theory Live_Nodes_Concurrent
  imports Live_Nodes_Alone
begin

text \<open>
  One \<open>AlternatorLiveNodes\<close> used by any number of threads. The calls of \<open>Live_Nodes_Atomic\<close> interleave section by section; the
  contract \<open>shared_object\<close> of \<open>Atomic_Programs\<close> is interpreted on them as \<open>live_calls\<close>. The relation \<open>fine\<close> says of a program what
  the contract asks of a call that does not hold the mutex between its sections; the installation of a node list,
  which does, is treated with \<open>holding\<close>. The results are an invariant of the object at every moment and the absence of
  deadlocks.
\<close>

section \<open>The invariant of the shared object\<close>

text \<open>
  What holds at every moment, whoever is in the middle of a call. Sticky assignments may point at nodes that are no
  longer quarantined, or no longer live; while the mutex is held for an installation the store is ahead of the list.
\<close>

abbreviation sh_store :: "'w shared \<Rightarrow> NodeHealthStore" where
  "sh_store s \<equiv> ln_health_store (fst (snd s))"

abbreviation sh_live :: "'w shared \<Rightarrow> Url list" where
  "sh_live s \<equiv> ln_live_nodes (fst (snd s))"

abbreviation cluster :: "string set \<Rightarrow> AlternatorLiveNodes \<Rightarrow> Url set" where
  "cluster H st0 \<equiv> node_of (ln_config st0) ` H"

definition conc_inv :: "string set \<Rightarrow> AlternatorLiveNodes \<Rightarrow> 'w shared \<Rightarrow> bool" where
  "conc_inv H st0 s \<longleftrightarrow> (case s of (m, st, w) \<Rightarrow>
     hosts_ok H \<and> ValidateConfig (ln_config st0) = Inr () \<and>
     ln_config st = ln_config st0 \<and> ln_initial_nodes st = ln_initial_nodes st0 \<and>
     nodes_of (ln_config st0) H (ln_live_nodes st) \<and> ln_live_nodes st \<noteq> [] \<and>
     store_ok (ln_health_store st) \<and>
     nhs_config (ln_health_store st) = NodeHealthStore_normalize (cfg_node_health (ln_config st0)) \<and>
     stored (ln_health_store st) \<subseteq> cluster H st0 \<and>
     (m = None \<longrightarrow> stored (ln_health_store st) = set (ln_live_nodes st)) \<and>
     map_invar sint (ln_quarantine_by_hash st) \<and>
     snd ` set (ln_quarantine_by_hash st) \<subseteq> cluster H st0)"

definition keeps_hold :: "nat \<Rightarrow> 'w shared \<Rightarrow> 'w shared \<Rightarrow> bool" where
  "keeps_hold i s t \<longleftrightarrow> (fst s = Some i \<longleftrightarrow> fst t = Some i) \<and>
     (fst s = Some i \<longrightarrow> stored (sh_store t) = stored (sh_store s) \<and> sh_live t = sh_live s)"

definition ln_rely :: "string set \<Rightarrow> AlternatorLiveNodes \<Rightarrow> nat \<Rightarrow> 'w shared \<Rightarrow> 'w shared \<Rightarrow> bool" where
  "ln_rely H st0 i s t \<longleftrightarrow> (conc_inv H st0 s \<longrightarrow> conc_inv H st0 t \<and> keeps_hold i s t)"

definition ln_guar :: "string set \<Rightarrow> AlternatorLiveNodes \<Rightarrow> nat \<Rightarrow> 'w shared \<Rightarrow> 'w shared \<Rightarrow> bool" where
  "ln_guar H st0 i s t \<longleftrightarrow> (conc_inv H st0 s \<longrightarrow> conc_inv H st0 t \<and> (\<forall>j. j \<noteq> i \<longrightarrow> keeps_hold j s t))"

text \<open>A thread is not to be kept waiting when it holds the mutex, nor, if requests are answered, when nobody does.\<close>

definition ln_busy :: "'w Environment \<Rightarrow> nat \<Rightarrow> 'w shared \<Rightarrow> bool" where
  "ln_busy env i s \<longleftrightarrow> fst s = Some i \<or> fst s = None \<and> env_returns env"

definition ln_idle :: "string set \<Rightarrow> AlternatorLiveNodes \<Rightarrow> nat \<Rightarrow> 'w shared \<Rightarrow> bool" where
  "ln_idle H st0 i s \<longleftrightarrow> conc_inv H st0 s \<and> fst s \<noteq> Some i"

definition ln_outside :: "'w shared \<Rightarrow> 'w shared \<Rightarrow> bool" where
  "ln_outside s t \<longleftrightarrow> fst t = fst s \<and> fst (snd t) = fst (snd s)"

lemma keeps_hold_refl [simp]: "keeps_hold i s s"
  by (simp add: keeps_hold_def)

lemma rely_refl: "ln_rely H st0 i s s"
  by (simp add: ln_rely_def)

lemma rely_trans: "ln_rely H st0 i s t \<Longrightarrow> ln_rely H st0 i t u \<Longrightarrow> ln_rely H st0 i s u"
  by (auto simp: ln_rely_def keeps_hold_def)

lemma idle_stable: "ln_idle H st0 i s \<Longrightarrow> ln_rely H st0 i s t \<Longrightarrow> ln_idle H st0 i t"
  by (auto simp: ln_idle_def ln_rely_def keeps_hold_def)

section \<open>Sections that do not hold the mutex\<close>

abbreviation ln_sat ::
  "string set \<Rightarrow> AlternatorLiveNodes \<Rightarrow> 'w Environment \<Rightarrow> nat \<Rightarrow> ('w shared, 'a) prog \<Rightarrow> ('a \<Rightarrow> 'w shared \<Rightarrow> bool) \<Rightarrow> 'w shared \<Rightarrow> bool" where
  "ln_sat H st0 env i \<equiv> sat (ln_rely H st0 i) (ln_guar H st0 i) (ln_busy env i)"

text \<open>A program that begins and ends without the mutex, with what is known of its result.\<close>

definition fine ::
  "string set \<Rightarrow> AlternatorLiveNodes \<Rightarrow> 'w Environment \<Rightarrow> nat \<Rightarrow> ('w shared, 'a) prog \<Rightarrow> ('a \<Rightarrow> bool) \<Rightarrow> bool" where
  "fine H st0 env i p Q \<longleftrightarrow> (\<forall>s. ln_idle H st0 i s \<longrightarrow> ln_sat H st0 env i p (\<lambda>a t. ln_idle H st0 i t \<and> Q a) s)"

lemma fine_Return: "Q a \<Longrightarrow> fine H st0 env i (Return a) Q"
  using idle_stable by (auto simp: fine_def)

lemma fine_pbind:
  fixes p :: "('w shared, 'a) prog"
  assumes "fine H st0 env i p Q" "\<And>a. Q a \<Longrightarrow> fine H st0 env i (k a) Q'"
  shows "fine H st0 env i (pbind p k) Q'"
  unfolding fine_def
proof (intro allI impI)
  fix s :: "'w shared" assume "ln_idle H st0 i s"
  with assms(1) have "ln_sat H st0 env i p (\<lambda>a t. ln_idle H st0 i t \<and> Q a) s" unfolding fine_def by blast
  then have "ln_sat H st0 env i p (\<lambda>a. ln_sat H st0 env i (k a) (\<lambda>a t. ln_idle H st0 i t \<and> Q' a)) s"
    by (rule sat_mono) (use assms(2) in \<open>auto simp: fine_def\<close>)
  then show "ln_sat H st0 env i (pbind p k) (\<lambda>a t. ln_idle H st0 i t \<and> Q' a) s" by (rule sat_pbind[where R = "ln_rely H st0 i", OF rely_refl])
qed

lemma fine_mono: "fine H st0 env i p Q \<Longrightarrow> (\<And>a. Q a \<Longrightarrow> Q' a) \<Longrightarrow> fine H st0 env i p Q'"
  unfolding fine_def by (blast intro: sat_mono)

lemma fine_pfor: "(\<And>x. fine H st0 env i (f x) (\<lambda>_. True)) \<Longrightarrow> fine H st0 env i (pfor f xs) (\<lambda>_. True)"
  by (induction xs) (auto intro: fine_pbind fine_Return)

lemma fine_await:
  fixes f :: "'w shared \<Rightarrow> 'a \<times> 'w shared"
  assumes "\<And>m st w. conc_inv H st0 (m, st, w) \<Longrightarrow> guard (m, st, w) \<Longrightarrow>
    (case f (m, st, w) of (a, m', st', w') \<Rightarrow> conc_inv H st0 (m', st', w') \<and> m' = m \<and>
       stored (ln_health_store st') = stored (ln_health_store st) \<and> ln_live_nodes st' = ln_live_nodes st \<and> Q a)"
    and "\<And>st w. env_returns env \<Longrightarrow> guard (None, st, w)"
  shows "fine H st0 env i (await guard f) Q"
  unfolding fine_def
proof (intro allI impI)
  fix s :: "'w shared" assume s: "ln_idle H st0 i s"
  have "ln_guar H st0 i t (snd (f t)) \<and> (\<forall>u. ln_rely H st0 i (snd (f t)) u \<longrightarrow> ln_idle H st0 i u \<and> Q (fst (f t)))"
    if t: "ln_idle H st0 i t" "guard t" for t
  proof -
    obtain m st w where m: "t = (m, st, w)" by (cases t)
    obtain a m' st' w' where f: "f t = (a, m', st', w')" by (cases "f t")
    have a: "conc_inv H st0 (m', st', w')" "m' = m" "stored (ln_health_store st') = stored (ln_health_store st)"
      "ln_live_nodes st' = ln_live_nodes st" "Q a" using assms(1)[of m st w] t m f by (auto simp: ln_idle_def)
    have "ln_idle H st0 i (m', st', w')" using a(1,2) t(1) m by (simp add: ln_idle_def)
    then have "ln_idle H st0 i u" if "ln_rely H st0 i (m', st', w') u" for u using idle_stable that by blast
    moreover have "ln_guar H st0 i t (m', st', w')" using a m by (simp add: ln_guar_def keeps_hold_def)
    ultimately show ?thesis using a(5) f by simp
  qed
  moreover have "guard t" if "ln_idle H st0 i t" "ln_busy env i t" for t :: "'w shared"
    using that assms(2) by (cases t) (auto simp: ln_idle_def ln_busy_def)
  ultimately show "ln_sat H st0 env i (await guard f) (\<lambda>a t. ln_idle H st0 i t \<and> Q a) s"
    unfolding await_def sat.simps using idle_stable[OF s] by blast
qed

text \<open>The configuration is a valid one.\<close>

lemma fine_valid:
  fixes p :: "('w shared, 'a) prog"
  assumes "fine H st0 env i p Q"
  shows "fine H st0 env i p (\<lambda>_. hosts_ok H \<and> ValidateConfig (ln_config st0) = Inr ())"
  unfolding fine_def
proof (intro allI impI, rule sat_mono)
  fix s :: "'w shared" assume "ln_idle H st0 i s"
  then show "ln_sat H st0 env i p (\<lambda>a t. ln_idle H st0 i t \<and> Q a) s" using assms unfolding fine_def by blast
next
  fix a and t :: "'w shared" assume "ln_idle H st0 i t \<and> Q a"
  then show "ln_idle H st0 i t \<and> hosts_ok H \<and> ValidateConfig (ln_config st0) = Inr ()"
    by (cases t) (simp add: ln_idle_def conc_inv_def)
qed

text \<open>Sections that change counters, times and assignments only.\<close>

definition mild :: "string set \<Rightarrow> AlternatorLiveNodes \<Rightarrow> AlternatorLiveNodes \<Rightarrow> AlternatorLiveNodes \<Rightarrow> bool" where
  "mild H st0 st st' \<longleftrightarrow> same_nodes st st' \<and>
     (map_invar sint (ln_quarantine_by_hash st) \<longrightarrow> map_invar sint (ln_quarantine_by_hash st')) \<and>
     snd ` set (ln_quarantine_by_hash st') \<subseteq> snd ` set (ln_quarantine_by_hash st) \<union> cluster H st0"

lemma conc_inv_mild:
  assumes "conc_inv H st0 (m, st, w)" "mild H st0 st st'"
  shows "conc_inv H st0 (m, st', w')"
proof -
  have "snd ` set (ln_quarantine_by_hash st') \<subseteq> cluster H st0" using assms by (simp add: conc_inv_def mild_def) blast
  with assms show ?thesis by (simp add: conc_inv_def mild_def same_nodes_def)
qed

lemma fine_mild:
  assumes "\<And>m st w. conc_inv H st0 (m, st, w :: 'w) \<Longrightarrow> mild H st0 st (snd (f st)) \<and> Q (fst (f st))"
  shows "fine H st0 env i (on_mutex f :: ('w shared, 'a) prog) Q" "fine H st0 env i (on_member f :: ('w shared, 'a) prog) Q"
proof -
  have "conc_inv H st0 (m, snd (f st), w) \<and> same_nodes st (snd (f st)) \<and> Q (fst (f st))"
    if "conc_inv H st0 (m, st, w)" for m st and w :: 'w
  proof -
    have m: "mild H st0 st (snd (f st))" "Q (fst (f st))" using assms[OF that] by auto
    then show ?thesis using conc_inv_mild[OF that m(1)] by (simp add: mild_def)
  qed
  then show "fine H st0 env i (on_mutex f :: ('w shared, 'a) prog) Q" "fine H st0 env i (on_member f :: ('w shared, 'a) prog) Q"
    unfolding on_mutex_def on_member_def atomic_def
    by (auto intro!: fine_await simp: same_nodes_def case_prod_beta)
qed

lemma fine_clock: "fine H st0 env i (on_clock f) (\<lambda>_. True)"
  unfolding on_clock_def atomic_def by (rule fine_await) (auto simp: conc_inv_def)

text \<open>Calls of the store.\<close>

lemma fine_store:
  assumes "\<And>m st now. conc_inv H st0 (m, st, w :: 'w) \<Longrightarrow>
    (let store = snd (f now (ln_health_store st)) in store_ok store \<and> nhs_config store = nhs_config (ln_health_store st) \<and>
       stored store = stored (ln_health_store st)) \<and> Q (fst (f now (ln_health_store st)))"
  shows "fine H st0 env i (on_store env f :: ('w shared, 'a) prog) Q"
proof -
  have "conc_inv H st0 (m, st\<lparr>ln_health_store := snd (f now (ln_health_store st))\<rparr>, w') \<and>
      stored (snd (f now (ln_health_store st))) = stored (ln_health_store st) \<and> Q (fst (f now (ln_health_store st)))"
    if "conc_inv H st0 (m, st, w')" for m st now and w' :: 'w
    using that assms[of m st now] by (simp add: conc_inv_def Let_def)
  then show ?thesis
    unfolding on_store_def atomic_def by (intro fine_await) (simp_all add: case_prod_beta)
qed

lemma fine_Report: "fine H st0 env i (on_store env (\<lambda>now. poke (NodeHealthStore_ReportNodeResult now u obs))) (\<lambda>_. True)"
proof (rule fine_store)
  fix m :: "nat option" and st w now assume "conc_inv H st0 (m, st, w)"
  then show "(let store = snd ((), NodeHealthStore_ReportNodeResult now u obs (ln_health_store st)) in
      store_ok store \<and> nhs_config store = nhs_config (ln_health_store st) \<and> stored store = stored (ln_health_store st)) \<and> True"
    using apply_op_config[of "Op_Report now u obs"] by (simp add: conc_inv_def)
qed

lemma fine_peek: "(\<And>m st w. conc_inv H st0 (m, st, w :: 'w) \<Longrightarrow> Q (f (ln_health_store st))) \<Longrightarrow>
    fine H st0 env i (on_store env (\<lambda>_. peek f) :: ('w shared, 'a) prog) Q"
  by (rule fine_store) (auto simp: conc_inv_def)


lemma fine_request:
  fixes env :: "'w Environment"
  assumes "\<And>r w w'. env_Get env url w = (r, w') \<Longrightarrow> Q r"
  shows "fine H st0 env i (request env url) Q"
  unfolding request_def
proof (rule fine_await)
  fix m st and w :: 'w assume "conc_inv H st0 (m, st, w)"
  moreover obtain r w' where "env_Get env url w = (r, w')" by fastforce
  ultimately show "case (case (m, st, w) of (m, st, w) \<Rightarrow> case env_Get env url w of (r, w') \<Rightarrow> (r, m, st, w')) of
      (a, m', st', w') \<Rightarrow> conc_inv H st0 (m', st', w') \<and> m' = m \<and>
        stored (ln_health_store st') = stored (ln_health_store st) \<and> ln_live_nodes st' = ln_live_nodes st \<and> Q a"
    using assms by (simp add: conc_inv_def)
qed (simp add: env_returns_def)

section \<open>The calls without installation\<close>

text \<open>Lists of nodes that a call reads.\<close>

definition read_ok :: "string set \<Rightarrow> AlternatorLiveNodes \<Rightarrow> Url list \<Rightarrow> bool" where
  "read_ok H st0 us \<longleftrightarrow> nodes_ok us \<and> distinct us \<and> set us \<subseteq> cluster H st0"

lemma conc_inv_lists:
  assumes "conc_inv H st0 (m, st, w)"
  shows "read_ok H st0 (NodeHealthStore_GetActiveNodes (ln_health_store st))"
    "read_ok H st0 (NodeHealthStore_GetQuarantinedNodes (ln_health_store st))"
proof -
  let ?h = "ln_health_store st"
  let ?A = "NodeHealthStore_GetActiveNodes ?h" and ?Q = "NodeHealthStore_GetQuarantinedNodes ?h" and ?D = "NodeHealthStore_GetDownNodes ?h"
  have ok: "store_ok ?h" and hv: "hosts_ok H" "ValidateConfig (ln_config st0) = Inr ()" and sub: "stored ?h \<subseteq> cluster H st0"
    using assms by (simp_all add: conc_inv_def)
  have all: "mset (?A @ ?Q @ ?D) = mset (map fst (nhs_statuses ?h))" using node_lists_mset[OF ok] by (simp add: add.assoc)
  have "distinct (map Url_ToString (map fst (nhs_statuses ?h)))" by (rule map_invar_keys_distinct) (use ok in \<open>simp add: store_ok_def\<close>)
  then have "distinct (map fst (nhs_statuses ?h))" using distinct_map by blast
  then have "distinct (?A @ ?Q @ ?D)" using mset_eq_imp_distinct_iff[OF all] by simp
  moreover have "set (?A @ ?Q @ ?D) \<subseteq> cluster H st0" using sub mset_eq_setD[OF all] by auto
  ultimately have "nodes_of (ln_config st0) H ?A" "nodes_of (ln_config st0) H ?Q" by (auto simp: nodes_of_def)
  with nodes_of_ok(1)[OF hv] show "read_ok H st0 ?A" "read_ok H st0 ?Q" by (auto simp: read_ok_def nodes_of_def)
qed

lemma fine_GetQuarantined: "fine H st0 env i (GetQuarantinedNodes_prog env) (read_ok H st0)"
  unfolding GetQuarantinedNodes_prog_def by (rule fine_peek) (rule conc_inv_lists(2))

lemma fine_GetActive: "fine H st0 env i (GetActiveNodes_prog env) (\<lambda>_. True)"
  unfolding GetActiveNodes_prog_def by (rule fine_peek) simp

lemma fine_GetDown: "fine H st0 env i (GetDownNodes_prog env) (\<lambda>_. True)"
  unfolding GetDownNodes_prog_def by (rule fine_peek) simp

lemma fine_GetNodes: "fine H st0 env i GetNodes_prog (\<lambda>_. True)"
  unfolding GetNodes_prog_def by (rule fine_mild) (simp add: mild_def)

lemma fine_MarkActivity: "fine H st0 env i (MarkActivity_prog env) (\<lambda>_. True)"
  unfolding MarkActivity_prog_def
  by (rule fine_pbind[OF fine_clock], rule fine_mild)
    (simp add: mild_def MarkActivity_frame case_prod_beta)

lemma fine_members:
  "fine H st0 env i (on_member count_plan) (\<lambda>_. True)" "fine H st0 env i (on_member (pick_next us)) (\<lambda>_. True)"
  "fine H st0 env i (on_member (peek f)) (\<lambda>_. True)"
  by (rule fine_mild, simp add: mild_def same_nodes_def count_plan_def pick_next_def Let_def)+

lemma fine_pick_quarantined:
  "read_ok H st0 us \<Longrightarrow> us \<noteq> [] \<Longrightarrow> fine H st0 env i (on_member (pick_quarantined us)) (\<lambda>u. u \<in> cluster H st0)"
  by (rule fine_mild) (use index_in_range(1) in \<open>auto simp: mild_def same_nodes_def pick_quarantined_def read_ok_def\<close>)

lemma fine_ShouldTry: "fine H st0 env i (ShouldTryQuarantinedNode_prog env b) (\<lambda>_. True)"
  unfolding ShouldTryQuarantinedNode_prog_def
  by (rule fine_pbind[OF fine_GetQuarantined]) (simp add: fine_Return fine_members)

lemma fine_NextQuarantined: "fine H st0 env i (NextQuarantinedNode_prog env) (\<lambda>_. True)"
  unfolding NextQuarantinedNode_prog_def
  by (rule fine_pbind[OF fine_GetQuarantined]) (auto intro: fine_Return fine_mono[OF fine_pick_quarantined])

lemma fine_PlanNodes: "fine H st0 env i (GetQueryPlanNodes_prog env) (\<lambda>_. True)"
  unfolding GetQueryPlanNodes_prog_def
  by (rule fine_pbind[OF fine_GetActive], rule fine_pbind[OF fine_ShouldTry])
    (auto intro!: fine_Return fine_pbind[OF fine_NextQuarantined])

lemma fine_Remove: "fine H st0 env i (RemoveQuarantineHashAssignmentsForNode_prog u) (\<lambda>_. True)"
  unfolding RemoveQuarantineHashAssignmentsForNode_prog_def
  by (rule fine_mild) (auto simp: mild_def same_nodes_def RemoveQuarantineHashAssignmentsForNode_def intro: map_invar_filter)

lemma fine_assign:
  assumes "u \<in> cluster H st0"
  shows "fine H st0 env i (on_mutex (poke (\<lambda>st. st\<lparr>ln_quarantine_by_hash := map_assign sint hash u (ln_quarantine_by_hash st)\<rparr>))) (\<lambda>_. True)"
proof (rule fine_mild)
  fix st :: AlternatorLiveNodes
  have "snd ` set (map_assign sint hash u (ln_quarantine_by_hash st)) \<subseteq> snd ` set (ln_quarantine_by_hash st) \<union> cluster H st0"
    using map_assign_snd[of sint hash u "ln_quarantine_by_hash st"] assms by blast
  then show "mild H st0 st (snd ((), st\<lparr>ln_quarantine_by_hash := map_assign sint hash u (ln_quarantine_by_hash st)\<rparr>)) \<and> True"
    by (simp add: mild_def same_nodes_def map_invar_assign)
qed

lemma fine_sticky_new: "fine H st0 env i (sticky_new_prog env hash us) (\<lambda>_. True)"
  unfolding sticky_new_prog_def
  by (rule fine_pbind[OF fine_ShouldTry])
    (auto intro!: fine_Return fine_pbind[OF fine_GetQuarantined] fine_pbind[OF fine_pick_quarantined] fine_pbind[OF fine_assign]
      split: sum.splits bool.splits)

lemma fine_lookup: "fine H st0 env i (on_mutex (sticky_lookup hash us qs)) (\<lambda>_. True)"
proof (rule fine_mild)
  fix st :: AlternatorLiveNodes
  let ?q = "ln_quarantine_by_hash st"
  have "snd ` set (map_erase sint hash ?q) \<subseteq> snd ` set ?q \<union> cluster H st0" using map_erase_snd[of sint hash ?q] by blast
  then show "mild H st0 st (snd (sticky_lookup hash us qs st)) \<and> True"
    by (auto simp: sticky_lookup_def mild_def same_nodes_def Let_def map_invar_erase split: option.splits sum.splits bool.splits)
qed

lemma fine_ForHash: "fine H st0 env i (GetQueryPlanNodesForHash_prog env hash) (\<lambda>_. True)"
  unfolding GetQueryPlanNodesForHash_prog_def StickyQuarantinedNodeForHash_prog_def
  by (rule fine_pbind[OF fine_GetActive], rule fine_pbind[where Q = "\<lambda>_. True"], rule fine_pbind[OF fine_GetQuarantined], rule fine_pbind[OF fine_lookup])
    (auto intro!: fine_Return fine_sticky_new split: sum.splits option.splits)

lemma fine_ReportNodeResult: "fine H st0 env i (ReportNodeResult_prog env u obs) (\<lambda>_. True)"
  unfolding ReportNodeResult_prog_def
  by (rule fine_pbind[OF fine_MarkActivity], rule fine_pbind[OF fine_Report], rule fine_pbind[OF fine_peek[where Q = "\<lambda>_. True"]])
    (auto intro!: fine_Return fine_Remove split: option.splits)

lemma fine_Probe_loop: "fine H st0 env i (ProbeDownNodes_loop_prog env us acc) (\<lambda>_. True)"
proof (induction us arbitrary: acc)
  case (Cons u us)
  show ?case
    unfolding ProbeDownNodes_loop_prog.simps Let_def
    by (rule fine_pbind[OF fine_peek[where Q = "\<lambda>_. True"]])
      (auto intro!: Cons fine_pbind[OF fine_request[where Q = "\<lambda>_. True"]] fine_pbind[OF fine_Report])
qed (simp add: fine_Return)

lemma fine_Probe: "fine H st0 env i (ProbeDownNodes_prog env) (\<lambda>_. True)"
  unfolding ProbeDownNodes_prog_def
  by (rule fine_pbind[OF fine_peek[where Q = "\<lambda>_. True"]]) (auto intro!: fine_Return fine_pbind[OF fine_GetDown] fine_Probe_loop)

lemma fine_NextNode: "fine H st0 env i (NextNode_prog env) (\<lambda>_. True)"
  unfolding NextNode_prog_def
  by (rule fine_pbind[OF fine_MarkActivity], rule fine_pbind[OF fine_GetActive], rule fine_pbind[where Q = "\<lambda>_. True"],
      force intro: fine_Return fine_pbind[OF fine_Probe] fine_GetActive, rule fine_pbind[OF fine_ShouldTry],
      rule fine_pbind[where Q = "\<lambda>_. True"], force intro: fine_Return fine_NextQuarantined)
    (auto intro!: fine_Return fine_members)

lemma fine_NextKnown: "fine H st0 env i NextKnownNode_prog (\<lambda>_. True)"
  unfolding NextKnownNode_prog_def by (rule fine_pbind[OF fine_GetNodes]) (auto intro!: fine_Return fine_members)

section \<open>Discovery\<close>

definition found_ok :: "string set \<Rightarrow> AlternatorLiveNodes \<Rightarrow> Url list result \<Rightarrow> bool" where
  "found_ok H st0 r \<longleftrightarrow> (\<forall>us. r = Inr us \<longrightarrow> nodes_of (ln_config st0) H us)"

lemma found_ok_simps [simp]: "found_ok H st0 (Inl e)" "found_ok H st0 (Inr us) \<longleftrightarrow> nodes_of (ln_config st0) H us"
  by (simp_all add: found_ok_def)

lemma fine_config:
  "fine H st0 env i (on_member (peek ln_config))
     (\<lambda>config. config = ln_config st0 \<and> hosts_ok H \<and> ValidateConfig (ln_config st0) = Inr ())"
  by (rule fine_mild) (simp add: mild_def conc_inv_def)

lemma fine_endpoint:
  fixes env :: "'w Environment"
  assumes "env_ok H env"
  shows "fine H st0 env i (GetNodesFromEndpoint_prog env url) (found_ok H st0)"
  unfolding GetNodesFromEndpoint_prog_def
proof (rule fine_pbind)
  let ?Q = "\<lambda>r :: HttpResponse result. \<forall>resp xs. r = Inr resp \<longrightarrow> ParseJsonStringArray (resp_body resp) = Inr xs \<longrightarrow> set xs \<subseteq> H"
  show "fine H st0 env i (request env url) ?Q"
    by (rule fine_request) (use assms in \<open>unfold env_ok_def, blast\<close>)
  fix r assume "?Q r"
  then show "fine H st0 env i
      (case r of Inl e \<Rightarrow> Return (Inl e)
       | Inr resp \<Rightarrow>
           if resp_status_code resp \<noteq> 200 then
             Return (Inl (Http_Status_Error (''non-200 response from '' @ Url_ToString url) (resp_status_code resp)))
           else
             (case ParseJsonStringArray (resp_body resp) of
                Inl e \<Rightarrow> Return (Inl (Invalid_Http_Response (exn_what e)))
              | Inr nodes \<Rightarrow> pbind (on_member (peek ln_config)) (\<lambda>config. Return (Inr (ToUrls nodes config)))))
      (found_ok H st0)"
    by (auto intro!: fine_Return fine_pbind[OF fine_config] simp: found_ok_def ToUrls_nodes_of split: sum.splits)
qed


lemma nodes_of_cluster: "nodes_of (ln_config st0) H us \<Longrightarrow> set us \<subseteq> cluster H st0"
  by (auto simp: nodes_of_def)

lemma fine_scope_loop:
  assumes "env_ok H env" "set discovered \<subseteq> cluster H st0" "hosts_ok H" "ValidateConfig (ln_config st0) = Inr ()"
  shows "fine H st0 env i (GetNodesForScope_loop_prog env scope plan discovered last_error) (found_ok H st0)"
  using assms
proof (induction env scope plan discovered last_error rule: GetNodesForScope_loop_prog.induct)
  case (1 env scope plan discovered last_error)
  show ?case
  proof (cases "QueryPlan_Next plan")
    case (Inl e)
    then show ?thesis by (subst GetNodesForScope_loop_prog.simps) (simp add: found_ok_def fine_Return)
  next
    case (Inr x)
    obtain u plan' where x: "x = (u, plan')" by fastforce
    have n: "Ball (set discovered) node_url" using "1.prems" node_of_url by (auto simp: hosts_ok_def)
    show ?thesis
    proof (cases "Url_Empty u")
      case True
      have "nodes_of (ln_config st0) H (SortAndDedupeNodes discovered)" using n "1.prems"(2) by (simp add: nodes_of_def)
      then show ?thesis using True Inr x
        by (subst GetNodesForScope_loop_prog.simps) (auto simp: found_ok_def nodes_of_def intro!: fine_Return split: option.splits)
    next
      case False
      note ih = "1.IH"[OF Inr x[symmetric] False]
      show ?thesis
        using False Inr x "1.prems" ih
        by (subst GetNodesForScope_loop_prog.simps)
          (auto intro!: fine_pbind[OF fine_endpoint] fine_pbind[OF fine_ReportNodeResult] fine_Return
            simp: nodes_of_cluster split: sum.splits option.splits)
    qed
  qed
qed


lemma fine_GetNodesForScope:
  assumes "env_ok H env"
  shows "fine H st0 env i (GetNodesForScope_prog env scope) (found_ok H st0)"
proof -
  have "fine H st0 env i (GetDiscoveryNodesForScope_prog env scope) (\<lambda>_. hosts_ok H \<and> ValidateConfig (ln_config st0) = Inr ())"
    unfolding GetDiscoveryNodesForScope_prog_def by (auto intro: fine_valid[OF fine_members(3)] fine_valid[OF fine_PlanNodes])
  then show ?thesis
    unfolding GetNodesForScope_prog_def
    by (rule fine_pbind) (auto intro!: fine_pbind[OF fine_clock] fine_scope_loop assms)
qed

lemma fine_Fetch:
  assumes "env_ok H env"
  shows "fine H st0 env i (FetchLiveNodes_prog env) (found_ok H st0)"
proof -
  have "fine H st0 env i (FetchLiveNodes_loop_prog env scope) (found_ok H st0)" for scope
    using assms
  proof (induction env scope rule: FetchLiveNodes_loop_prog.induct)
    case (1 env scope)
    then show ?case
      by (subst FetchLiveNodes_loop_prog.simps)
        (auto intro!: fine_pbind[OF fine_GetNodesForScope] fine_Return simp: nodes_of_def split: option.splits sum.splits)
  qed
  then show ?thesis unfolding FetchLiveNodes_prog_def by (rule fine_pbind[OF fine_members(3)])
qed

lemma fine_CheckScopes:
  assumes "env_ok H env"
  shows "fine H st0 env i (CheckIfRackAndDatacenterSetCorrectly_prog env) (\<lambda>_. True)"
proof -
  have "fine H st0 env i (CheckScopes_loop_prog env scope misses) (\<lambda>_. True)" for scope misses
    using assms
  proof (induction env scope misses rule: CheckScopes_loop_prog.induct)
    case (1 env scope misses)
    then show ?case
      by (subst CheckScopes_loop_prog.simps)
        (auto intro!: fine_pbind[OF fine_GetNodesForScope] fine_Return split: option.splits sum.splits)
  qed
  then show ?thesis unfolding CheckIfRackAndDatacenterSetCorrectly_prog_def by (rule fine_pbind[OF fine_members(3)])
qed

lemma fine_CheckFeature:
  assumes "env_ok H env"
  shows "fine H st0 env i (CheckIfRackDatacenterFeatureIsSupported_prog env) (\<lambda>_. True)"
  unfolding CheckIfRackDatacenterFeatureIsSupported_prog_def
  by (rule fine_pbind[OF fine_NextKnown])
    (auto intro!: fine_Return fine_pbind[OF fine_endpoint[OF assms]] split: sum.splits)

section \<open>The installation of a list\<close>

text \<open>The thread holds the mutex; the list and the nodes of the store are as it knows them.\<close>

definition holding :: "string set \<Rightarrow> AlternatorLiveNodes \<Rightarrow> nat \<Rightarrow> Url list \<Rightarrow> Url set \<Rightarrow> 'w shared \<Rightarrow> bool" where
  "holding H st0 i L X s \<longleftrightarrow> conc_inv H st0 s \<and> fst s = Some i \<and> sh_live s = L \<and> stored (sh_store s) = X"

lemma holding_stable: "holding H st0 i L X s \<Longrightarrow> ln_rely H st0 i s t \<Longrightarrow> holding H st0 i L X t"
  by (auto simp: holding_def ln_rely_def keeps_hold_def)

lemma sat_holding:
  assumes "\<And>t. holding H st0 i L X t \<Longrightarrow> guard t \<and> P (snd (f t)) \<and> ln_guar H st0 i t (snd (f t))"
    and "\<And>s t. P s \<Longrightarrow> ln_rely H st0 i s t \<Longrightarrow> P t" "holding H st0 i L X s"
  shows "ln_sat H st0 env i (await guard f) (\<lambda>_. P) s"
  unfolding await_def sat.simps using assms(1)[OF holding_stable[OF assms(3)]] assms(2) by blast

lemma sat_store:
  fixes env :: "'w Environment"
  assumes "\<And>now store. Ball (insert u (stored store)) node_url \<Longrightarrow> store_ok store \<Longrightarrow>
      store_ok (f now store) \<and> nhs_config (f now store) = nhs_config store \<and> stored (f now store) = g (stored store)"
    and "u \<in> cluster H st0" "g X \<subseteq> cluster H st0" "holding H st0 i L X s"
  shows "ln_sat H st0 env i (on_store env (\<lambda>now. poke (f now))) (\<lambda>_. holding H st0 i L (g X)) s"
  unfolding on_store_def atomic_def
proof (rule sat_holding[OF _ holding_stable assms(4)])
  fix t :: "'w shared" assume "holding H st0 i L X t"
  then obtain st w where t: "t = (Some i, st, w)" "conc_inv H st0 t" "ln_live_nodes st = L" "stored (ln_health_store st) = X"
    by (cases t) (auto simp: holding_def)
  have hv: "hosts_ok H" "ValidateConfig (ln_config st0) = Inr ()" "X \<subseteq> cluster H st0" "store_ok (ln_health_store st)"
    using t by (simp_all add: conc_inv_def)
  have "Ball (insert u (stored (ln_health_store st))) node_url"
    using assms(2) hv t(4) node_of_url by (auto simp: hosts_ok_def)
  note f = assms(1)[OF this hv(4), of "env_now env w"]
  have "conc_inv H st0 (Some i, st\<lparr>ln_health_store := f (env_now env w) (ln_health_store st)\<rparr>, w)"
    using t f assms(3) by (simp add: conc_inv_def)
  with t f show "True \<and> holding H st0 i L (g X)
        (snd (case t of (m, st, w) \<Rightarrow>
          case ((), f (env_now env w) (ln_health_store st)) of (a, store) \<Rightarrow> (a, m, st\<lparr>ln_health_store := store\<rparr>, w))) \<and>
      ln_guar H st0 i t
        (snd (case t of (m, st, w) \<Rightarrow>
          case ((), f (env_now env w) (ln_health_store st)) of (a, store) \<Rightarrow> (a, m, st\<lparr>ln_health_store := store\<rparr>, w)))"
    by (simp add: holding_def ln_guar_def keeps_hold_def)
qed


lemma holding_cluster: "holding H st0 i L X s \<Longrightarrow> nodes_of (ln_config st0) H L \<and> L \<noteq> [] \<and> X \<subseteq> cluster H st0"
  by (cases s) (auto simp: holding_def conc_inv_def)

lemma sat_AddNodes:
  assumes "set us \<subseteq> cluster H st0" "holding H st0 i L X s"
  shows "ln_sat H st0 env i (pfor (\<lambda>node. on_store env (\<lambda>now. poke (NodeHealthStore_AddNode now node))) us)
    (\<lambda>_. holding H st0 i L (set us \<union> X)) s"
  unfolding union_set_fold
proof (rule sat_pfor[where R = "ln_rely H st0 i" and I = "holding H st0 i L", OF rely_refl holding_stable _ assms(2)])
  fix u X and s :: "'a shared" assume h: "u \<in> set us" "holding H st0 i L X s"
  show "ln_sat H st0 env i (on_store env (\<lambda>now. poke (NodeHealthStore_AddNode now u))) (\<lambda>_. holding H st0 i L (insert u X)) s"
  proof (rule sat_store[where u = u and g = "insert u"])
    fix now store assume "Ball (insert u (stored store)) node_url" "store_ok store"
    then show "store_ok (NodeHealthStore_AddNode now u store) \<and>
        nhs_config (NodeHealthStore_AddNode now u store) = nhs_config store \<and>
        stored (NodeHealthStore_AddNode now u store) = insert u (stored store)"
      using stored_AddNode apply_op_config[of "Op_Add now u" store] by simp
  qed (use h assms(1) holding_cluster[OF h(2)] in auto)
qed

lemma sat_RemoveNodes:
  assumes "set us \<subseteq> cluster H st0" "holding H st0 i L X s"
  shows "ln_sat H st0 env i (pfor (\<lambda>node. on_store env (\<lambda>_. poke (NodeHealthStore_RemoveNode node))) us)
    (\<lambda>_. holding H st0 i L (X - set us)) s"
  unfolding minus_set_fold
proof (rule sat_pfor[where R = "ln_rely H st0 i" and I = "holding H st0 i L", OF rely_refl holding_stable _ assms(2)])
  fix u X and s :: "'a shared" assume h: "u \<in> set us" "holding H st0 i L X s"
  show "ln_sat H st0 env i (on_store env (\<lambda>_. poke (NodeHealthStore_RemoveNode u))) (\<lambda>_. holding H st0 i L (Set.remove u X)) s"
  proof (rule sat_store[where u = u and g = "Set.remove u"])
    fix store assume "Ball (insert u (stored store)) node_url" "store_ok store"
    then show "store_ok (NodeHealthStore_RemoveNode u store) \<and>
        nhs_config (NodeHealthStore_RemoveNode u store) = nhs_config store \<and>
        stored (NodeHealthStore_RemoveNode u store) = Set.remove u (stored store)"
      using stored_RemoveNode apply_op_config[of "Op_Remove u" store] by simp
  qed (use h assms(1) holding_cluster[OF h(2)] in auto)
qed

lemma sat_set_live:
  assumes "nodes_of (ln_config st0) H L'" "L' \<noteq> []" "holding H st0 i L X s"
  shows "ln_sat H st0 env i (on_member (poke (\<lambda>st. st\<lparr>ln_live_nodes := L'\<rparr>))) (\<lambda>_. holding H st0 i L' X) s"
  unfolding on_member_def atomic_def
proof (rule sat_holding[OF _ holding_stable assms(3)])
  fix t :: "'a shared" assume h: "holding H st0 i L X t"
  then show "True \<and> holding H st0 i L' X (snd (case t of (m, st, w) \<Rightarrow> case ((), st\<lparr>ln_live_nodes := L'\<rparr>) of (a, st') \<Rightarrow> (a, m, st', w))) \<and>
      ln_guar H st0 i t (snd (case t of (m, st, w) \<Rightarrow> case ((), st\<lparr>ln_live_nodes := L'\<rparr>) of (a, st') \<Rightarrow> (a, m, st', w)))"
    using assms(1,2) holding_cluster[OF h] by (cases t) (simp add: holding_def conc_inv_def ln_guar_def keeps_hold_def)
qed

lemma sat_unlock:
  assumes "holding H st0 i L (set L) s"
  shows "ln_sat H st0 env i unlock_mutex (\<lambda>_. ln_idle H st0 i) s"
  unfolding unlock_mutex_def atomic_def
proof (rule sat_holding[OF _ idle_stable assms])
  fix t :: "'a shared" assume h: "holding H st0 i L (set L) t"
  then show "True \<and> ln_idle H st0 i (snd (case t of (m, st, w) \<Rightarrow> ((), None, st, w))) \<and>
      ln_guar H st0 i t (snd (case t of (m, st, w) \<Rightarrow> ((), None, st, w)))"
    using holding_cluster[OF h] by (cases t) (simp add: holding_def ln_idle_def conc_inv_def ln_guar_def keeps_hold_def)
qed

lemma sat_lock:
  assumes "ln_idle H st0 i s"
  shows "ln_sat H st0 env i (lock_mutex i) (\<lambda>L t. holding H st0 i L (set L) t \<and> set L \<subseteq> cluster H st0) s"
proof -
  have "ln_guar H st0 i t (Some i, snd t) \<and> holding H st0 i (sh_live t) (set (sh_live t)) (Some i, snd t) \<and>
      set (sh_live t) \<subseteq> cluster H st0"
    if "ln_idle H st0 i t" "fst t = None" for t :: "'a shared"
    using that by (cases t) (auto simp: ln_idle_def holding_def conc_inv_def ln_guar_def keeps_hold_def nodes_of_def)
  moreover have "fst t = None" if "ln_idle H st0 i t" "ln_busy env i t" for t :: "'a shared"
    using that by (auto simp: ln_idle_def ln_busy_def)
  ultimately have "(ln_busy env i t \<longrightarrow> fst t = None) \<and> (fst t = None \<longrightarrow> ln_guar H st0 i t (Some i, snd t) \<and>
      (\<forall>u. ln_rely H st0 i (Some i, snd t) u \<longrightarrow> holding H st0 i (sh_live t) (set (sh_live t)) u \<and> set (sh_live t) \<subseteq> cluster H st0))"
    if "ln_rely H st0 i s t" for t using idle_stable[OF assms that] holding_stable by blast
  then show ?thesis unfolding lock_mutex_def await_def by (simp add: case_prod_beta)
qed

lemma fine_install:
  assumes "nodes_of (ln_config st0) H us" "us \<noteq> []"
  shows "fine H st0 env i (install_nodes_prog i env us) (\<lambda>_. True)"
  unfolding fine_def
proof (intro allI impI)
  fix s :: "'a shared" assume s: "ln_idle H st0 i s"
  note bind = sat_pbind[where R = "ln_rely H st0 i", OF rely_refl sat_mono]
  have us: "set us \<subseteq> cluster H st0" "hosts_ok H" "ValidateConfig (ln_config st0) = Inr ()"
    using assms(1) s by (cases s, auto simp: nodes_of_def ln_idle_def conc_inv_def)+
  have live: "nodes_of (ln_config st0) H (SortAndDedupeNodes us)" "SortAndDedupeNodes us \<noteq> []"
    "set (SortAndDedupeNodes us) = set us"
    using assms nodes_of_ok(2)[OF us(2,3) assms(1)] by (auto intro: nodes_of_sublist[OF assms(1)])
  show "ln_sat H st0 env i (install_nodes_prog i env us) (\<lambda>a t. ln_idle H st0 i t \<and> True) s"
    unfolding install_nodes_prog_def Let_def
  proof (rule bind[OF sat_lock[OF s]])
    fix L and t :: "'a shared" assume "holding H st0 i L (set L) t \<and> set L \<subseteq> cluster H st0"
    then have t: "holding H st0 i L (set L) t" "set (filter (\<lambda>node. node \<notin> set us) L) \<subseteq> cluster H st0" by auto
    let ?removed = "filter (\<lambda>node. node \<notin> set us) L"
    have "set us \<union> set L - set ?removed = set us" by auto
    then have removed: "holding H st0 i L (set us \<union> set L - set ?removed) u = holding H st0 i L (set us) u" for u :: "'a shared"
      by simp
    have remove: "fine H st0 env i (pfor RemoveQuarantineHashAssignmentsForNode_prog ?removed :: ('a shared, unit) prog) (\<lambda>_. True)"
      by (rule fine_pfor[OF fine_Remove])
    have rest: "ln_sat H st0 env i (pbind unlock_mutex (\<lambda>_. pfor RemoveQuarantineHashAssignmentsForNode_prog ?removed))
        (\<lambda>a t. ln_idle H st0 i t \<and> True) u" if "holding H st0 i (SortAndDedupeNodes us) (set us) u" for u :: "'a shared"
      by (rule bind[OF sat_unlock[of H st0 i "SortAndDedupeNodes us"]])
        (use that live(3) remove in \<open>auto simp: fine_def\<close>)
    show "ln_sat H st0 env i
        (pbind (pfor (\<lambda>node. on_store env (\<lambda>now. poke (NodeHealthStore_AddNode now node))) us) (\<lambda>_.
         pbind (pfor (\<lambda>node. on_store env (\<lambda>_. poke (NodeHealthStore_RemoveNode node))) ?removed) (\<lambda>_.
         pbind (on_member (poke (\<lambda>st. st\<lparr>ln_live_nodes := SortAndDedupeNodes us\<rparr>))) (\<lambda>_.
         pbind unlock_mutex (\<lambda>_. pfor RemoveQuarantineHashAssignmentsForNode_prog ?removed)))))
        (\<lambda>a t. ln_idle H st0 i t \<and> True) t"
      by (rule bind[OF sat_AddNodes[OF us(1) t(1)]], rule bind[OF sat_RemoveNodes[OF t(2)]], assumption,
          rule bind[OF sat_set_live[OF live(1,2)]]) (use removed rest in simp_all)
  qed
qed


section \<open>All calls\<close>

lemma fine_Update:
  assumes "env_ok H env"
  shows "fine H st0 env i (UpdateLiveNodes_prog i env) (\<lambda>_. True)"
  unfolding UpdateLiveNodes_prog_def
  by (rule fine_pbind[OF fine_Fetch[OF assms]])
    (auto intro!: fine_Return fine_pbind[OF fine_Probe] fine_pbind[OF fine_install] split: sum.splits)

lemma fine_due: "fine H st0 env i (BackgroundLoop_due_prog env t) (\<lambda>_. True)"
  unfolding BackgroundLoop_due_prog_def
  by (rule fine_pbind[OF fine_clock], rule fine_mild)
    (auto simp: mild_def same_nodes_def BackgroundLoop_due_def ScheduleNextRefresh_def Let_def)

lemma fine_work:
  assumes "env_ok H env"
  shows "fine H st0 env i (BackgroundLoop_work_prog i env upd prb) (\<lambda>_. True)"
  unfolding BackgroundLoop_work_prog_def
  by (rule fine_pbind[where Q = "\<lambda>_. True"], force intro: fine_Return fine_Update[OF assms])
    (auto intro!: fine_Return fine_pbind[OF fine_Probe] split: sum.splits exn.splits)

lemma fine_yields: "fine H st0 env i p Q \<Longrightarrow> fine H st0 env i (yields p out) (\<lambda>_. True)"
  by (erule fine_pbind) (rule fine_Return, simp)

lemma fine_call:
  assumes "env_ok H env"
  shows "fine H st0 env i (call_prog i env c) (\<lambda>_. True)"
  using assms
  by (cases c) (auto intro: fine_yields[OF fine_NextNode] fine_yields[OF fine_GetNodes] fine_yields[OF fine_GetActive]
    fine_yields[OF fine_GetQuarantined] fine_yields[OF fine_GetDown] fine_yields[OF fine_PlanNodes] fine_yields[OF fine_ForHash]
    fine_yields[OF fine_Update] fine_yields[OF fine_ReportNodeResult] fine_yields[OF fine_Probe] fine_yields[OF fine_CheckScopes]
    fine_yields[OF fine_CheckFeature] fine_yields[OF fine_due] fine_yields[OF fine_work])

definition ln_calls :: "string set \<Rightarrow> 'w Environment \<Rightarrow> nat \<Rightarrow> ('w shared, outcome) prog set" where
  "ln_calls H env i = {call_prog i env c | c. env_ok H env}"

interpretation live_calls: shared_object "ln_rely H st0" "ln_guar H st0" "ln_busy env" "ln_idle H st0" "ln_calls H env" ln_outside
  for H st0 env
proof unfold_locales
  fix i p and s :: "'a shared" assume "p \<in> ln_calls H env i" "ln_idle H st0 i s"
  then show "ln_sat H st0 env i p (\<lambda>_. ln_idle H st0 i) s"
    using fine_call unfolding fine_def ln_calls_def by fastforce
next
  fix i and s t :: "'a shared" assume "ln_outside s t"
  then show "ln_rely H st0 i s t"
    by (cases s; cases t) (auto simp: ln_outside_def ln_rely_def conc_inv_def keeps_hold_def)
next
  fix i j and s t :: "'a shared" assume "i \<noteq> j" "ln_guar H st0 i s t"
  then show "ln_rely H st0 j s t" by (simp add: ln_guar_def ln_rely_def)
qed (auto intro: rely_refl rely_trans)

section \<open>Any number of threads\<close>

definition ln_pool :: "'w Environment \<Rightarrow> ('w shared, outcome) prog list \<times> 'w shared \<Rightarrow> ('w shared, outcome) prog list \<times> 'w shared \<Rightarrow> bool" where
  "ln_pool env = pool_step (\<lambda>i. range (call_prog i env)) ln_outside"

definition pool_start :: "nat \<Rightarrow> AlternatorLiveNodes \<Rightarrow> 'w \<Rightarrow> ('w shared, outcome) prog list \<times> 'w shared" where
  "pool_start n st w = (replicate n (Return (Out_Unit (Inr ()))), None, st, w)"

lemma conc_inv_new:
  assumes "hosts_ok H" "set hosts \<subseteq> H" "LiveNodes_new hosts config now = Inr st"
  shows "conc_inv H st (None, st, w)"
  using LiveNodes_new_inv(1)[OF assms] LiveNodes_new_fields(7)[OF assms(3)] by (auto simp: ln_inv_def conc_inv_def nodes_of_def)

lemma pool_reachable:
  assumes "hosts_ok H" "set hosts \<subseteq> H" "env_ok H env" "LiveNodes_new hosts config now = Inr st0"
    and "(ln_pool env)\<^sup>*\<^sup>* (pool_start n st0 w0) x"
  shows "live_calls.pool_ok H st0 env x \<and> conc_inv H st0 (snd x) \<and> length (fst x) = n \<and> (\<forall>i. fst (snd x) = Some i \<longrightarrow> i < n)"
  using assms(5)
proof (induction rule: rtranclp_induct)
  case base
  have inv: "conc_inv H st0 (None, st0, w0)" by (rule conc_inv_new[OF assms(1,2,4)])
  then have "ln_idle H st0 i t" if "ln_rely H st0 i (None, st0, w0) t" for i t
    using idle_stable that by (fastforce simp: ln_idle_def)
  with inv show ?case by (simp add: pool_start_def live_calls.pool_ok_def)
next
  case (step y z)
  obtain T s U t where y: "y = (T, s)" "z = (U, t)" by (cases y; cases z)
  have calls: "ln_calls H env = (\<lambda>i. range (call_prog i env))" using assms(3) by (auto simp: ln_calls_def fun_eq_iff)
  have "pool_step (ln_calls H env) ln_outside (T, s) (U, t)" using step(2) y by (simp add: ln_pool_def calls)
  note p = live_calls.pool_ok_step[OF this, of st0]
  have ok: "live_calls.pool_ok H st0 env (T, s)" "conc_inv H st0 s" "length T = n" "\<forall>i. fst s = Some i \<longrightarrow> i < n"
    using step.IH y by auto
  have "conc_inv H st0 t \<and> (\<forall>i. fst t = Some i \<longrightarrow> i < n)"
    using p(3)[OF ok(1)] 
  proof (elim disjE exE conjE)
    assume "ln_outside s t"
    then have "ln_rely H st0 0 s t" "fst t = fst s" by (auto intro: live_calls.outside simp: ln_outside_def)
    with ok(2,4) show ?thesis by (simp add: ln_rely_def)
  next
    fix i assume "i < length T" "ln_guar H st0 i s t"
    with ok show ?thesis by (auto simp: ln_guar_def keeps_hold_def)
  qed (use ok in simp)
  with p(1,2)[OF ok(1)] ok(3) y show ?case by simp
qed

lemma stuck_pool:
  assumes "hosts_ok H" "set hosts \<subseteq> H" "env_ok H env" "LiveNodes_new hosts config now = Inr st0"
    and "(ln_pool env)\<^sup>*\<^sup>* (pool_start n st0 w0) (T, m, st, w)" "\<And>y. \<not> par_step (T, m, st, w) y"
  shows "m = None" "env_returns env \<Longrightarrow> p \<in> set T \<Longrightarrow> \<exists>r. p = Return r"
proof -
  note r = pool_reachable[OF assms(1-5)]
  then have ok: "live_calls.pool_ok H st0 env (T, m, st, w)" and n: "length T = n" "\<And>i. m = Some i \<Longrightarrow> i < n" by auto
  show m: "m = None"
  proof (rule ccontr)
    assume "m \<noteq> None"
    then obtain i where i: "m = Some i" "i < length T" using n by auto
    then have "ln_busy env i (m, st, w)" by (simp add: ln_busy_def)
    then obtain r where "T ! i = Return r" using live_calls.pool_ok_stuck[OF ok i(2) _ assms(6)] by blast
    from live_calls.pool_ok_Return[OF ok i(2) this] i(1) show False by (simp add: ln_idle_def)
  qed
  assume ret: "env_returns env" "p \<in> set T"
  then obtain i where i: "i < length T" "p = T ! i" by (auto simp: in_set_conv_nth)
  have "ln_busy env i (m, st, w)" using m ret(1) by (simp add: ln_busy_def)
  then show "\<exists>r. p = Return r" using live_calls.pool_ok_stuck[OF ok i(1) _ assms(6)] i(2) by metis
qed

lemma demo_pool:
  "hosts_ok {''a'', ''b''}" "set [''a'', ''b''] \<subseteq> {''a'', ''b''}" "env_ok {''a'', ''b''} demo_env"
  "LiveNodes_new [''a'', ''b''] small_config 0 = Inr demo_st" "env_returns demo_env"
  using demo_hosts(1) demo_env_ok demo_new(1) by (simp_all add: env_returns_def demo_env_def)

lemma pool_steps_par: "par_step\<^sup>*\<^sup>* x y \<Longrightarrow> (ln_pool env)\<^sup>*\<^sup>* x y"
  unfolding ln_pool_def by (erule rtranclp_mono[THEN predicate2D, rotated]) (auto intro: pool_step.advance)

lemma pool_call: "i < length T \<Longrightarrow> T ! i = Return r \<Longrightarrow> ln_pool env (T, s) (T[i := call_prog i env c], s)"
  unfolding ln_pool_def by (rule pool_step.call) auto

lemma two_calls:
  "(ln_pool env)\<^sup>*\<^sup>* (pool_start 2 st w) ([call_prog 0 env c, call_prog 1 env d], None, st, w)"
proof -
  let ?r = "Return (Out_Unit (Inr ()))"
  have one: "ln_pool env ([?r, ?r], None, st, w) ([call_prog 0 env c, ?r], None, st, w)"
    using pool_call[of 0 "[?r, ?r]" "Out_Unit (Inr ())" env "(None, st, w)" c] by simp
  have two: "ln_pool env ([call_prog 0 env c, ?r], None, st, w) ([call_prog 0 env c, call_prog 1 env d], None, st, w)"
    using pool_call[of 1 "[call_prog 0 env c, ?r]" "Out_Unit (Inr ())" env "(None, st, w)" d] by simp
  from rtranclp.rtrancl_into_rtrancl[OF r_into_rtranclp[of "ln_pool env", OF one] two] show ?thesis
    by (simp add: pool_start_def numeral_2_eq_2)
qed

text \<open>
  \<^bold>\<open>C13\<close>: any number of threads call into one object, each call cut into the sections its locks make, and the
  sections interleave in any order, with the world changing in between. At every moment the live nodes are
  nodes of the cluster, never none, the statuses of the health store are well formed and belong to nodes of the cluster, and so do
  the sticky assignments; every status is in exactly one of the three lists; and whenever no thread is installing a list,
  the store has a status for exactly the live nodes.
\<close>

theorem concurrent_calls_keep_invariant:
  assumes "hosts_ok H" "set hosts \<subseteq> H" "env_ok H env" "LiveNodes_new hosts config now = Inr st0"
    and "(ln_pool env)\<^sup>*\<^sup>* (pool_start n st0 w0) (T, m, st, w)"
  shows "conc_inv H st0 (m, st, w) \<and> (m = None \<longrightarrow> stored (ln_health_store st) = set (ln_live_nodes st)) \<and>
    mset (LiveNodes_GetActiveNodes st) + mset (LiveNodes_GetQuarantinedNodes st) + mset (LiveNodes_GetDownNodes st) =
      mset (map fst (nhs_statuses (ln_health_store st)))"
proof -
  have inv: "conc_inv H st0 (m, st, w)" using pool_reachable[OF assms] by simp
  then have "store_ok (ln_health_store st)" by (simp add: conc_inv_def)
  from node_lists_mset[OF this] inv show ?thesis
    by (simp add: conc_inv_def LiveNodes_GetActiveNodes_def LiveNodes_GetQuarantinedNodes_def LiveNodes_GetDownNodes_def)
qed

theorem concurrent_calls_keep_invariant_witness:
  "\<exists>T m st w. par_step\<^sup>*\<^sup>* ([call_prog 0 demo_env Call_UpdateLiveNodes, call_prog 1 demo_env Call_NextNode], None, demo_st, 0) (T, m, st, w) \<and>
     (\<forall>z. \<not> par_step (T, m, st, w) z) \<and> conc_inv {''a'', ''b''} demo_st (m, st, w)"
proof -
  let ?x = "([call_prog 0 demo_env Call_UpdateLiveNodes, call_prog 1 demo_env Call_NextNode], None, demo_st, 0 :: int)"
  obtain y where y: "par_step\<^sup>*\<^sup>* ?x y" "\<And>z. \<not> par_step y z" using par_step_settles[of ?x] by blast
  obtain T m st w where t: "y = (T, m, st, w)" by (cases y)
  have "(ln_pool demo_env)\<^sup>*\<^sup>* (pool_start 2 demo_st 0) (T, m, st, w)" using rtranclp_trans[OF two_calls pool_steps_par[OF y(1)]] t by simp
  from concurrent_calls_keep_invariant[OF demo_pool(1-4) this] y t show ?thesis by blast
qed

text \<open>
  \<^bold>\<open>C14\<close>: calls complete. From any reachable state the calls that have begun cannot run forever, however they are
  interleaved; when no thread can move any more, nobody holds the mutex; and if requests are answered, every call has then
  returned. So no call deadlocks with another, and a request that hangs never leaves the mutex held.
\<close>

theorem concurrent_calls_complete:
  assumes "hosts_ok H" "set hosts \<subseteq> H" "env_ok H env" "LiveNodes_new hosts config now = Inr st0"
    and "(ln_pool env)\<^sup>*\<^sup>* (pool_start n st0 w0) x"
  shows "\<not> (\<exists>f. f 0 = x \<and> (\<forall>k. par_step (f k) (f (Suc k)))) \<and>
    (\<forall>T m st w. par_step\<^sup>*\<^sup>* x (T, m, st, w) \<and> (\<forall>y. \<not> par_step (T, m, st, w) y) \<longrightarrow>
      m = None \<and> (env_returns env \<longrightarrow> (\<forall>p \<in> set T. \<exists>r. p = Return r)))"
proof (intro conjI allI impI; (elim conjE)?)
  show "\<not> (\<exists>f. f 0 = x \<and> (\<forall>k. par_step (f k) (f (Suc k))))"
    using wf_iff_no_infinite_down_chain[THEN iffD1, OF par_step_terminates] by auto
next
  fix T m st w assume T: "par_step\<^sup>*\<^sup>* x (T, m, st, w)" and stuck: "\<forall>y. \<not> par_step (T, m, st, w) y"
  show "m = None" using stuck_pool(1)[OF assms(1-4) rtranclp_trans[OF assms(5) pool_steps_par[OF T]]] stuck by blast
next
  fix T m st w assume T: "par_step\<^sup>*\<^sup>* x (T, m, st, w)" and stuck: "\<forall>y. \<not> par_step (T, m, st, w) y" and "env_returns env"
  then show "\<forall>p \<in> set T. \<exists>r. p = Return r"
    using stuck_pool(2)[OF assms(1-4) rtranclp_trans[OF assms(5) pool_steps_par[OF T]]] by blast
qed

theorem concurrent_calls_complete_witness:
  "\<exists>T st w r s. par_step\<^sup>*\<^sup>* ([call_prog 0 demo_env Call_UpdateLiveNodes, call_prog 1 demo_env Call_NextNode], None, demo_st, 0)
     (T, None, st, w) \<and> T = [Return r, Return s]"
proof -
  let ?T = "[call_prog 0 demo_env Call_UpdateLiveNodes, call_prog 1 demo_env Call_NextNode]"
  let ?x = "(?T, None, demo_st, 0 :: int)"
  obtain y where y: "par_step\<^sup>*\<^sup>* ?x y" "\<And>z. \<not> par_step y z" using par_step_settles[of ?x] by blast
  obtain T m st w where t: "y = (T, m, st, w)" by (cases y)
  have "length T = 2" using pool_reachable[OF demo_pool(1-4) rtranclp_trans[OF two_calls pool_steps_par[OF y(1)]]] t by simp
  then obtain p q where "T = [p, q]" by (auto simp: numeral_2_eq_2 length_Suc_conv)
  moreover have "m = None \<and> (env_returns demo_env \<longrightarrow> (\<forall>p \<in> set T. \<exists>r. p = Return r))"
    by (rule conjunct2[OF concurrent_calls_complete[OF demo_pool(1-4) two_calls], rule_format])
      (use y[unfolded t] in \<open>blast intro: conjI\<close>)
  ultimately show ?thesis using y(1) t demo_pool(5) by (auto simp del: call_prog.simps)
qed

end
