(* ===== verification/Live_Nodes_Seen.thy ===== *)
theory Live_Nodes_Seen
  imports Live_Nodes_Concurrent
begin

text \<open>
  What the routing calls of \<open>AlternatorLiveNodes\<close> hand out while other threads report results and install node lists. A call
  reads the health store several times, and each time it may have changed. The relation \<open>saw\<close> records the states in which the
  sections of one call ran; every node that the call hands out was active or quarantined in one of them.
\<close>

section \<open>Reads of the node lists\<close>

abbreviation sh_active :: "'w shared \<Rightarrow> Url list" where
  "sh_active s \<equiv> LiveNodes_GetActiveNodes (fst (snd s))"

abbreviation sh_quarantined :: "'w shared \<Rightarrow> Url list" where
  "sh_quarantined s \<equiv> LiveNodes_GetQuarantinedNodes (fst (snd s))"

definition was_active :: "'w shared list \<Rightarrow> Url set" where
  "was_active ss = (\<Union>s \<in> set ss. set (sh_active s))"

definition was_quarantined :: "'w shared list \<Rightarrow> Url set" where
  "was_quarantined ss = (\<Union>s \<in> set ss. set (sh_quarantined s))"

lemma was_simps [simp]:
  "was_active [] = {}" "was_active (s # ss) = set (sh_active s) \<union> was_active ss" "was_active (ss @ ts) = was_active ss \<union> was_active ts"
  "was_quarantined [] = {}" "was_quarantined (s # ss) = set (sh_quarantined s) \<union> was_quarantined ss"
  "was_quarantined (ss @ ts) = was_quarantined ss \<union> was_quarantined ts"
  by (auto simp: was_active_def was_quarantined_def)

lemma gives_sections [simp]:
  "gives C (on_mutex f) Q \<longleftrightarrow> (\<forall>st w. C (None, st, w) \<longrightarrow> Q [(None, st, w)] (fst (f st)))"
  "gives C (on_member f) Q \<longleftrightarrow> (\<forall>m st w. C (m, st, w) \<longrightarrow> Q [(m, st, w)] (fst (f st)))"
  by (auto simp: on_mutex_def on_member_def case_prod_beta)

lemma read_lists:
  fixes s :: "'w shared"
  assumes "conc_inv H st0 s"
  shows "read_ok H st0 (sh_active s)" "read_ok H st0 (sh_quarantined s)"
  using conc_inv_lists[of H st0 "fst s" "fst (snd s)" "snd (snd s)"] assms
  by (simp_all add: LiveNodes_GetActiveNodes_def LiveNodes_GetQuarantinedNodes_def)

lemma gives_active: "gives (conc_inv H st0) (GetActiveNodes_prog env) (\<lambda>ss us. read_ok H st0 us \<and> (\<exists>s. ss = [s] \<and> us = sh_active s))"
  using read_lists(1) by (auto simp: GetActiveNodes_prog_def on_store_def case_prod_beta LiveNodes_GetActiveNodes_def)

lemma gives_quarantined:
  "gives (conc_inv H st0) (GetQuarantinedNodes_prog env) (\<lambda>ss us. read_ok H st0 us \<and> (\<exists>s. ss = [s] \<and> us = sh_quarantined s))"
  using read_lists(2) by (auto simp: GetQuarantinedNodes_prog_def on_store_def case_prod_beta LiveNodes_GetQuarantinedNodes_def)

lemma pick_in: "read_ok H st0 us \<Longrightarrow> us \<noteq> [] \<Longrightarrow> fst (pick_quarantined us st) \<in> set us \<and> fst (pick_next us st) \<in> set us"
  using index_in_range(1) by (simp add: pick_quarantined_def pick_next_def read_ok_def)

lemma read_node: "read_ok H st0 us \<Longrightarrow> u \<in> set us \<Longrightarrow> \<not> Url_Empty u"
  by (auto simp: read_ok_def nodes_ok_def)

lemma gives_pick:
  assumes "read_ok H st0 us" "us \<noteq> []"
  shows "gives C (on_member (pick_quarantined us)) (\<lambda>ss u. u \<in> set us)" "gives C (on_member (pick_next us)) (\<lambda>ss u. u \<in> set us)"
  using pick_in[OF assms] by simp_all

section \<open>Plans for a hash\<close>

text \<open>The node that a hash would be assigned to may have been read as active, too, at another time.\<close>

lemma FirstForHash_read:
  assumes "hosts_ok H" "ValidateConfig (ln_config st0) = Inr ()" "read_ok H st0 us" "u \<in> cluster H st0"
  obtains b where "QuarantinedNodeIsFirstForHash u (SortAndDedupeNodes us) hash = Inr b"
proof -
  let ?vs = "SortAndDedupeNodes us @ [u]"
  have sub: "set ?vs \<subseteq> cluster H st0" using assms(3,4) by (simp add: read_ok_def)
  then have "nodes_of (ln_config st0) H (remdups ?vs)" by (simp add: nodes_of_def)
  then have "nodes_ok (remdups ?vs)" using nodes_of_ok(1)[OF assms(1,2)] by blast
  then have ok: "Ball (set ?vs) node_url" "length (remdups ?vs) < 2 ^ 31" "remdups ?vs \<noteq> []" by (simp_all add: nodes_ok_def)
  obtain v where "FirstNodeWithSeed (remdups ?vs) hash = Inr v" using FirstNodeWithSeed_returns[OF ok(3,2)] .
  then have "FirstNodeWithSeed ?vs hash = Inr v" using FirstNodeWithSeed_cong[of ?vs "remdups ?vs" hash] ok(1) by simp
  then show thesis by (intro that[of "v = u"]) (simp add: QuarantinedNodeIsFirstForHash_def)
qed

lemma gives_first:
  assumes "hosts_ok H" "ValidateConfig (ln_config st0) = Inr ()" "read_ok H st0 us" "u \<in> cluster H st0"
    and "gives C yes Q" "gives C no Q"
  shows "gives C (case QuarantinedNodeIsFirstForHash u (SortAndDedupeNodes us) hash of
      Inl e \<Rightarrow> Return (Inl e) | Inr True \<Rightarrow> yes | Inr False \<Rightarrow> no) Q"
proof -
  obtain b where "QuarantinedNodeIsFirstForHash u (SortAndDedupeNodes us) hash = Inr b" by (rule FirstForHash_read[OF assms(1-4)])
  with assms(5,6) show ?thesis by (cases b) simp_all
qed

lemma gives_sticky_new:
  assumes "hosts_ok H" "ValidateConfig (ln_config st0) = Inr ()" "read_ok H st0 us"
  shows "gives (conc_inv H st0) (sticky_new_prog env hash (SortAndDedupeNodes us))
    (\<lambda>ss r. \<exists>u. r = Inr u \<and> (u = Url_default \<or> u \<in> was_quarantined ss))"
  unfolding sticky_new_prog_def
  by (rule gives_pbind[OF gives_True], rule gives_if, simp, rule gives_pbind[OF gives_quarantined], rule gives_if, simp,
      rule gives_pbind[OF gives_pick(1)], blast, blast, rule gives_first[OF assms])
    (auto simp: read_ok_def intro: gives_pbind[OF gives_True])

text \<open>The section that looks an assignment up returns a node only if it is among the quarantined nodes read before.\<close>

lemma lookup_first:
  assumes "hosts_ok H" "ValidateConfig (ln_config st0) = Inr ()" "read_ok H st0 us" "read_ok H st0 qs"
  shows "\<exists>x. fst (sticky_lookup hash (SortAndDedupeNodes us) qs st) = Inr x \<and> (\<forall>u. x = Some u \<longrightarrow> u = Url_default \<or> u \<in> set qs)"
proof -
  have "\<exists>b. QuarantinedNodeIsFirstForHash u (SortAndDedupeNodes us) hash = Inr b" if "u \<in> set qs" for u
    using FirstForHash_read[OF assms(1-3)] assms(4) that by (metis read_ok_def subsetD)
  then show ?thesis
    by (cases "map_find sint hash (ln_quarantine_by_hash st)") (fastforce simp: sticky_lookup_def Let_def split: bool.splits)+
qed

lemma gives_Sticky:
  assumes "hosts_ok H" "ValidateConfig (ln_config st0) = Inr ()" "read_ok H st0 us"
  shows "gives (conc_inv H st0) (StickyQuarantinedNodeForHash_prog env hash (SortAndDedupeNodes us))
    (\<lambda>ss r. \<exists>u. r = Inr u \<and> (u = Url_default \<or> u \<in> was_quarantined ss))"
proof -
  have look: "gives (conc_inv H st0) (on_mutex (sticky_lookup hash (SortAndDedupeNodes us) qs))
    (\<lambda>ss r. \<exists>x. r = Inr x \<and> (\<forall>u. x = Some u \<longrightarrow> u = Url_default \<or> u \<in> set qs))" if "read_ok H st0 qs" for qs
    using lookup_first[OF assms that] by simp
  show ?thesis
    unfolding StickyQuarantinedNodeForHash_prog_def
    by (rule gives_pbind[OF gives_quarantined], rule gives_pbind[OF look], blast)
      (auto intro!: gives_mono[OF gives_sticky_new[OF assms]] split: option.splits)
qed

lemma gives_ForHash:
  fixes env :: "'w Environment"
  assumes "hosts_ok H" "ValidateConfig (ln_config st0) = Inr ()"
  shows "gives (conc_inv H st0) (GetQueryPlanNodesForHash_prog env hash)
    (\<lambda>ss r. \<exists>us s. r = Inr us \<and> distinct us \<and> s \<in> set ss \<and> set (sh_active s) \<subseteq> set us \<and> set us \<subseteq> set (sh_active s) \<union> was_quarantined ss)"
  unfolding GetQueryPlanNodesForHash_prog_def
proof (rule gives_pbind[OF gives_active], rule gives_pbind[OF gives_Sticky[OF assms]], blast, unfold gives_Return)
  fix ss ts :: "'w shared list" and us and r :: "Url result"
  assume us: "read_ok H st0 us \<and> (\<exists>s. ss = [s] \<and> us = sh_active s)" and r: "\<exists>u. r = Inr u \<and> (u = Url_default \<or> u \<in> was_quarantined ts)"
  let ?S = "SortAndDedupeNodes us"
  obtain s q where s: "ss = [s]" "us = sh_active s" and q: "r = Inr q" "q = Url_default \<or> q \<in> was_quarantined ts" using us r by blast
  have S: "distinct ?S" "set ?S = set us" "\<forall>u \<in> set ?S. \<not> Url_Empty u" using us read_node by (auto simp: read_ok_def nodes_ok_def)
  then have "AppendUniqueNodes out ?S = out @ filter (\<lambda>u. u \<notin> set out) ?S" for out
    by (simp add: AppendUnique AppendMissing Dedupe_id)
  with s q S show "\<exists>vs s. rbind r (\<lambda>quarantined. Inr (AppendUniqueNodes (if \<not> Url_Empty quarantined then [quarantined] else []) ?S)) = Inr vs \<and>
      distinct vs \<and> s \<in> set (ss @ ts @ []) \<and> set (sh_active s) \<subseteq> set vs \<and> set vs \<subseteq> set (sh_active s) \<union> was_quarantined (ss @ ts @ [])"
    by (intro exI[of _ "AppendUniqueNodes (if \<not> Url_Empty q then [q] else []) ?S"] exI[of _ s]) auto
qed

section \<open>The next node\<close>

lemma gives_NextQuarantined:
  "gives (conc_inv H st0) (NextQuarantinedNode_prog env)
     (\<lambda>ss u. if Url_Empty u then (\<exists>s \<in> set ss. sh_quarantined s = []) else u \<in> was_quarantined ss)"
  unfolding NextQuarantinedNode_prog_def
  by (rule gives_pbind[OF gives_quarantined], rule gives_if, force,
      rule gives_mono[OF gives_pick(1)]) (auto dest: read_node)

lemma gives_ShouldTry:
  "gives (conc_inv H st0) (ShouldTryQuarantinedNode_prog env none) (\<lambda>ss b. b \<or> \<not> none \<or> (\<exists>s \<in> set ss. sh_quarantined s = []))"
  unfolding ShouldTryQuarantinedNode_prog_def
  by (rule gives_pbind[OF gives_quarantined]) auto

lemma gives_candidates:
  fixes env :: "'w Environment"
  assumes "\<And>ss us. read_ok H st0 us \<Longrightarrow> \<exists>s \<in> set ss. us = sh_active s \<Longrightarrow> gives (conc_inv H st0) (k us) (\<lambda>ts. Q (ss @ ts))"
  shows "gives (conc_inv H st0) (pbind (GetActiveNodes_prog env) (\<lambda>us.
      pbind (if us = [] then pbind (ProbeDownNodes_prog env) (\<lambda>_. GetActiveNodes_prog env) else Return us) k)) Q"
proof (rule gives_pbind[OF gives_active])
  fix ss :: "'w shared list" and us assume us: "read_ok H st0 us \<and> (\<exists>s. ss = [s] \<and> us = sh_active s)"
  have "gives (conc_inv H st0) (if us = [] then pbind (ProbeDownNodes_prog env) (\<lambda>_. GetActiveNodes_prog env) else Return us)
      (\<lambda>ts vs. read_ok H st0 vs \<and> (\<exists>s \<in> set (ss @ ts). vs = sh_active s))"
    using us by (auto intro!: gives_pbind[OF gives_True] gives_mono[OF gives_active])
  then show "gives (conc_inv H st0) (pbind (if us = [] then pbind (ProbeDownNodes_prog env) (\<lambda>_. GetActiveNodes_prog env) else Return us) k)
      (\<lambda>ts. Q (ss @ ts))"
    by (rule gives_pbind) (use assms in \<open>simp flip: append_assoc\<close>)
qed

lemma gives_NextNode:
  fixes env :: "'w Environment"
  shows "gives (conc_inv H st0) (NextNode_prog env)
     (\<lambda>ss u. if Url_Empty u then (\<exists>s \<in> set ss. sh_active s = []) \<and> (\<exists>s \<in> set ss. sh_quarantined s = [])
       else u \<in> was_active ss \<union> was_quarantined ss)"
  unfolding NextNode_prog_def
proof (rule gives_pbind[OF gives_True], rule gives_candidates, rule gives_pbind[OF gives_ShouldTry])
  fix ss0 ss ts :: "'w shared list" and us b
  assume us: "read_ok H st0 us" "\<exists>s \<in> set ss. us = sh_active s" and b: "b \<or> us \<noteq> [] \<or> (\<exists>s \<in> set ts. sh_quarantined s = [])"
  have q: "gives (conc_inv H st0) (if b then NextQuarantinedNode_prog env else Return Url_default)
     (\<lambda>vs q. if Url_Empty q then us = [] \<longrightarrow> (\<exists>s \<in> set (ts @ vs). sh_quarantined s = []) else q \<in> was_quarantined vs)"
    using b by (auto intro!: gives_mono[OF gives_NextQuarantined] split: if_splits)
  have next': "gives (conc_inv H st0) (on_member (pick_next us)) (\<lambda>_ u. \<not> Url_Empty u \<and> u \<in> set us)" if "us \<noteq> []"
    by (rule gives_mono[OF gives_pick(2)[OF us(1) that]]) (simp add: read_node[OF us(1)])
  show "gives (conc_inv H st0) (pbind (if b then NextQuarantinedNode_prog env else Return Url_default) (\<lambda>quarantined.
      if \<not> Url_Empty quarantined then Return quarantined else if us = [] then Return Url_default else on_member (pick_next us)))
    (\<lambda>vs u. if Url_Empty u then (\<exists>s \<in> set (ss0 @ ss @ ts @ vs). sh_active s = []) \<and> (\<exists>s \<in> set (ss0 @ ss @ ts @ vs). sh_quarantined s = [])
       else u \<in> was_active (ss0 @ ss @ ts @ vs) \<union> was_quarantined (ss0 @ ss @ ts @ vs))"
    by (rule gives_pbind[OF q], rule gives_if, simp, rule gives_if, use us(2) in force, rule gives_mono[OF next'])
      (use us(2) in \<open>auto simp: was_active_def\<close>)
qed

section \<open>Calls in a pool\<close>

lemma pool_gives:
  assumes "hosts_ok H" "set hosts \<subseteq> H" "env_ok H env" "LiveNodes_new hosts config now = Inr st0"
    and "(ln_pool env)\<^sup>*\<^sup>* (pool_start n st0 w0) x" "saw (ln_pool env) i x ss y" "fst x ! i = p" "fst y ! i = Return r"
    and "hosts_ok H \<Longrightarrow> ValidateConfig (ln_config st0) = Inr () \<Longrightarrow> gives (conc_inv H st0) p Q"
  shows "Q ss r"
proof -
  have "conc_inv H st0 s" if s: "s \<in> set ss" for s
  proof -
    obtain T where "(ln_pool env)\<^sup>*\<^sup>* x (T, s)" using saw_reachable[OF assms(6) s] by blast
    then have "(ln_pool env)\<^sup>*\<^sup>* (pool_start n st0 w0) (T, s)" using assms(5) by simp
    from pool_reachable[OF assms(1-4) this] show ?thesis by simp
  qed
  moreover have "sees p ss r" using saw_sees[OF assms(6,8)] assms(7) by simp
  moreover have "ValidateConfig (ln_config st0) = Inr ()"
    using conc_inv_new[OF assms(1,2,4), of undefined] by (simp add: conc_inv_def)
  ultimately show ?thesis using assms(1,9) by (simp add: gives_def)
qed

text \<open>
  \<^bold>\<open>C16\<close>: a plan for a hash in the presence of other threads. Whatever the other threads report or install while the call
  runs, it returns a plan, and not an exception; the plan has each node once; it has every node that was active at one moment
  during the call, and beside these only nodes that were quarantined at some moment during the call. So an
  assignment left behind by another thread is never used for a node that is not quarantined.
\<close>

theorem concurrent_plan_for_hash:
  assumes "hosts_ok H" "set hosts \<subseteq> H" "env_ok H env" "LiveNodes_new hosts config now = Inr st0"
    and "(ln_pool env)\<^sup>*\<^sup>* (pool_start n st0 w0) x" "fst x ! i = call_prog i env (Call_GetQueryPlanNodesForHash hash)"
    and "saw (ln_pool env) i x ss y" "fst y ! i = Return r"
  shows "\<exists>us s. r = Out_Nodes (Inr us) \<and> distinct us \<and> s \<in> set ss \<and>
    set (sh_active s) \<subseteq> set us \<and> set us \<subseteq> set (sh_active s) \<union> was_quarantined ss"
proof (rule pool_gives[OF assms(1-5,7,6,8)])
  assume "hosts_ok H" "ValidateConfig (ln_config st0) = Inr ()"
  from gives_ForHash[OF this]
  show "gives (conc_inv H st0) (call_prog i env (Call_GetQueryPlanNodesForHash hash)) (\<lambda>ss r. \<exists>us s. r = Out_Nodes (Inr us) \<and> distinct us \<and>
      s \<in> set ss \<and> set (sh_active s) \<subseteq> set us \<and> set us \<subseteq> set (sh_active s) \<union> was_quarantined ss)"
    unfolding call_prog.simps by (rule gives_pbind) simp
qed

text \<open>
  \<^bold>\<open>C17\<close>: the next node in the presence of other threads. The node that \<open>NextNode\<close> returns was active or quarantined
  at some moment during the call; it returns none only if at some moment no node was active, and at some moment no
  node was quarantined.
\<close>

theorem concurrent_NextNode:
  assumes "hosts_ok H" "set hosts \<subseteq> H" "env_ok H env" "LiveNodes_new hosts config now = Inr st0"
    and "(ln_pool env)\<^sup>*\<^sup>* (pool_start n st0 w0) x" "fst x ! i = call_prog i env Call_NextNode"
    and "saw (ln_pool env) i x ss y" "fst y ! i = Return r"
  shows "\<exists>u. r = Out_Node (Inr u) \<and> (if Url_Empty u then (\<exists>s \<in> set ss. sh_active s = []) \<and> (\<exists>s \<in> set ss. sh_quarantined s = [])
    else u \<in> was_active ss \<union> was_quarantined ss)"
proof (rule pool_gives[OF assms(1-5,7,6,8)])
  show "gives (conc_inv H st0) (call_prog i env Call_NextNode) (\<lambda>ss r. \<exists>u. r = Out_Node (Inr u) \<and>
      (if Url_Empty u then (\<exists>s \<in> set ss. sh_active s = []) \<and> (\<exists>s \<in> set ss. sh_quarantined s = []) else u \<in> was_active ss \<union> was_quarantined ss))"
    unfolding call_prog.simps by (rule gives_pbind[OF gives_NextNode]) (auto split: if_splits)
qed

text \<open>Two threads of a small pool.\<close>

lemma run_saw:
  assumes "run p s = Some (a, t)" "i < length T"
  shows "\<exists>ss. saw (ln_pool env) i (T[i := p], s) ss (T[i := Return a], t)"
  using assms(1)
proof (induction p arbitrary: s)
  case (Atom guard change "next")
  then have s: "guard s" "run (next s) (change s) = Some (a, t)" by (auto split: if_splits)
  then obtain ss where ss: "saw (ln_pool env) i (T[i := next s], change s) ss (T[i := Return a], t)" using Atom.IH by blast
  let ?T = "T[i := Atom guard change next]"
  have i: "i < length ?T" "?T ! i = Atom guard change next" "?T[i := next s] = T[i := next s]" using assms(2) by simp_all
  have "ln_pool env (?T, s) (?T[i := next s], change s)"
    unfolding ln_pool_def by (rule pool_step.advance, rule par_step.intros[OF i(1,2) s(1)])
  from saw.mine[where step = "ln_pool env", OF i(1,2) s(1) this, unfolded i(3), OF ss] show ?case by blast
qed (auto intro: saw.nothing)

theorem concurrent_plan_for_hash_witness:
  "\<exists>ss us st w. saw (ln_pool demo_env) 0 ([call_prog 0 demo_env (Call_GetQueryPlanNodesForHash 7), call_prog 1 demo_env Call_UpdateLiveNodes], None, demo_st, 0)
      ss ([Return (Out_Nodes (Inr us)), call_prog 1 demo_env Call_UpdateLiveNodes], None, st, w) \<and>
     (\<exists>s. s \<in> set ss \<and> set (sh_active s) \<subseteq> set us \<and> set us \<subseteq> set (sh_active s) \<union> was_quarantined ss)"
proof -
  let ?T = "[call_prog 0 demo_env (Call_GetQueryPlanNodesForHash 7), call_prog 1 demo_env Call_UpdateLiveNodes]"
  obtain r st where "LiveNodes_GetQueryPlanNodesForHash 7 demo_st = (r, st)" by fastforce
  then have "run (call_prog 0 demo_env (Call_GetQueryPlanNodesForHash 7)) (None, demo_st, 0) = Some (Out_Nodes r, None, st, 0)" by simp
  from run_saw[OF this, of 0 ?T demo_env] obtain ss where
    ss: "saw (ln_pool demo_env) 0 (?T, None, demo_st, 0) ss (?T[0 := Return (Out_Nodes r)], None, st, 0)" by auto
  have "fst (?T, None, demo_st, 0 :: int) ! 0 = call_prog 0 demo_env (Call_GetQueryPlanNodesForHash 7)" by simp
  from concurrent_plan_for_hash[OF demo_pool(1-4) two_calls this ss, of "Out_Nodes r"] obtain us s where
    "r = Inr us" "s \<in> set ss" "set (sh_active s) \<subseteq> set us" "set us \<subseteq> set (sh_active s) \<union> was_quarantined ss" by auto
  with ss show ?thesis by (intro exI[of _ ss] exI[of _ us] exI[of _ st] exI[of _ 0] conjI exI[of _ s]) (simp_all del: call_prog.simps)
qed

theorem concurrent_NextNode_witness:
  "\<exists>ss u st w. saw (ln_pool demo_env) 0 ([call_prog 0 demo_env Call_NextNode, call_prog 1 demo_env Call_UpdateLiveNodes], None, demo_st, 0)
      ss ([Return (Out_Node (Inr u)), call_prog 1 demo_env Call_UpdateLiveNodes], None, st, w) \<and>
     u = demo_a \<and> u \<in> was_active ss \<union> was_quarantined ss"
proof -
  let ?T = "[call_prog 0 demo_env Call_NextNode, call_prog 1 demo_env Call_UpdateLiveNodes]"
  obtain u st w where n: "NextNode demo_env (demo_st, 0) = (Inr u, st, w)" "run (NextNode_prog demo_env) (None, demo_st, 0) = Some (u, None, st, w)"
    using run_NextNode[OF demo_pool(5), of demo_st 0] by blast
  have u: "u = demo_a" using NextNode_no_quarantine[OF demo_new(2) _ demo_lists(2), of demo_env 0] n(1) by (auto simp: demo_lists demo_new)
  from n have "run (call_prog 0 demo_env Call_NextNode) (None, demo_st, 0) = Some (Out_Node (Inr u), None, st, w)" by simp
  from run_saw[OF this, of 0 ?T demo_env] obtain ss where
    ss: "saw (ln_pool demo_env) 0 (?T, None, demo_st, 0) ss (?T[0 := Return (Out_Node (Inr u))], None, st, w)" by auto
  have "\<not> Url_Empty demo_a" using demo_hosts(2) by simp
  with concurrent_NextNode[OF demo_pool(1-4) two_calls _ ss, of "Out_Node (Inr u)"] u
  have "u \<in> was_active ss \<union> was_quarantined ss" by simp
  with ss u show ?thesis by (intro exI[of _ ss] exI[of _ u]) (auto simp del: call_prog.simps)
qed

end
