(* ===== verification/Live_Nodes_Race.thy ===== *)
theory Live_Nodes_Race
  imports Live_Nodes_Seen
begin

text \<open>
  A run of two threads that leaves a sticky assignment behind. \<open>StickyQuarantinedNodeForHash\<close> reads the quarantined
  nodes, chooses one and takes \<open>mutex_\<close> only to store the assignment; \<open>ReportNodeResult\<close> removes the assignments of a node when the node is
  no longer quarantined. When a report comes between the choice and the store, there is nothing to remove yet, and the assignment that is
  stored afterwards points at a node that is down.
\<close>

section \<open>The run\<close>

definition race_before :: AlternatorLiveNodes where
  "race_before = demo_quarantine demo_b (demo_quarantine demo_a demo_st)"

definition race_chosen :: AlternatorLiveNodes where
  "race_chosen = race_before\<lparr>ln_quarantine_node_index := 1\<rparr>"

definition race_reported :: AlternatorLiveNodes where
  "race_reported = LiveNodes_ReportNodeResult 0 demo_a ConnectionFailure race_chosen"

definition race_stored :: AlternatorLiveNodes where
  "race_stored = race_reported\<lparr>ln_quarantine_by_hash := [(7, demo_a)]\<rparr>"

lemma race_store:
  defines "r \<equiv> \<lambda>u s. NodeHealthStore_ReportNodeResult 0 u Success (NodeHealthStore_ReportNodeResult 0 u ConnectionFailure s)"
  defines "s0 \<equiv> NodeHealthStore_new 0 NodeHealthStoreConfig_default [demo_a, demo_b]"
  shows "ln_health_store race_before = r demo_b (r demo_a s0)"
    "ln_health_store race_reported = NodeHealthStore_ReportNodeResult 0 demo_a ConnectionFailure (r demo_b (r demo_a s0))"
  by (simp_all add: race_before_def race_reported_def race_chosen_def demo_quarantine_def Report_unfold Let_def demo_new r_def s0_def)

lemma race_lists:
  "LiveNodes_GetActiveNodes race_before = []" "LiveNodes_GetQuarantinedNodes race_before = [demo_a, demo_b]"
  "LiveNodes_GetActiveNodes race_reported = []" "LiveNodes_GetQuarantinedNodes race_reported = [demo_b]"
  "LiveNodes_GetDownNodes race_reported = [demo_a]"
  unfolding LiveNodes_GetActiveNodes_def LiveNodes_GetQuarantinedNodes_def LiveNodes_GetDownNodes_def race_store by code_simp+

lemma race_members: "ln_quarantine_by_hash race_reported = []" "ln_quarantine_by_hash race_before = []" "ln_quarantine_node_index race_before = 0"
  by (simp_all add: race_reported_def race_chosen_def race_before_def demo_quarantine_def Report_unfold Let_def demo_new MarkActivity_def)

lemma race_first: "QuarantinedNodeIsFirstForHash u [] 7 = Inr True"
proof -
  obtain v where "FirstNodeWithSeed [u] 7 = Inr v" "v \<in> set [u]" by (rule FirstNodeWithSeed_returns[of "[u]" 7]) simp_all
  then show ?thesis by (simp add: QuarantinedNodeIsFirstForHash_def)
qed

text \<open>The plan up to the choice of a node, and from there.\<close>

definition race_paused :: "(int shared, outcome) prog" where
  "race_paused = yields (pbind
     (pbind (on_mutex (poke (\<lambda>st. st\<lparr>ln_quarantine_by_hash := map_assign sint 7 demo_a (ln_quarantine_by_hash st)\<rparr>))) (\<lambda>_. Return (Inr demo_a)))
     (\<lambda>r. Return (rbind r (\<lambda>quarantined. Inr (AppendUniqueNodes (if \<not> Url_Empty quarantined then [quarantined] else []) []))))) Out_Nodes"

lemma race_plan:
  "prog_step\<^sup>*\<^sup>* (call_prog 0 demo_env (Call_GetQueryPlanNodesForHash 7), None, race_before, 0) (race_paused, None, race_chosen, 0)"
proof -
  let ?s = "(None, race_before, 0) :: int shared" and ?t = "(None, race_chosen, 0) :: int shared"
  let ?A = "pbind (on_mutex (poke (\<lambda>st. st\<lparr>ln_quarantine_by_hash := map_assign sint 7 demo_a (ln_quarantine_by_hash st)\<rparr>))) (\<lambda>_. Return (Inr demo_a))"
  have quarantined: "run (GetQuarantinedNodes_prog demo_env) ?s = Some ([demo_a, demo_b], ?s)" by (simp add: race_lists)
  have tried: "run (ShouldTryQuarantinedNode_prog demo_env True) ?s = Some (True, ?s)"
    by (simp add: ShouldTryQuarantinedNode_def race_lists)
  have pick: "run (on_member (pick_quarantined [demo_a, demo_b])) ?s = Some (demo_a, ?t)"
    by (simp add: pick_quarantined_def race_members race_chosen_def)
  have chosen: "prog_step\<^sup>*\<^sup>* (if [demo_a, demo_b] = [] then Return (Inr Url_default)
      else pbind (on_member (pick_quarantined [demo_a, demo_b])) (\<lambda>node.
        case QuarantinedNodeIsFirstForHash node [] 7 of Inl e \<Rightarrow> Return (Inl e) | Inr False \<Rightarrow> Return (Inr Url_default)
        | Inr True \<Rightarrow> pbind (on_mutex (poke (\<lambda>st. st\<lparr>ln_quarantine_by_hash := map_assign sint 7 node (ln_quarantine_by_hash st)\<rparr>)))
            (\<lambda>_. Return (Inr node))), ?s) (?A, ?t)"
    by (simp only: list.distinct if_False, rule run_pbind_step[OF pick]) (simp add: race_first)
  have new: "prog_step\<^sup>*\<^sup>* (sticky_new_prog demo_env 7 [], ?s) (?A, ?t)"
    unfolding sticky_new_prog_def refl[THEN eqTrueI]
    by (rule run_pbind_step[OF tried], unfold not_True_eq_False if_False, rule run_pbind_step[OF quarantined], rule chosen)
  have lookup: "run (on_mutex (sticky_lookup 7 [] [demo_a, demo_b])) ?s = Some (Inr None, ?s)"
    by (simp add: sticky_lookup_def race_members Let_def)
  have sticky: "prog_step\<^sup>*\<^sup>* (StickyQuarantinedNodeForHash_prog demo_env 7 [], ?s) (?A, ?t)"
    unfolding StickyQuarantinedNodeForHash_prog_def
    by (rule run_pbind_step[OF quarantined], rule run_pbind_step[OF lookup]) (simp add: new)
  show ?thesis
    unfolding race_paused_def call_prog.simps GetQueryPlanNodesForHash_prog_def
    by (intro prog_step_pbind, rule run_pbind_step[where a = "[]" and t = ?s])
      (use prog_step_pbind[OF sticky] in \<open>simp_all add: race_lists SortAndDedupeNodes_def\<close>)
qed

lemma race_resumed: "run race_paused (None, race_reported, 0) = Some (Out_Nodes (Inr [demo_a]), None, race_stored, 0)"
  using demo_hosts(2) by (simp add: race_paused_def race_stored_def race_members)

section \<open>Two threads\<close>

lemma pool_runs:
  assumes "i < length T" "T ! i = Return r" "run (call_prog i env c) s = Some (a, t)"
  shows "(ln_pool env)\<^sup>*\<^sup>* (T, s) (T[i := Return a], t)"
proof -
  have "(ln_pool env)\<^sup>*\<^sup>* (T[i := call_prog i env c], s) (T[i := Return a], t)"
    by (rule pool_steps_par, rule prog_steps_par[OF run_prog_step]) (use assms in simp_all)
  with pool_call[OF assms(1,2)] show ?thesis by (rule converse_rtranclp_into_rtranclp)
qed

text \<open>Reports of the second thread, and the plan of the first around one of them.\<close>

lemma pool_report:
  "(ln_pool demo_env)\<^sup>*\<^sup>* ([p, Return r], None, st, 0)
     ([p, Return (Out_Unit (Inr ()))], None, LiveNodes_ReportNodeResult 0 u obs st, 0)"
  using pool_runs[of 1 "[p, Return r]" r demo_env "Call_ReportNodeResult u obs" "(None, st, 0)" "Out_Unit (Inr ())"
      "(None, LiveNodes_ReportNodeResult 0 u obs st, 0)"]
  by (simp add: demo_env_def[THEN arg_cong[of _ _ env_now]])

lemma pool_quarantine:
  "(ln_pool demo_env)\<^sup>*\<^sup>* ([p, Return (Out_Unit (Inr ()))], None, st, 0) ([p, Return (Out_Unit (Inr ()))], None, demo_quarantine u st, 0)"
  unfolding demo_quarantine_def using rtranclp_trans[OF pool_report pool_report] .

text \<open>
  \<^bold>\<open>C18\<close>: a sticky assignment may outlive the quarantine of its node. There is a run of two threads, a plan for a hash in the one
  and a report of a failed connection in the other, after which both calls have returned and the hash is assigned to a node
  that is down: the report removed the assignments of the node before the plan stored its own. The sequential
  invariant, by which an assignment points at a quarantined node, does not hold there. The next plan for the hash drops the assignment.
\<close>

theorem sticky_assignment_may_be_stale:
  "\<exists>r s st. (ln_pool demo_env)\<^sup>*\<^sup>* (pool_start 2 demo_st 0) ([Return r, Return s], None, st, 0) \<and>
     map_find sint 7 (ln_quarantine_by_hash st) = Some demo_a \<and> demo_a \<in> set (LiveNodes_GetDownNodes st) \<and>
     \<not> ln_inv {''a'', ''b''} st \<and>
     (\<exists>st'. LiveNodes_GetQueryPlanNodesForHash 7 st = (Inr [demo_b], st') \<and> map_find sint 7 (ln_quarantine_by_hash st') = Some demo_b)"
proof (intro exI conjI)
  let ?r = "Return (Out_Unit (Inr ())) :: (int shared, outcome) prog" and ?plan = "Call_GetQueryPlanNodesForHash 7"
  let ?T = "[Return (Out_Nodes (Inr [demo_a])), ?r]"
  have "(ln_pool demo_env)\<^sup>*\<^sup>* ([?r, ?r], None, demo_st, 0) ([?r, ?r], None, race_before, 0)"
    unfolding race_before_def by (rule rtranclp_trans[OF pool_quarantine pool_quarantine])
  moreover have "ln_pool demo_env ([?r, ?r], None, race_before, 0) ([call_prog 0 demo_env ?plan, ?r], None, race_before, 0)"
    using pool_call[of 0 "[?r, ?r]" "Out_Unit (Inr ())" demo_env "(None, race_before, 0)" ?plan] by simp
  moreover have "(ln_pool demo_env)\<^sup>*\<^sup>* ([call_prog 0 demo_env ?plan, ?r], None, race_before, 0) ([race_paused, ?r], None, race_chosen, 0)"
    using pool_steps_par[OF prog_steps_par[OF race_plan, of 0 "[?r, ?r]"]] by simp
  moreover have "(ln_pool demo_env)\<^sup>*\<^sup>* ([race_paused, ?r], None, race_chosen, 0) ([race_paused, ?r], None, race_reported, 0)"
    unfolding race_reported_def by (rule pool_report)
  moreover have "(ln_pool demo_env)\<^sup>*\<^sup>* ([race_paused, ?r], None, race_reported, 0) (?T, None, race_stored, 0)"
    using pool_steps_par[OF prog_steps_par[OF run_prog_step[OF race_resumed], of 0 "[?r, ?r]"]] by simp
  ultimately show "(ln_pool demo_env)\<^sup>*\<^sup>* (pool_start 2 demo_st 0) (?T, None, race_stored, 0)"
    unfolding pool_start_def numeral_2_eq_2 replicate.simps by (meson r_into_rtranclp rtranclp_trans)
  show "map_find sint 7 (ln_quarantine_by_hash race_stored) = Some demo_a" by (simp add: race_stored_def)
  have lists: "LiveNodes_GetActiveNodes race_stored = []" "LiveNodes_GetQuarantinedNodes race_stored = [demo_b]"
    "LiveNodes_GetDownNodes race_stored = [demo_a]"
    using race_lists by (simp_all add: race_stored_def LiveNodes_GetActiveNodes_def LiveNodes_GetQuarantinedNodes_def LiveNodes_GetDownNodes_def)
  then show "demo_a \<in> set (LiveNodes_GetDownNodes race_stored)" by simp
  have ab: "demo_a \<noteq> demo_b" by (simp add: demo_a_def demo_b_def)
  with lists show "\<not> ln_inv {''a'', ''b''} race_stored" by (simp add: ln_inv_def race_stored_def)
  let ?st = "race_stored\<lparr>ln_quarantine_by_hash := [], ln_quarantine_node_index := ln_quarantine_node_index race_stored + 1\<rparr>"
  have erased: "LiveNodes_GetActiveNodes (race_stored\<lparr>ln_quarantine_by_hash := []\<rparr>) = []"
    "LiveNodes_GetQuarantinedNodes (race_stored\<lparr>ln_quarantine_by_hash := []\<rparr>) = [demo_b]"
    using lists by (simp_all add: LiveNodes_GetActiveNodes_def LiveNodes_GetQuarantinedNodes_def)
  have "map_erase sint 7 [(7 :: i64, demo_a)] = []" by code_simp
  then show "LiveNodes_GetQueryPlanNodesForHash 7 race_stored = (Inr [demo_b], ?st\<lparr>ln_quarantine_by_hash := [(7, demo_b)]\<rparr>)"
    using lists erased ab demo_hosts(3)
    by (simp add: LiveNodes_GetQueryPlanNodesForHash_def StickyQuarantinedNodeForHash_def sticky_new_def ShouldTryQuarantinedNode_def
        race_first race_stored_def SortAndDedupeNodes_def Let_def)
  show "map_find sint 7 (ln_quarantine_by_hash (?st\<lparr>ln_quarantine_by_hash := [(7, demo_b)]\<rparr>)) = Some demo_b" by simp
qed

end
