(* ===== verification/Http_Client.thy ===== *)
theory Http_Client
  imports Live_Nodes
begin

text \<open>
  \<open>src/src/http_client.cpp\<close>: the HTTP client that fetches \<open>/localnodes\<close>. Of its two builds, the one on
  POSIX sockets is modelled with every system call as a parameter, the record \<open>Sockets\<close> over a world;
  the one on libcurl is in \<open>Curl_Client\<close>. Loops that wait for the peer are partial functions: \<open>None\<close> is a call that never returns.
\<close>

section \<open>The standard library\<close>

text \<open>\<open>std::string::find\<close>, \<open>operator>>\<close> into a string and into a \<open>long\<close> (with \<open>LONG_MIN\<close> and \<open>LONG_MAX\<close> on overflow).\<close>

fun find_sub :: "string \<Rightarrow> string \<Rightarrow> nat option" where
  "find_sub pat [] = (if pat = [] then Some 0 else None)"
| "find_sub pat (c # cs) =
     (if take (length pat) (c # cs) = pat then Some 0 else map_option Suc (find_sub pat cs))"

definition extract_word :: "string \<Rightarrow> string \<times> string" where
  "extract_word s =
     (let t = dropWhile is_space s
      in (takeWhile (\<lambda>c. \<not> is_space c) t, dropWhile (\<lambda>c. \<not> is_space c) t))"

definition extract_long :: "string \<Rightarrow> int" where
  "extract_long s =
     (let t = dropWhile is_space s;
          sign = (if t \<noteq> [] \<and> hd t = CHR ''-'' then -1 else 1);
          t' = (if t \<noteq> [] \<and> (hd t = CHR ''-'' \<or> hd t = CHR ''+'') then tl t else t);
          value = sign * int (parse_decimal 0 (takeWhile is_digit t'))
      in max (- (2 ^ 63)) (min (2 ^ 63 - 1) value))"

text \<open>A string as a C function sees it.\<close>

definition c_str :: "string \<Rightarrow> string" where
  "c_str s = takeWhile (\<lambda>c. c \<noteq> CHR 0x00) s"

section \<open>Responses\<close>

abbreviation crlf :: string where "crlf \<equiv> [CHR 0x0D, CHR 0x0A]"

definition ParseHttpResponse ::
  "string \<Rightarrow> HttpContentEncodingDecoder option list \<Rightarrow> HttpResponse result" where
  "ParseHttpResponse raw content_encoding_decoders =
     (case find_sub (crlf @ crlf) raw of
        None \<Rightarrow> Inl (Runtime_Error ''invalid HTTP response'')
      | Some header_end \<Rightarrow>
          (case find_sub crlf raw of
             None \<Rightarrow> Inl (Runtime_Error ''invalid HTTP status line'')
           | Some status_line_end \<Rightarrow>
               if status_line_end > header_end then Inl (Runtime_Error ''invalid HTTP status line'')
               else
                 (let status_line = take status_line_end raw;
                      (http_version, rest) = extract_word status_line;
                      status_code = extract_long rest
                  in if take 5 http_version \<noteq> ''HTTP/'' \<or> status_code = 0 then
                       Inl (Runtime_Error ''invalid HTTP status line'')
                     else
                       rbind (DecodeHttpResponseBody (drop (header_end + 4) raw)
                                (FindHttpHeaderValue (take header_end raw) ''content-encoding'')
                                content_encoding_decoders) (\<lambda>body.
                         Inr \<lparr>resp_status_code = status_code, resp_body = body\<rparr>))))"

section \<open>Sockets\<close>

datatype recv_result = Received string | Recv_Failed bool
datatype send_result = Sent nat | Send_Failed bool

text \<open>
  The system calls. The flag of a failure tells whether \<open>errno\<close> is \<open>EINTR\<close>; \<open>getaddrinfo\<close> returns the text of
  \<open>gai_strerror\<close> or the addresses, and \<open>socket\<close> a negative number when it fails.
\<close>

record ('a, 'w) Sockets =
  sock_getaddrinfo :: "string \<Rightarrow> string \<Rightarrow> 'w \<Rightarrow> (string + 'a list) \<times> 'w"
  sock_socket :: "'a \<Rightarrow> 'w \<Rightarrow> int \<times> 'w"
  sock_connect :: "int \<Rightarrow> 'a \<Rightarrow> 'w \<Rightarrow> bool \<times> 'w"
  sock_recv :: "int \<Rightarrow> nat \<Rightarrow> 'w \<Rightarrow> recv_result \<times> 'w"
  sock_send :: "int \<Rightarrow> string \<Rightarrow> 'w \<Rightarrow> send_result \<times> 'w"
  sock_close :: "int \<Rightarrow> 'w \<Rightarrow> 'w"

text \<open>The destructor of a guard; a guard that was moved from holds -1.\<close>

definition FdGuard_destroy :: "('a, 'w) Sockets \<Rightarrow> int \<Rightarrow> 'w \<Rightarrow> 'w" where
  "FdGuard_destroy os fd w = (if 0 \<le> fd then sock_close os fd w else w)"

text \<open>Moves: the descriptor of the new guard and what is left in the old one. \<open>same\<close> is an assignment of a guard to itself.\<close>

definition FdGuard_move :: "int \<Rightarrow> int \<times> int" where
  "FdGuard_move other = (other, - 1)"

definition FdGuard_move_assign :: "('a, 'w) Sockets \<Rightarrow> bool \<Rightarrow> int \<Rightarrow> int \<Rightarrow> 'w \<Rightarrow> (int \<times> int) \<times> 'w" where
  "FdGuard_move_assign os same fd other w =
     (if same then ((fd, other), w)
      else (FdGuard_move other, if 0 \<le> fd then sock_close os fd w else w))"

lemma FdGuard_moves_close_once:
  "(case FdGuard_move fd of (moved, left) \<Rightarrow> FdGuard_destroy os left (FdGuard_destroy os moved w)) = FdGuard_destroy os fd w"
  "(case FdGuard_move_assign os False fd other w of ((moved, left), w') \<Rightarrow> FdGuard_destroy os left (FdGuard_destroy os moved w')) =
     FdGuard_destroy os other (FdGuard_destroy os fd w)"
  by (simp_all add: FdGuard_move_def FdGuard_move_assign_def FdGuard_destroy_def)

partial_function (option) ReadAll_loop ::
  "('a, 'w) Sockets \<Rightarrow> int \<Rightarrow> string \<Rightarrow> 'w \<Rightarrow> (string result \<times> 'w) option" where
  "ReadAll_loop os fd data w =
     (case sock_recv os fd 4096 w of
        (Received buffer, w') \<Rightarrow> if buffer = [] then Some (Inr data, w') else ReadAll_loop os fd (data @ buffer) w'
      | (Recv_Failed eintr, w') \<Rightarrow>
          if eintr then ReadAll_loop os fd data w' else Some (Inl (Runtime_Error ''recv failed''), w'))"

definition ReadAll :: "('a, 'w) Sockets \<Rightarrow> int \<Rightarrow> 'w \<Rightarrow> (string result \<times> 'w) option" where
  "ReadAll os fd w = ReadAll_loop os fd [] w"

partial_function (option) SendAll_loop ::
  "('a, 'w) Sockets \<Rightarrow> int \<Rightarrow> string \<Rightarrow> nat \<Rightarrow> 'w \<Rightarrow> (unit result \<times> 'w) option" where
  "SendAll_loop os fd data sent w =
     (if \<not> sent < length data then Some (Inr (), w)
      else
        (case sock_send os fd (drop sent data) w of
           (Sent n, w') \<Rightarrow> SendAll_loop os fd data (sent + n) w'
         | (Send_Failed eintr, w') \<Rightarrow>
             if eintr then SendAll_loop os fd data sent w' else Some (Inl (Runtime_Error ''send failed''), w')))"

definition SendAll :: "('a, 'w) Sockets \<Rightarrow> int \<Rightarrow> string \<Rightarrow> 'w \<Rightarrow> (unit result \<times> 'w) option" where
  "SendAll os fd data w = SendAll_loop os fd data 0 w"

fun ConnectTcp_loop :: "('a, 'w) Sockets \<Rightarrow> 'a list \<Rightarrow> 'w \<Rightarrow> int result \<times> 'w" where
  "ConnectTcp_loop os [] w = (Inl (Runtime_Error ''connect failed''), w)"
| "ConnectTcp_loop os (it # rest) w =
     (case sock_socket os it w of
        (fd, w1) \<Rightarrow>
          if fd < 0 then ConnectTcp_loop os rest w1
          else
            (case sock_connect os fd it w1 of
               (True, w2) \<Rightarrow> (Inr fd, w2)
             | (False, w2) \<Rightarrow> ConnectTcp_loop os rest (FdGuard_destroy os fd w2)))"

definition ConnectTcp :: "('a, 'w) Sockets \<Rightarrow> Url \<Rightarrow> 'w \<Rightarrow> int result \<times> 'w" where
  "ConnectTcp os url w =
     (case sock_getaddrinfo os (c_str (url_host url)) (to_string (unat (url_port url))) w of
        (Inl message, w') \<Rightarrow> (Inl (Runtime_Error message), w')
      | (Inr results, w') \<Rightarrow> ConnectTcp_loop os results w')"

section \<open>Requests over sockets\<close>

definition HttpRequest_text :: "Config \<Rightarrow> Url \<Rightarrow> string \<Rightarrow> string" where
  "HttpRequest_text config url accept_encoding_value =
     (let path = (if url_path url = [] then ''/'' else url_path url);
          target = (if url_query url = [] then path else path @ ''?'' @ url_query url)
      in ''GET '' @ target @ '' HTTP/1.1'' @ crlf @
         ''Host: '' @ Url_Authority url @ crlf @
         ''Connection: close'' @ crlf @
         (if accept_encoding_value \<noteq> [] then ''Accept-Encoding: '' @ accept_encoding_value @ crlf else []) @
         (if cfg_user_agent config \<noteq> [] then ''User-Agent: '' @ cfg_user_agent config @ crlf else []) @
         crlf)"

definition SocketHttpClient_Get ::
  "('a, 'w) Sockets \<Rightarrow> Config \<Rightarrow> Url \<Rightarrow> 'w \<Rightarrow> (HttpResponse result \<times> 'w) option" where
  "SocketHttpClient_Get os config url w =
     (if url_scheme url \<noteq> ''http'' then
        Some (Inl (Runtime_Error
          ''alternator_client_cpp was built without libcurl support; https is unavailable''), w)
      else
        (case BuildAcceptEncodingValue (cfg_content_encoding_decoders config) of
           Inl e \<Rightarrow> Some (Inl e, w)
         | Inr accept_encoding_value \<Rightarrow>
             (case ConnectTcp os url w of
                (Inl e, w1) \<Rightarrow> Some (Inl e, w1)
              | (Inr fd, w1) \<Rightarrow>
                  (case SendAll os fd (HttpRequest_text config url accept_encoding_value) w1 of
                     None \<Rightarrow> None
                   | Some (Inl e, w2) \<Rightarrow> Some (Inl e, FdGuard_destroy os fd w2)
                   | Some (Inr _, w2) \<Rightarrow>
                       (case ReadAll os fd w2 of
                          None \<Rightarrow> None
                        | Some (Inl e, w3) \<Rightarrow> Some (Inl e, FdGuard_destroy os fd w3)
                        | Some (Inr raw, w3) \<Rightarrow>
                            Some (ParseHttpResponse raw (cfg_content_encoding_decoders config),
                                  FdGuard_destroy os fd w3))))))"

section \<open>The loops over a socket\<close>

text \<open>The peer delivers a string and closes; the kernel accepts a string; both may interrupt.\<close>

inductive delivers :: "('a, 'w) Sockets \<Rightarrow> int \<Rightarrow> 'w \<Rightarrow> string \<Rightarrow> 'w \<Rightarrow> bool" for os fd where
  closed: "sock_recv os fd 4096 w = (Received [], w') \<Longrightarrow> delivers os fd w [] w'"
| interrupted: "sock_recv os fd 4096 w = (Recv_Failed True, w1) \<Longrightarrow> delivers os fd w1 s w' \<Longrightarrow> delivers os fd w s w'"
| chunk: "sock_recv os fd 4096 w = (Received buffer, w1) \<Longrightarrow> buffer \<noteq> [] \<Longrightarrow> delivers os fd w1 s w' \<Longrightarrow>
    delivers os fd w (buffer @ s) w'"

inductive accepts :: "('a, 'w) Sockets \<Rightarrow> int \<Rightarrow> 'w \<Rightarrow> string \<Rightarrow> 'w \<Rightarrow> bool" for os fd where
  nothing: "accepts os fd w [] w"
| retry: "data \<noteq> [] \<Longrightarrow> sock_send os fd data w = (Send_Failed True, w1) \<Longrightarrow> accepts os fd w1 data w' \<Longrightarrow>
    accepts os fd w data w'"
| part: "data \<noteq> [] \<Longrightarrow> sock_send os fd data w = (Sent n, w1) \<Longrightarrow> accepts os fd w1 (drop n data) w' \<Longrightarrow>
    accepts os fd w data w'"

lemma ReadAll_delivers: "delivers os fd w s w' \<Longrightarrow> ReadAll_loop os fd data w = Some (Inr (data @ s), w')"
  by (induction arbitrary: data rule: delivers.induct) (subst ReadAll_loop.simps, simp)+

text \<open>What a call that returns did to the world, and that a string it returns was delivered.\<close>

lemma ReadAll_keeps:
  assumes "ReadAll_loop os fd data w = Some x" "P w" "\<And>w r w1. sock_recv os fd 4096 w = (r, w1) \<Longrightarrow> P w \<Longrightarrow> P w1"
  shows "P (snd x)"
proof -
  have "P w \<longrightarrow> os' = os \<longrightarrow> fd' = fd \<longrightarrow> P (snd x)" if "ReadAll_loop os' fd' data w = Some x" for os' fd'
    by (rule ReadAll_loop.raw_induct[where P = "\<lambda>os' fd' data w x. P w \<longrightarrow> os' = os \<longrightarrow> fd' = fd \<longrightarrow> P (snd x)", OF _ that])
      (auto split: prod.splits recv_result.splits if_splits dest: assms(3))
  with assms(1,2) show ?thesis by blast
qed

lemma SendAll_keeps:
  assumes "SendAll_loop os fd data sent w = Some x" "P w" "\<And>data w r w1. sock_send os fd data w = (r, w1) \<Longrightarrow> P w \<Longrightarrow> P w1"
  shows "P (snd x)"
proof -
  have "P w \<longrightarrow> os' = os \<longrightarrow> fd' = fd \<longrightarrow> P (snd x)" if "SendAll_loop os' fd' data sent w = Some x" for os' fd'
    by (rule SendAll_loop.raw_induct[where P = "\<lambda>os' fd' data sent w x. P w \<longrightarrow> os' = os \<longrightarrow> fd' = fd \<longrightarrow> P (snd x)", OF _ that])
      (auto split: prod.splits send_result.splits if_splits dest: assms(3))
  with assms(1,2) show ?thesis by blast
qed

lemma delivers_ReadAll:
  fixes os :: "('a, 'w) Sockets" and w :: 'w
  assumes "ReadAll_loop os fd data w = Some x"
  shows "\<forall>t. fst x = Inr t \<longrightarrow> (\<exists>s. t = data @ s \<and> delivers os fd w s (snd x))"
proof (rule ReadAll_loop.raw_induct[where P = "\<lambda>os fd data w x.
        \<forall>t. fst x = Inr t \<longrightarrow> (\<exists>s. t = data @ s \<and> delivers os fd w s (snd x))", OF _ assms])
  fix loop and os :: "('a, 'w) Sockets" and fd :: int and data :: string and w :: 'w and x :: "string result \<times> 'w"
  assume ih: "\<And>os fd data (w :: 'w) x. loop (os :: ('a, 'w) Sockets) fd data w = Some x \<Longrightarrow>
      \<forall>t. fst x = Inr t \<longrightarrow> (\<exists>s. t = data @ s \<and> delivers os fd w s (snd x))"
    and eq: "(case sock_recv os fd 4096 w of
        (Received buffer, w') \<Rightarrow> if buffer = [] then Some (Inr data, w') else loop os fd (data @ buffer) w'
      | (Recv_Failed eintr, w') \<Rightarrow>
          if eintr then loop os fd data w' else Some (Inl (Runtime_Error ''recv failed''), w')) = Some x"
  obtain r w1 where r: "sock_recv os fd 4096 w = (r, w1)" by (metis surj_pair)
  show "\<forall>t. fst x = Inr t \<longrightarrow> (\<exists>s. t = data @ s \<and> delivers os fd w s (snd x))"
  proof (cases r)
    case (Received buffer)
    show ?thesis
    proof (cases "buffer = []")
      case True
      with eq r Received show ?thesis by (auto intro: closed)
    next
      case False
      with eq r Received have "loop os fd (data @ buffer) w1 = Some x" by simp
      from ih[OF this] show ?thesis using chunk[OF _ False] r Received by fastforce
    qed
  next
    case (Recv_Failed eintr)
    show ?thesis
    proof (cases eintr)
      case True
      with eq r Recv_Failed have "loop os fd data w1 = Some x" by simp
      from ih[OF this] show ?thesis using interrupted r Recv_Failed True by fastforce
    next
      case False
      with eq r Recv_Failed show ?thesis by auto
    qed
  qed
qed

lemma ReadAll_iff: "ReadAll os fd w = Some (Inr s, w') \<longleftrightarrow> delivers os fd w s w'"
  using ReadAll_delivers[of os fd w s w' "[]"] delivers_ReadAll[of os fd "[]" w "(Inr s, w')"] by (auto simp: ReadAll_def)

lemma SendAll_accepts:
  "accepts os fd w rest w' \<Longrightarrow> rest = drop sent data \<Longrightarrow> SendAll_loop os fd data sent w = Some (Inr (), w')"
proof (induction arbitrary: sent rule: accepts.induct)
  case (part rest w n w1 w')
  then have "SendAll_loop os fd data (sent + n) w1 = Some (Inr (), w')" by (simp add: add.commute)
  with part show ?case by (subst SendAll_loop.simps) auto
qed (subst SendAll_loop.simps, force)+

end
