(* ===== verification/Http_Response.thy ===== *)
theory Http_Response
  imports Http_Client
begin

text \<open>
  What the socket client does: the parser inverts a server's formatting, a whole exchange returns the
  decoded body, and every descriptor is closed whichever way a request ends.
\<close>

section \<open>Parsing a response\<close>

lemma find_sub_skip:
  assumes "p \<notin> set l"
  shows "find_sub (p # ps) (l @ t) = map_option (\<lambda>n. n + length l) (find_sub (p # ps) t)"
  using assms
proof (induction l)
  case (Cons c l)
  then have "find_sub (p # ps) ((c # l) @ t) = map_option Suc (find_sub (p # ps) (l @ t))" by auto
  also have "\<dots> = map_option (\<lambda>n. n + length (c # l)) (find_sub (p # ps) t)"
    using Cons by (cases "find_sub (p # ps) t") simp_all
  finally show ?case .
qed (cases "find_sub (p # ps) t", simp_all)

lemma find_sub_crlf: "find_sub (crlf @ crlf) (crlf @ t) =
   (if take 2 t = crlf then Some 0 else map_option (\<lambda>n. n + 2) (find_sub (crlf @ crlf) t))"
proof -
  have t: "take 4 (crlf @ t) = crlf @ take 2 t" by simp
  show ?thesis
  proof (cases "take 2 t = crlf")
    case True
    then show ?thesis by (simp add: numeral_eq_Suc)
  next
    case False
    then have "find_sub (crlf @ crlf) (crlf @ t) = map_option Suc (map_option Suc (find_sub (crlf @ crlf) t))"
      by (cases t; cases "tl t") (auto simp: numeral_eq_Suc)
    with False show ?thesis by (cases "find_sub (crlf @ crlf) t") simp_all
  qed
qed

text \<open>Lines, each ended by CR LF, and the block of them.\<close>

definition line_ok :: "string \<Rightarrow> bool" where
  "line_ok l \<longleftrightarrow> l \<noteq> [] \<and> CHR 0x0D \<notin> set l \<and> CHR 0x0A \<notin> set l"

abbreviation block :: "string list \<Rightarrow> string" where
  "block ls \<equiv> concat (map (\<lambda>l. l @ crlf) ls)"

lemma take2_line: "line_ok l \<Longrightarrow> take 2 (l @ t) \<noteq> crlf"
  by (cases l) (auto simp: line_ok_def)

lemma find_header_end:
  assumes "ls \<noteq> []" "Ball (set ls) line_ok"
  shows "find_sub (crlf @ crlf) (block ls @ crlf @ body) = Some (length (block ls) - 2)"
  using assms
proof (induction ls)
  case (Cons l ls)
  have cr: "CHR 0x0D \<notin> set l" using Cons.prems by (simp add: line_ok_def)
  have skip: "find_sub (crlf @ crlf) (l @ t) = map_option (\<lambda>n. n + length l) (find_sub (crlf @ crlf) t)" for t
    using find_sub_skip[OF cr] by simp
  show ?case
  proof (cases ls)
    case Nil
    have "find_sub (crlf @ crlf) (crlf @ crlf @ body) = Some 0" using find_sub_crlf[of "crlf @ body"] by (simp add: numeral_eq_Suc)
    with Nil skip[of "crlf @ crlf @ body"] show ?thesis by simp
  next
    case (Cons m ms)
    then have m: "line_ok m" "ls \<noteq> []" "Ball (set ls) line_ok" using Cons.prems by auto
    let ?t = "block ls @ crlf @ body"
    have "take 2 ?t \<noteq> crlf" using take2_line[OF m(1)] Cons by simp
    then have "find_sub (crlf @ crlf) (crlf @ ?t) = Some (length (block ls))"
      using find_sub_crlf[of ?t] Cons.IH[OF m(2,3)] Cons by simp
    with skip[of "crlf @ ?t"] show ?thesis by simp
  qed
qed simp

lemma find_status_end: "line_ok l \<Longrightarrow> find_sub crlf (l @ crlf @ t) = Some (length l)"
  using find_sub_skip[of "CHR 0x0D" l "[CHR 0x0A]" "crlf @ t"] by (simp add: line_ok_def)

lemma getlines_single:
  assumes "l \<noteq> []" "CHR 0x0A \<notin> set l"
  shows "getlines l = [l]"
proof -
  have d: "dropWhile (\<lambda>c. c \<noteq> CHR 0x0A) l = []" and t: "takeWhile (\<lambda>c. c \<noteq> CHR 0x0A) l = l"
    using assms(2) by (auto simp: dropWhile_eq_Nil_conv takeWhile_eq_all_conv)
  have "getlines [] = []" by (subst getlines.simps) simp
  with assms(1) show ?thesis unfolding getlines.simps[of l] d t by simp
qed

text \<open>The header block without its last line end.\<close>

lemma getlines_block:
  assumes "Ball (set ls) line_ok" "line_ok l"
  shows "getlines (block ls @ l) = map (\<lambda>l. l @ [CHR 0x0D]) ls @ [l]"
  using assms
proof (induction ls)
  case (Cons m ls)
  then show ?case using getlines_line[of "m @ [CHR 0x0D]" "block ls @ l"] by (simp add: line_ok_def)
qed (simp add: getlines_single line_ok_def)

lemma header_line_cr: "line_ok l \<Longrightarrow> header_line w (l @ [CHR 0x0D]) v = header_line w l v"
proof -
  assume "line_ok l"
  then have "l \<noteq> []" "last l \<noteq> CHR 0x0D" unfolding line_ok_def by (blast, metis last_in_set)
  then show ?thesis by (simp add: header_line_def)
qed

lemma FindHttpHeaderValue_block:
  assumes "Ball (set ls) line_ok" "line_ok l"
  shows "FindHttpHeaderValue (block ls @ l) name =
    fold (header_line (ToLowerAscii name)) (map (\<lambda>l. l @ [CHR 0x0D]) (ls @ [l])) []"
  using assms by (simp add: FindHttpHeaderValue_def getlines_block header_line_cr)

definition field_ok :: "string \<times> string \<Rightarrow> bool" where
  "field_ok h \<longleftrightarrow> header_ok h \<and> CHR 0x0D \<notin> set (fst h) \<and> CHR 0x0D \<notin> set (snd h)"

definition field_line :: "string \<times> string \<Rightarrow> string" where
  "field_line h = fst h @ '': '' @ snd h"

definition status_line :: "string \<Rightarrow> nat \<Rightarrow> string \<Rightarrow> string" where
  "status_line version code reason = ''HTTP/'' @ version @ '' '' @ to_string code @ '' '' @ reason"

text \<open>A response as a server writes it.\<close>

definition format_response :: "string \<Rightarrow> nat \<Rightarrow> string \<Rightarrow> (string \<times> string) list \<Rightarrow> string \<Rightarrow> string" where
  "format_response version code reason hs body =
     status_line version code reason @ crlf @ concat (map format_header hs) @ crlf @ body"

definition header_value :: "(string \<times> string) list \<Rightarrow> string \<Rightarrow> string" where
  "header_value hs name =
     (case map_of (rev (map (\<lambda>(n, x). (ToLowerAscii n, x)) hs)) (ToLowerAscii name) of None \<Rightarrow> [] | Some x \<Rightarrow> x)"

lemma field_line_ok: "field_ok h \<Longrightarrow> line_ok (field_line h)"
  by (auto simp: field_ok_def header_ok_def line_ok_def field_line_def)

lemma digit_not_special: "is_digit c \<Longrightarrow> \<not> is_space c \<and> c \<noteq> CHR 0x0D \<and> c \<noteq> CHR 0x0A \<and> c \<noteq> CHR ''-'' \<and> c \<noteq> CHR ''+''"
  by (auto simp: is_digit_def is_space_def Let_def)

lemma status_line_ok:
  "CHR 0x0D \<notin> set (version @ reason) \<Longrightarrow> CHR 0x0A \<notin> set (version @ reason) \<Longrightarrow> line_ok (status_line version code reason)"
  using to_string_digits digit_not_special by (fastforce simp: line_ok_def status_line_def)

lemma extract_status:
  assumes "\<forall>c \<in> set version. \<not> is_space c" "code < 2 ^ 63"
  shows "extract_word (status_line version code reason) = (''HTTP/'' @ version, '' '' @ to_string code @ '' '' @ reason)"
    "extract_long ('' '' @ to_string code @ '' '' @ reason) = int code"
proof -
  have ne: "to_string code \<noteq> []" by simp
  have sp: "is_space CHR '' ''" "\<not> is_digit CHR '' ''" by (simp_all add: is_space_def is_digit_def)
  have h: "\<not> is_space CHR ''H''" "\<not> is_space CHR ''T''" "\<not> is_space CHR ''P''" "\<not> is_space CHR ''/''" by (simp_all add: is_space_def)
  show "extract_word (status_line version code reason) = (''HTTP/'' @ version, '' '' @ to_string code @ '' '' @ reason)"
    using assms(1) h sp by (simp add: extract_word_def status_line_def takeWhile_append dropWhile_append)
  have d: "\<forall>c \<in> set (to_string code). is_digit c" using to_string_digits by blast
  obtain c cs where c: "to_string code = c # cs" using ne by (cases "to_string code") auto
  then have dc: "\<not> is_space c" "c \<noteq> CHR ''-''" "c \<noteq> CHR ''+''" using d digit_not_special by auto
  have "takeWhile is_digit (to_string code @ '' '' @ reason) = to_string code" using d sp by (simp add: takeWhile_append)
  with c dc sp have "extract_long ('' '' @ to_string code @ '' '' @ reason) =
      max (- (2 ^ 63)) (min (2 ^ 63 - 1) (int (parse_decimal 0 (to_string code))))"
    by (simp add: extract_long_def)
  also have "\<dots> = int code" using assms(2) parse_decimal_to_string[of code] by simp
  finally show "extract_long ('' '' @ to_string code @ '' '' @ reason) = int code" .
qed

lemma format_response_block:
  "format_response version code reason hs body = block (status_line version code reason # map field_line hs) @ crlf @ body"
proof -
  have "format_header = (\<lambda>h. field_line h @ crlf)" by (auto simp: fun_eq_iff format_header_def field_line_def)
  then show ?thesis by (simp add: format_response_def comp_def)
qed

lemma header_value_of_block:
  assumes "Ball (set hs) field_ok" "line_ok (status_line version code reason)"
  shows "FindHttpHeaderValue (take (length (block (status_line version code reason # map field_line hs)) - 2)
      (block (status_line version code reason # map field_line hs) @ t)) name = header_value hs name"
proof -
  let ?s = "status_line version code reason"
  let ?ls = "?s # map field_line hs"
  have ok: "Ball (set ?ls) line_ok" using assms field_line_ok by auto
  obtain ls l where ls: "?ls = ls @ [l]" by (metis append_butlast_last_id list.distinct(1))
  then have okl: "Ball (set ls) line_ok" "line_ok l" using ok by auto
  have "block ?ls = (block ls @ l) @ crlf" unfolding ls by simp
  then have "take (length (block ?ls) - 2) (block ?ls @ t) = block ls @ l" by simp
  then have "FindHttpHeaderValue (take (length (block ?ls) - 2) (block ?ls @ t)) name =
      fold (header_line (ToLowerAscii name)) (map (\<lambda>l. l @ [CHR 0x0D]) ?ls) []"
    using FindHttpHeaderValue_block[OF okl] unfolding ls by simp
  also have "\<dots> = fold (header_line (ToLowerAscii name)) (map (\<lambda>h. fst h @ '': '' @ snd h @ [CHR 0x0D]) hs) []"
    by (simp add: header_line_def status_line_def field_line_def comp_def butlast_append)
  also have "\<dots> = header_value hs name"
    using fold_header_lines[of hs] assms(1) by (simp add: field_ok_def header_value_def)
  finally show ?thesis .
qed

lemma ParseHttpResponse_of_response:
  assumes "Ball (set hs) field_ok" "\<forall>c \<in> set version. \<not> is_space c"
    and "CHR 0x0D \<notin> set reason" "CHR 0x0A \<notin> set reason" "0 < code" "code < 2 ^ 63"
  shows "ParseHttpResponse (format_response version code reason hs body) decoders =
    rbind (DecodeHttpResponseBody body (header_value hs ''content-encoding'') decoders) (\<lambda>body'.
      Inr \<lparr>resp_status_code = int code, resp_body = body'\<rparr>)"
proof -
  let ?s = "status_line version code reason"
  let ?ls = "?s # map field_line hs" and ?raw = "format_response version code reason hs body"
  have v: "CHR 0x0D \<notin> set version" "CHR 0x0A \<notin> set version" using assms(2) by (auto simp: is_space_def)
  have s: "line_ok ?s" using status_line_ok v assms(3,4) by simp
  have ok: "Ball (set ?ls) line_ok" using assms(1) field_line_ok s by auto
  note raw = format_response_block[of version code reason hs body]
  have he: "find_sub (crlf @ crlf) ?raw = Some (length (block ?ls) - 2)" unfolding raw using find_header_end[OF _ ok] by simp
  have se: "find_sub crlf ?raw = Some (length ?s)" unfolding raw using find_status_end[OF s] by simp
  have le: "\<not> length (block ?ls) - 2 < length ?s" by simp
  have "length (block ?ls) - 2 + 4 = length (block ?ls @ crlf)" by simp
  then have dr: "drop (length (block ?ls) - 2 + 4) ?raw = body" unfolding raw by (metis append_assoc append_eq_conv_conj)
  have tk: "take (length ?s) ?raw = ?s" unfolding raw by simp
  have hv: "FindHttpHeaderValue (take (length (block ?ls) - 2) ?raw) ''content-encoding'' = header_value hs ''content-encoding''"
    unfolding raw using header_value_of_block[OF assms(1) s] .
  show ?thesis
    unfolding ParseHttpResponse_def he se option.case
    using le dr tk hv extract_status[OF assms(2,6)] assms(5) by (simp del: map_append concat_append)
qed

section \<open>An exchange\<close>

lemma SendAll_accepts_all: "accepts os fd w data w' \<Longrightarrow> SendAll os fd data w = Some (Inr (), w')"
  unfolding SendAll_def by (rule SendAll_accepts) simp_all

lemma Get_of_response:
  assumes "url_scheme url = ''http''" "BuildAcceptEncodingValue (cfg_content_encoding_decoders config) = Inr accept_encoding"
    and "ConnectTcp os url w = (Inr fd, w1)"
    and "accepts os fd w1 (HttpRequest_text config url accept_encoding) w2"
    and "delivers os fd w2 (format_response version code reason hs body) w3"
    and "Ball (set hs) field_ok" "\<forall>c \<in> set version. \<not> is_space c"
    and "CHR 0x0D \<notin> set reason" "CHR 0x0A \<notin> set reason" "0 < code" "code < 2 ^ 63"
  shows "SocketHttpClient_Get os config url w =
    Some (rbind (DecodeHttpResponseBody body (header_value hs ''content-encoding'') (cfg_content_encoding_decoders config))
            (\<lambda>body'. Inr \<lparr>resp_status_code = int code, resp_body = body'\<rparr>), FdGuard_destroy os fd w3)"
  unfolding SocketHttpClient_Get_def
  using assms(1-3) SendAll_accepts_all[OF assms(4)] ReadAll_iff assms(5) ParseHttpResponse_of_response[OF assms(6-)]
  by (simp add: ReadAll_iff[THEN iffD2, OF assms(5)])

text \<open>
  \<^bold>\<open>C28\<close>: a whole exchange. When a connection is made, the kernel takes the request in any portions and
  the peer sends a well-formed response in any chunks and closes, both with any interruptions, the
  call returns the status code and the body decoded by the codings of the last \<open>Content-Encoding\<close> field, and
  closes the descriptor. The body may hold any bytes, also empty lines.
\<close>

theorem SocketHttpClient_Get_exchange:
  assumes "url_scheme url = ''http''" "BuildAcceptEncodingValue (cfg_content_encoding_decoders config) = Inr accept_encoding"
    and "ConnectTcp os url w = (Inr fd, w1)"
    and "accepts os fd w1 (HttpRequest_text config url accept_encoding) w2"
    and "delivers os fd w2 (format_response version code reason hs body) w3"
    and "Ball (set hs) field_ok" "\<forall>c \<in> set version. \<not> is_space c"
    and "CHR 0x0D \<notin> set reason" "CHR 0x0A \<notin> set reason" "0 < code" "code < 2 ^ 63"
  shows "SocketHttpClient_Get os config url w =
    Some (rbind (DecodeHttpResponseBody body (header_value hs ''content-encoding'') (cfg_content_encoding_decoders config))
            (\<lambda>body'. Inr \<lparr>resp_status_code = int code, resp_body = body'\<rparr>), FdGuard_destroy os fd w3)"
  by (rule Get_of_response[OF assms])

section \<open>Descriptors\<close>

text \<open>
  What POSIX documents of the open descriptors: a new socket is the only call that opens one, with a
  fresh number, and \<open>close\<close> the only one that closes one.
\<close>

definition descriptors_ok :: "('a, 'w) Sockets \<Rightarrow> ('w \<Rightarrow> int set) \<Rightarrow> bool" where
  "descriptors_ok os fds \<longleftrightarrow>
     (\<forall>host service w. fds (snd (sock_getaddrinfo os host service w)) = fds w) \<and>
     (\<forall>a w fd w'. sock_socket os a w = (fd, w') \<longrightarrow>
        (if fd < 0 then fds w' = fds w else fd \<notin> fds w \<and> fds w' = insert fd (fds w))) \<and>
     (\<forall>fd a w. fds (snd (sock_connect os fd a w)) = fds w) \<and>
     (\<forall>fd n w. fds (snd (sock_recv os fd n w)) = fds w) \<and>
     (\<forall>fd data w. fds (snd (sock_send os fd data w)) = fds w) \<and>
     (\<forall>fd w. fds (sock_close os fd w) = fds w - {fd})"

lemma ConnectTcp_loop_descriptors:
  assumes "descriptors_ok os fds"
  shows "ConnectTcp_loop os as w = (r, w') \<Longrightarrow>
    (case r of Inl e \<Rightarrow> fds w' = fds w | Inr fd \<Rightarrow> 0 \<le> fd \<and> fd \<notin> fds w \<and> fds w' = insert fd (fds w))"
proof (induction as arbitrary: w)
  case (Cons a as)
  obtain fd w1 where s: "sock_socket os a w = (fd, w1)" by (metis surj_pair)
  obtain b w2 where c: "sock_connect os fd a w1 = (b, w2)" by (metis surj_pair)
  have w1: "if fd < 0 then fds w1 = fds w else fd \<notin> fds w \<and> fds w1 = insert fd (fds w)"
    using assms s by (auto simp: descriptors_ok_def)
  have w2: "fds w2 = fds w1" using assms c by (metis descriptors_ok_def snd_conv)
  have close: "fds (FdGuard_destroy os fd w2) = (if 0 \<le> fd then fds w2 - {fd} else fds w2)"
    using assms by (simp add: FdGuard_destroy_def descriptors_ok_def)
  show ?case
  proof (cases "0 \<le> fd \<and> b")
    case True
    with Cons.prems s c w1 w2 show ?thesis by auto
  next
    case False
    define v where "v = (if fd < 0 then w1 else FdGuard_destroy os fd w2)"
    have "ConnectTcp_loop os as v = (r, w')" using Cons.prems s c False by (auto simp: v_def split: if_splits)
    moreover have "fds v = fds w" using w1 w2 close by (auto simp: v_def)
    ultimately show ?thesis using Cons.IH[of v] by (cases r) auto
  qed
qed auto

lemma ConnectTcp_descriptors:
  assumes "descriptors_ok os fds" "ConnectTcp os url w = (r, w')"
  shows "case r of Inl e \<Rightarrow> fds w' = fds w | Inr fd \<Rightarrow> 0 \<le> fd \<and> fd \<notin> fds w \<and> fds w' = insert fd (fds w)"
proof -
  obtain a w1 where g: "sock_getaddrinfo os (c_str (url_host url)) (to_string (unat (url_port url))) w = (a, w1)" by (metis surj_pair)
  then have "fds w1 = fds w" using assms(1) by (metis descriptors_ok_def snd_conv)
  with assms(2) g ConnectTcp_loop_descriptors[OF assms(1), of _ w1 r w'] show ?thesis
    by (auto simp: ConnectTcp_def split: sum.splits)
qed

lemma ReadAll_descriptors:
  assumes "descriptors_ok os fds" "ReadAll os fd w = Some (r, w')"
  shows "fds w' = fds w"
  using ReadAll_keeps[of os fd "[]" w "(r, w')" "\<lambda>v. fds v = fds w"] assms
  by (metis ReadAll_def descriptors_ok_def snd_conv)

lemma SendAll_descriptors:
  assumes "descriptors_ok os fds" "SendAll os fd data w = Some (r, w')"
  shows "fds w' = fds w"
  using SendAll_keeps[of os fd data 0 w "(r, w')" "\<lambda>v. fds v = fds w"] assms
  by (metis SendAll_def descriptors_ok_def snd_conv)

text \<open>
  \<^bold>\<open>C29\<close>: no descriptor is lost or closed twice. Whichever way a request that returns ends - no address, no
  connection, a failed send or receive, a malformed response or a success - the open descriptors are those
  from before.
\<close>

theorem Get_keeps_descriptors:
  assumes "descriptors_ok os fds" "SocketHttpClient_Get os config url w = Some (r, w')"
  shows "fds w' = fds w"
proof (cases "url_scheme url = ''http''")
  case True
  show ?thesis
  proof (cases "BuildAcceptEncodingValue (cfg_content_encoding_decoders config)")
    case (Inr ae)
    obtain c w1 where c: "ConnectTcp os url w = (c, w1)" by (metis surj_pair)
    show ?thesis
    proof (cases c)
      case (Inl e)
      with c True Inr assms(2) ConnectTcp_descriptors[OF assms(1) c] show ?thesis by (simp add: SocketHttpClient_Get_def)
    next
      case conn: (Inr fd)
      then have fd: "0 \<le> fd" "fd \<notin> fds w" "fds w1 = insert fd (fds w)" using ConnectTcp_descriptors[OF assms(1) c] by auto
      have "\<exists>w2. w' = FdGuard_destroy os fd w2 \<and> fds w2 = fds w1"
        using assms(2) True Inr c conn
        by (auto simp: SocketHttpClient_Get_def split: option.splits prod.splits sum.splits
            dest!: ReadAll_descriptors[OF assms(1)] SendAll_descriptors[OF assms(1)])
      then show ?thesis using fd assms(1) by (auto simp: FdGuard_destroy_def descriptors_ok_def)
    qed
  qed (use assms(2) True in \<open>simp add: SocketHttpClient_Get_def\<close>)
qed (use assms(2) in \<open>simp add: SocketHttpClient_Get_def\<close>)

section \<open>A concrete network\<close>

text \<open>Two addresses of which the second answers, portions of 40 bytes, and a peer with a list of results.\<close>

record Net =
  net_open :: "int list"
  net_peer :: "recv_result list"

definition demo_os :: "(nat, Net) Sockets" where
  "demo_os =
     \<lparr>sock_getaddrinfo = (\<lambda>host service w. (Inr [0, 1], w)),
      sock_socket = (\<lambda>a w. let fd = fold max (net_open w) 2 + 1 in (fd, w\<lparr>net_open := fd # net_open w\<rparr>)),
      sock_connect = (\<lambda>fd a w. (a = 1, w)),
      sock_recv = (\<lambda>fd n w. case net_peer w of [] \<Rightarrow> (Received [], w) | r # rs \<Rightarrow> (r, w\<lparr>net_peer := rs\<rparr>)),
      sock_send = (\<lambda>fd data w. (Sent (min 40 (length data)), w)),
      sock_close = (\<lambda>fd w. w\<lparr>net_open := removeAll fd (net_open w)\<rparr>)\<rparr>"

definition demo_decoder :: HttpContentEncodingDecoder where
  "demo_decoder = \<lparr>AcceptedResponseEncodings = [''Z''], Decoder_Decode = \<lambda>b e. Inr (tl b)\<rparr>"

definition demo_http_config :: Config where
  "demo_http_config = Config_default\<lparr>cfg_content_encoding_decoders := [Some demo_decoder]\<rparr>"

definition demo_response :: string where
  "demo_response = format_response ''1.1'' 200 ''OK'' [(''Content-Encoding'', ''z'')] ''z[]''"

definition demo_net :: Net where
  "demo_net = \<lparr>net_open = [5], net_peer = [Recv_Failed True, Received demo_response]\<rparr>"

definition demo_url :: Url where "demo_url = Url_new ''http'' ''a'' 1"

lemma demo_os_ok: "descriptors_ok demo_os (\<lambda>w. set (net_open w))"
proof -
  have "fold max xs 2 + 1 \<notin> set xs" "\<not> fold max xs 2 + 1 < 0" for xs :: "int list"
    using fold_max_ge[of "fold max xs 2 + 1" xs 2] fold_max_ge[of 2 xs 2] by auto
  then show ?thesis by (auto simp: descriptors_ok_def demo_os_def Let_def split: list.splits)
qed

lemma demo_accepts: "accepts demo_os fd w data w"
proof (induction data rule: length_induct)
  case (1 data)
  show ?case
  proof (cases "data = []")
    case False
    have "sock_send demo_os fd data w = (Sent (min 40 (length data)), w)" by (simp add: demo_os_def)
    moreover have "accepts demo_os fd w (drop (min 40 (length data)) data) w" using 1 False by simp
    ultimately show ?thesis using part[OF False] by metis
  qed (simp add: accepts.nothing)
qed

lemma demo_delivers:
  "delivers demo_os fd (demo_net\<lparr>net_open := fds\<rparr>) demo_response (demo_net\<lparr>net_open := fds, net_peer := []\<rparr>)"
proof -
  have "demo_response \<noteq> []" by (simp add: demo_response_def format_response_def)
  then show ?thesis
    using interrupted[of demo_os fd "demo_net\<lparr>net_open := fds\<rparr>"] chunk[of demo_os fd _ demo_response _ "[]"] closed[of demo_os fd]
    by (simp add: demo_os_def demo_net_def)
qed

lemma demo_connects:
  "ConnectTcp demo_os url demo_net = (Inr 6, demo_net\<lparr>net_open := [6, 5]\<rparr>)"
  by (simp add: ConnectTcp_def demo_os_def demo_net_def FdGuard_destroy_def)


theorem SocketHttpClient_Get_exchange_witness:
  "SocketHttpClient_Get demo_os demo_http_config demo_url demo_net =
     Some (Inr \<lparr>resp_status_code = 200, resp_body = ''[]''\<rparr>, demo_net\<lparr>net_peer := []\<rparr>)"
proof -
  have n: "NormalizeResponseEncoding ''Z'' = ''z''" by code_simp
  then have ae: "BuildAcceptEncodingValue (cfg_content_encoding_decoders demo_http_config) = Inr ''z''"
    by (simp add: demo_http_config_def demo_decoder_def BuildAcceptEncodingValue_def BuildDecoderEntries_def)
  have ok: "Ball (set [(''Content-Encoding'', ''z'')]) field_ok" "\<forall>c \<in> set ''1.1''. \<not> is_space c"
    "header_value [(''Content-Encoding'', ''z'')] ''content-encoding'' = ''z''" by code_simp+
  have deliv: "delivers demo_os 6 (demo_net\<lparr>net_open := [6, 5]\<rparr>)
      (format_response ''1.1'' 200 ''OK'' [(''Content-Encoding'', ''z'')] ''z[]'') (demo_net\<lparr>net_open := [6, 5], net_peer := []\<rparr>)"
    using demo_delivers by (simp add: demo_response_def)
  have "DecodeHttpResponseBody ''z[]'' ''z'' (cfg_content_encoding_decoders demo_http_config) = Inr ''[]''"
    by code_simp
  then show ?thesis
    using SocketHttpClient_Get_exchange[OF _ ae demo_connects demo_accepts deliv ok(1,2), of demo_url] ok(3)
    by (simp add: demo_url_def FdGuard_destroy_def demo_os_def demo_net_def)
qed

theorem Get_keeps_descriptors_witness:
  "\<exists>r w'. SocketHttpClient_Get demo_os demo_http_config demo_url (demo_net\<lparr>net_peer := [Recv_Failed False]\<rparr>) = Some (r, w') \<and>
     r = Inl (Runtime_Error ''recv failed'') \<and> set (net_open w') = {5}"
proof -
  let ?w = "demo_net\<lparr>net_peer := [Recv_Failed False]\<rparr>"
  have n: "NormalizeResponseEncoding ''Z'' = ''z''" by code_simp
  then have ae: "BuildAcceptEncodingValue (cfg_content_encoding_decoders demo_http_config) = Inr ''z''"
    by (simp add: demo_http_config_def demo_decoder_def BuildAcceptEncodingValue_def BuildDecoderEntries_def)
  have c: "ConnectTcp demo_os demo_url ?w = (Inr 6, ?w\<lparr>net_open := [6, 5]\<rparr>)"
    by (simp add: ConnectTcp_def demo_os_def demo_net_def FdGuard_destroy_def)
  have "ReadAll demo_os 6 (?w\<lparr>net_open := [6, 5]\<rparr>) =
      Some (Inl (Runtime_Error ''recv failed''), demo_net\<lparr>net_open := [6, 5], net_peer := []\<rparr>)"
    unfolding ReadAll_def by (subst ReadAll_loop.simps) (simp add: demo_os_def demo_net_def)
  then have g: "SocketHttpClient_Get demo_os demo_http_config demo_url ?w = Some (Inl (Runtime_Error ''recv failed''),
      FdGuard_destroy demo_os 6 (demo_net\<lparr>net_open := [6, 5], net_peer := []\<rparr>))"
    using ae c SendAll_accepts_all[OF demo_accepts] by (simp add: SocketHttpClient_Get_def demo_url_def)
  then show ?thesis using Get_keeps_descriptors[OF demo_os_ok g] by (simp add: demo_net_def)
qed

end
