(* ===== verification/Discovery_Http.thy ===== *)
theory Discovery_Http
  imports Live_Nodes_Cluster Http_Response Http_Gzip
begin

text \<open>
  The live nodes on the HTTP client of the library: a request of the discovery goes through the sockets of
  \<open>src/src/http_client.cpp\<close>, its response through the decoders of \<open>src/src/http_compression.cpp\<close> and the parser of
  \<open>src/src/live_nodes.cpp\<close>.
\<close>

text \<open>The client of \<open>NewDefaultHttpClient\<close> in the build on sockets; a call that does not return diverges.\<close>

definition NewDefaultHttpClient :: "('a, 'w) Sockets \<Rightarrow> Config \<Rightarrow> Url \<Rightarrow> 'w \<Rightarrow> HttpResponse result \<times> 'w" where
  "NewDefaultHttpClient os config url w =
     (case SocketHttpClient_Get os config url w of None \<Rightarrow> (Inl Diverges, w) | Some x \<Rightarrow> x)"

definition default_env :: "('a, 'w) Sockets \<Rightarrow> Config \<Rightarrow> ('w \<Rightarrow> time_point) \<Rightarrow> ('w \<Rightarrow> u64) \<Rightarrow> 'w Environment" where
  "default_env os config now seed = \<lparr>env_Get = NewDefaultHttpClient os config, env_now = now, env_seed = seed\<rparr>"

text \<open>
  \<^bold>\<open>C37\<close>: the discovery from end to end. A node that is asked for \<open>/localnodes\<close> and answers with status 200, the coding \<open>gzip\<close>
  and a compressed JSON array of hosts, in any chunks and with any interruptions, gives exactly these hosts
  as nodes, with the scheme and port of the configuration; the live nodes are not changed by the request and its
  descriptor is closed.
\<close>

theorem localnodes_over_socket:
  assumes "zlib_decompresses Z (MAX_WBITS Z + 16) gzip" "gzip body (print_json ws hosts)" "length body < 2 ^ 32"
    and "\<forall>c \<in> set ws. is_space c" "ZlibContentEncodingDecoder_default (Some Z) = Inr decoder"
    and "cfg_content_encoding_decoders config = [Some decoder]" "url_scheme node = ''http''"
    and "endpoint = Url_WithPathAndQuery node ''/localnodes'' query" "ConnectTcp os endpoint w = (Inr fd, w1)"
    and "accepts os fd w1 (HttpRequest_text config endpoint ''gzip, deflate'') w2"
    and "delivers os fd w2 (format_response version 200 reason hs body) w3"
    and "Ball (set hs) field_ok" "header_value hs ''content-encoding'' = ''gzip''" "\<forall>c \<in> set version. \<not> is_space c"
    and "CHR 0x0D \<notin> set reason" "CHR 0x0A \<notin> set reason"
  shows "GetNodesFromEndpoint (default_env os config now seed) endpoint (st, w) =
    (Inr (ToUrls hosts (ln_config st)), st, FdGuard_destroy os fd w3)"
proof -
  have d: "decoder = \<lparr>AcceptedResponseEncodings = [''gzip'', ''deflate''], Decoder_Decode = ZlibContentEncodingDecoder_Decode (Some Z)\<rparr>"
    using assms(5) by (simp add: Zlib_decoder_default)
  have ae: "BuildAcceptEncodingValue (cfg_content_encoding_decoders config) = Inr ''gzip, deflate''"
    by (simp add: assms(6) d BuildAcceptEncodingValue_def BuildDecoderEntries_def Normalize_zlib_names Let_def)
  have "fst (InflateBody Z body (MAX_WBITS Z + 16)) = Inr (print_json ws hosts)"
    using InflateBody_contract[OF assms(1,2) _ assms(3)] by simp
  then have dec: "DecodeHttpResponseBody body ''gzip'' (cfg_content_encoding_decoders config) = Inr (print_json ws hosts)"
    by (simp add: assms(6) DecodeHttpResponseBody_gzip[OF assms(5)] Zlib_Decode_gzip)
  have "url_scheme endpoint = ''http''" using assms(7,8) by (simp add: Url_WithPathAndQuery_def)
  from Get_of_response[OF this ae assms(9-12,14-16)] assms(13) dec
  have "SocketHttpClient_Get os config endpoint w =
      Some (Inr \<lparr>resp_status_code = 200, resp_body = print_json ws hosts\<rparr>, FdGuard_destroy os fd w3)" by simp
  then show ?thesis
    by (simp add: GetNodesFromEndpoint_def default_env_def NewDefaultHttpClient_def parse_print[OF assms(4)])
qed

text \<open>A peer of the concrete network that answers with the compressed list of two hosts.\<close>

definition demo_list :: string where
  "demo_list = demo_code (print_json '' '' [''a'', ''b'']) @ [CHR 0x00]"

definition demo_answering :: "int list \<Rightarrow> Net" where
  "demo_answering fds = \<lparr>net_open = fds, net_peer = [Received (format_response ''1.1'' 200 ''OK'' [(''Content-Encoding'', ''gzip'')] demo_list)]\<rparr>"

lemma demo_answering_network:
  "ConnectTcp demo_os url (demo_answering [5]) = (Inr 6, demo_answering [6, 5])"
  "delivers demo_os fd (demo_answering fds) (format_response ''1.1'' 200 ''OK'' [(''Content-Encoding'', ''gzip'')] demo_list)
     \<lparr>net_open = fds, net_peer = []\<rparr>"
proof -
  show "ConnectTcp demo_os url (demo_answering [5]) = (Inr 6, demo_answering [6, 5])"
    by (simp add: ConnectTcp_def demo_os_def demo_answering_def FdGuard_destroy_def)
  have "format_response ''1.1'' 200 ''OK'' [(''Content-Encoding'', ''gzip'')] demo_list \<noteq> []" by (simp add: format_response_def)
  then show "delivers demo_os fd (demo_answering fds) (format_response ''1.1'' 200 ''OK'' [(''Content-Encoding'', ''gzip'')] demo_list)
     \<lparr>net_open = fds, net_peer = []\<rparr>"
    using chunk[of demo_os fd "demo_answering fds" _ _ "[]"] closed[of demo_os fd]
    by (simp add: demo_os_def demo_answering_def)
qed

theorem localnodes_over_socket_witness:
  "\<exists>decoder w'. ZlibContentEncodingDecoder_default (Some demo_zlib) = Inr decoder \<and>
     GetNodesFromEndpoint (default_env demo_os (small_config\<lparr>cfg_content_encoding_decoders := [Some decoder]\<rparr>) (\<lambda>w. 0) (\<lambda>w. 0))
       (Url_WithPathAndQuery demo_url ''/localnodes'' []) (demo_st, demo_answering [5]) =
       (Inr (ToUrls [''a'', ''b''] (ln_config demo_st)), demo_st, w') \<and> net_open w' = [5]"
proof -
  obtain decoder where d: "ZlibContentEncodingDecoder_default (Some demo_zlib) = Inr decoder"
    by (simp add: Zlib_decoder_default)
  let ?config = "small_config\<lparr>cfg_content_encoding_decoders := [Some decoder]\<rparr>"
  have z: "demo_decodes demo_list (print_json '' '' [''a'', ''b''])" "length demo_list < 2 ^ 32"
    by (simp_all add: demo_decodes_def demo_list_def) (simp add: demo_code_def print_json_def print_string_def escape_char_def)
  have ok: "Ball (set [(''Content-Encoding'', ''gzip'')]) field_ok" "\<forall>c \<in> set ''1.1''. \<not> is_space c"
    "header_value [(''Content-Encoding'', ''gzip'')] ''content-encoding'' = ''gzip''" "\<forall>c \<in> set '' ''. is_space c" by code_simp+
  have "FdGuard_destroy demo_os 6 \<lparr>net_open = [6, 5], net_peer = []\<rparr> = \<lparr>net_open = [5], net_peer = []\<rparr>"
    by (simp add: FdGuard_destroy_def demo_os_def)
  with localnodes_over_socket[OF demo_zlib_decompresses z ok(4) d _ _ refl demo_answering_network(1) demo_accepts
      demo_answering_network(2) ok(1,3,2), where config = ?config and node = demo_url and st = demo_st] d
  show ?thesis by (simp add: demo_url_def)
qed

end
