(* ===== verification/Curl_Client.thy ===== *)
theory Curl_Client
  imports Http_Client
begin

text \<open>
  \<open>src/src/http_client.cpp\<close> in its build on libcurl. The library is a parameter, the record \<open>Curl\<close> over a
  world, with a handle type of its own; a transfer reports the calls it made of the two callbacks.
  The process-wide \<open>curl_init_once\<close> is passed as a flag.
\<close>

section \<open>The library\<close>

datatype CurlOption =
    CURLOPT_URL string | CURLOPT_HTTPGET int | CURLOPT_NOSIGNAL int
  | CURLOPT_WRITEFUNCTION | CURLOPT_WRITEDATA | CURLOPT_HEADERFUNCTION | CURLOPT_HEADERDATA
  | CURLOPT_TCP_KEEPALIVE int | CURLOPT_SSL_SESSIONID_CACHE int | CURLOPT_MAXCONNECTS int
  | CURLOPT_FORBID_REUSE int | CURLOPT_FRESH_CONNECT int
  | CURLOPT_TIMEOUT_MS int | CURLOPT_CONNECTTIMEOUT_MS int | CURLOPT_USERAGENT string
  | CURLOPT_SSL_VERIFYPEER int | CURLOPT_SSL_VERIFYHOST int
  | CURLOPT_CAINFO string | CURLOPT_SSLCERT string | CURLOPT_SSLKEY string
  | CURLOPT_SSL_CTX_FUNCTION | CURLOPT_SSL_CTX_DATA Config | CURLOPT_HTTPHEADER "string list"

datatype curl_event = On_Header string | On_Body string

text \<open>
  A transfer ends with \<open>None\<close> for \<open>CURLE_OK\<close> and otherwise with the text of its error; \<open>curl_ssl_version\<close> is
  \<open>None\<close> where one of the pointers to it is null, and \<open>curl_with_openssl\<close> is the build flag.
\<close>

record ('h, 'w) Curl =
  curl_global_init :: "'w \<Rightarrow> bool \<times> 'w"
  curl_easy_init :: "'w \<Rightarrow> 'h option \<times> 'w"
  curl_easy_cleanup :: "'h \<Rightarrow> 'w \<Rightarrow> 'w"
  curl_easy_reset :: "'h \<Rightarrow> 'w \<Rightarrow> 'w"
  curl_easy_setopt :: "'h \<Rightarrow> CurlOption \<Rightarrow> 'w \<Rightarrow> 'w"
  curl_easy_perform :: "'h \<Rightarrow> 'w \<Rightarrow> (string option \<times> curl_event list) \<times> 'w"
  curl_response_code :: "'h \<Rightarrow> 'w \<Rightarrow> int"
  curl_ssl_version :: "string option"
  curl_with_openssl :: bool

type_synonym 'w process = "bool \<times> 'w"

definition EnsureCurlInitialized :: "('h, 'w) Curl \<Rightarrow> 'w process \<Rightarrow> unit result \<times> 'w process" where
  "EnsureCurlInitialized curl p =
     (case p of (curl_init_once, w) \<Rightarrow>
        if curl_init_once then (Inr (), p)
        else
          (case curl_global_init curl w of
             (True, w') \<Rightarrow> (Inr (), True, w')
           | (False, w') \<Rightarrow> (Inl (Runtime_Error ''curl_global_init failed''), False, w')))"

text \<open>The callbacks append to the body and to the headers.\<close>

fun curl_callback :: "curl_event \<Rightarrow> string \<times> string \<Rightarrow> string \<times> string" where
  "curl_callback (On_Body ptr) (body, headers) = (body @ ptr, headers)"
| "curl_callback (On_Header ptr) (body, headers) = (body, headers @ ptr)"

definition SetDuration :: "(int \<Rightarrow> CurlOption) \<Rightarrow> int \<Rightarrow> CurlOption list" where
  "SetDuration opt value = (if value > 0 then [opt value] else [])"

definition CurlUsesOpenSslBackend :: "('h, 'w) Curl \<Rightarrow> bool" where
  "CurlUsesOpenSslBackend curl =
     (case curl_ssl_version curl of
        None \<Rightarrow> False
      | Some ssl_version \<Rightarrow>
          find_sub ''OpenSSL'' ssl_version \<noteq> None \<or>
          find_sub ''LibreSSL'' ssl_version \<noteq> None \<or>
          find_sub ''BoringSSL'' ssl_version \<noteq> None)"

text \<open>The calls of the TLS context callback, on a configuration and a context that may be null.\<close>

datatype ssl_call =
    SSL_CTX_set_session_cache_mode bool
  | SSL_CTX_sess_set_cache_size int
  | SSL_CTX_set_timeout int

definition ConfigureSslContext :: "bool \<Rightarrow> Config option \<Rightarrow> ssl_call list" where
  "ConfigureSslContext ssl_context config =
     (case config of
        None \<Rightarrow> []
      | Some config \<Rightarrow>
          if \<not> ssl_context then []
          else if \<not> cfg_tls_session_cache_enabled config then [SSL_CTX_set_session_cache_mode False]
          else [SSL_CTX_set_session_cache_mode True,
                SSL_CTX_sess_set_cache_size (uint (cfg_tls_session_cache_size config)),
                SSL_CTX_set_timeout (cfg_tls_session_timeout config)])"

section \<open>A transfer\<close>

definition curl_get_options :: "('h, 'w) Curl \<Rightarrow> Url \<Rightarrow> Config \<Rightarrow> CurlOption list" where
  "curl_get_options curl url config =
     [CURLOPT_URL (c_str (Url_ToString url)), CURLOPT_HTTPGET 1, CURLOPT_NOSIGNAL 1,
      CURLOPT_WRITEFUNCTION, CURLOPT_WRITEDATA, CURLOPT_HEADERFUNCTION, CURLOPT_HEADERDATA,
      CURLOPT_TCP_KEEPALIVE 1,
      CURLOPT_SSL_SESSIONID_CACHE (if cfg_tls_session_cache_enabled config then 1 else 0),
      CURLOPT_MAXCONNECTS (uint (cfg_max_connections config)),
      CURLOPT_FORBID_REUSE (if cfg_reuse_discovery_connections config then 0 else 1),
      CURLOPT_FRESH_CONNECT (if cfg_reuse_discovery_connections config then 0 else 1)] @
     SetDuration CURLOPT_TIMEOUT_MS (cfg_http_client_timeout config) @
     SetDuration CURLOPT_CONNECTTIMEOUT_MS (cfg_connect_timeout config) @
     (if cfg_user_agent config \<noteq> [] then [CURLOPT_USERAGENT (c_str (cfg_user_agent config))] else []) @
     (if \<not> cfg_verify_ssl config then [CURLOPT_SSL_VERIFYPEER 0, CURLOPT_SSL_VERIFYHOST 0] else []) @
     (if cfg_ca_file config \<noteq> [] then [CURLOPT_CAINFO (c_str (cfg_ca_file config))] else []) @
     (if cfg_client_certificate_file config \<noteq> [] then
        [CURLOPT_SSLCERT (c_str (cfg_client_certificate_file config))] else []) @
     (if cfg_client_private_key_file config \<noteq> [] then
        [CURLOPT_SSLKEY (c_str (cfg_client_private_key_file config))] else []) @
     (if curl_with_openssl curl \<and> CurlUsesOpenSslBackend curl then
        [CURLOPT_SSL_CTX_FUNCTION, CURLOPT_SSL_CTX_DATA config] else [])"

definition ConfigureCurlForGet :: "('h, 'w) Curl \<Rightarrow> 'h \<Rightarrow> Url \<Rightarrow> Config \<Rightarrow> 'w \<Rightarrow> 'w" where
  "ConfigureCurlForGet curl handle url config w =
     fold (curl_easy_setopt curl handle) (curl_get_options curl url config) (curl_easy_reset curl handle w)"

definition PerformCurlGet ::
  "('h, 'w) Curl \<Rightarrow> 'h \<Rightarrow> Url \<Rightarrow> Config \<Rightarrow> 'w \<Rightarrow> HttpResponse result \<times> 'w" where
  "PerformCurlGet curl handle url config w =
     (let w1 = ConfigureCurlForGet curl handle url config w;
          connection = (if cfg_reuse_discovery_connections config then ''Connection: keep-alive''
                        else ''Connection: close'')
      in case BuildAcceptEncodingValue (cfg_content_encoding_decoders config) of
           Inl e \<Rightarrow> (Inl e, w1)
         | Inr accept_encoding_value \<Rightarrow>
             (let headers = (if accept_encoding_value \<noteq> [] then
                               [connection, c_str (''Accept-Encoding: '' @ accept_encoding_value)]
                             else [connection]);
                  w2 = curl_easy_setopt curl handle (CURLOPT_HTTPHEADER headers) w1;
                  ((code, events), w3) = curl_easy_perform curl handle w2;
                  (body, response_headers) = fold curl_callback events ([], []);
                  w4 = curl_easy_setopt curl handle (CURLOPT_HTTPHEADER []) w3
              in case code of
                   Some message \<Rightarrow> (Inl (Runtime_Error message), w4)
                 | None \<Rightarrow>
                     (rbind (DecodeHttpResponseBody body
                               (FindHttpHeaderValue response_headers ''content-encoding'')
                               (cfg_content_encoding_decoders config)) (\<lambda>body.
                        Inr \<lparr>resp_status_code = curl_response_code curl handle w4, resp_body = body\<rparr>), w4)))"

section \<open>The client\<close>

record 'h CurlHttpClient =
  cc_config :: Config
  cc_reusable_handle :: "'h option"

definition CurlHttpClient_new ::
  "('h, 'w) Curl \<Rightarrow> Config \<Rightarrow> 'w process \<Rightarrow> 'h CurlHttpClient result \<times> 'w process" where
  "CurlHttpClient_new curl config p =
     (case EnsureCurlInitialized curl p of
        (Inl e, p') \<Rightarrow> (Inl e, p')
      | (Inr _, p') \<Rightarrow> (Inr \<lparr>cc_config = config, cc_reusable_handle = None\<rparr>, p'))"

definition CurlHttpClient_destroy ::
  "('h, 'w) Curl \<Rightarrow> 'h CurlHttpClient \<Rightarrow> 'w process \<Rightarrow> 'w process" where
  "CurlHttpClient_destroy curl c p =
     (case cc_reusable_handle c of
        None \<Rightarrow> p
      | Some handle \<Rightarrow> apsnd (curl_easy_cleanup curl handle) p)"

definition CurlHttpClient_Get ::
  "('h, 'w) Curl \<Rightarrow> Url \<Rightarrow> 'h CurlHttpClient \<times> 'w process \<Rightarrow>
     HttpResponse result \<times> 'h CurlHttpClient \<times> 'w process" where
  "CurlHttpClient_Get curl url = (\<lambda>(c, p).
     (case EnsureCurlInitialized curl p of
        (Inl e, p') \<Rightarrow> (Inl e, c, p')
      | (Inr _, once, w) \<Rightarrow>
          if cfg_reuse_discovery_connections (cc_config c) then
            (case cc_reusable_handle c of
               Some handle \<Rightarrow>
                 (case PerformCurlGet curl handle url (cc_config c) w of (r, w') \<Rightarrow> (r, c, once, w'))
             | None \<Rightarrow>
                 (case curl_easy_init curl w of
                    (None, w1) \<Rightarrow> (Inl (Runtime_Error ''curl_easy_init failed''), c, once, w1)
                  | (Some handle, w1) \<Rightarrow>
                      (case PerformCurlGet curl handle url (cc_config c) w1 of (r, w') \<Rightarrow>
                         (r, c\<lparr>cc_reusable_handle := Some handle\<rparr>, once, w'))))
          else
            (case curl_easy_init curl w of
               (None, w1) \<Rightarrow> (Inl (Runtime_Error ''curl_easy_init failed''), c, once, w1)
             | (Some handle, w1) \<Rightarrow>
                 (case PerformCurlGet curl handle url (cc_config c) w1 of (r, w') \<Rightarrow>
                    (r, c, once, curl_easy_cleanup curl handle w')))))"

section \<open>Handles\<close>

text \<open>
  What libcurl documents of the handles that are open in a world: a new handle is fresh, the cleanup
  closes it and no other call opens or closes one.
\<close>

definition handles_ok :: "('h, 'w) Curl \<Rightarrow> ('w \<Rightarrow> 'h set) \<Rightarrow> bool" where
  "handles_ok curl handles \<longleftrightarrow>
     (\<forall>w. handles (snd (curl_global_init curl w)) = handles w) \<and>
     (\<forall>w w'. curl_easy_init curl w = (None, w') \<longrightarrow> handles w' = handles w) \<and>
     (\<forall>w h w'. curl_easy_init curl w = (Some h, w') \<longrightarrow> h \<notin> handles w \<and> handles w' = insert h (handles w)) \<and>
     (\<forall>h w. handles (curl_easy_cleanup curl h w) = handles w - {h}) \<and>
     (\<forall>h w. handles (curl_easy_reset curl h w) = handles w) \<and>
     (\<forall>h opt w. handles (curl_easy_setopt curl h opt w) = handles w) \<and>
     (\<forall>h w. handles (snd (curl_easy_perform curl h w)) = handles w)"

lemma PerformCurlGet_handles:
  assumes "handles_ok curl handles"
  shows "handles (snd (PerformCurlGet curl h url config w)) = handles w"
proof -
  have opt: "handles (curl_easy_setopt curl h opt w) = handles w" for opt w using assms by (simp add: handles_ok_def)
  have perform: "handles (snd (curl_easy_perform curl h w)) = handles w" for w using assms by (simp add: handles_ok_def)
  have "handles (fold (curl_easy_setopt curl h) opts w) = handles w" for opts w
    by (induction opts arbitrary: w) (simp_all add: opt)
  then have "handles (ConfigureCurlForGet curl h url config w) = handles w"
    using assms by (simp add: ConfigureCurlForGet_def handles_ok_def)
  then show ?thesis
    unfolding PerformCurlGet_def Let_def
    by (simp add: opt perform case_prod_beta split: sum.split option.split)
qed

text \<open>The handles a client holds, over the handles that were open before it was made.\<close>

definition holds :: "('w \<Rightarrow> 'h set) \<Rightarrow> 'h set \<Rightarrow> 'h CurlHttpClient \<times> 'w process \<Rightarrow> bool" where
  "holds handles H s \<longleftrightarrow>
     (case s of (c, once, w) \<Rightarrow>
        (case cc_reusable_handle c of
           None \<Rightarrow> handles w = H
         | Some h \<Rightarrow> cfg_reuse_discovery_connections (cc_config c) \<and> h \<notin> H \<and> handles w = insert h H))"

lemma EnsureCurlInitialized_handles:
  "handles_ok curl handles \<Longrightarrow> EnsureCurlInitialized curl p = (r, p') \<Longrightarrow> handles (snd p') = handles (snd p)"
  by (cases p; cases "curl_global_init curl (snd p)")
    (auto simp: EnsureCurlInitialized_def handles_ok_def split: if_splits bool.splits dest!: spec[of _ "snd p"])

lemma Get_holds:
  assumes "handles_ok curl handles" "holds handles H s"
  shows "holds handles H (snd (CurlHttpClient_Get curl url s))"
proof -
  obtain c once w where s: "s = (c, once, w)" by (cases s) auto
  obtain r once' w1 where e: "EnsureCurlInitialized curl (once, w) = (r, once', w1)" by (metis surj_pair)
  have w1: "handles w1 = handles w" using EnsureCurlInitialized_handles[OF assms(1) e] by simp
  have perform: "PerformCurlGet curl h url config v = (r, v') \<Longrightarrow> handles v' = handles v" for h config v r v'
    using PerformCurlGet_handles[OF assms(1), of h url config v] by simp
  have cleanup: "handles (curl_easy_cleanup curl h v) = handles v - {h}" for h v using assms(1) by (simp add: handles_ok_def)
  have none: "curl_easy_init curl v = (None, v') \<Longrightarrow> handles v' = handles v"
    and some: "curl_easy_init curl v = (Some h, v') \<Longrightarrow> h \<notin> handles v \<and> handles v' = insert h (handles v)" for v v' h
    using assms(1) by (auto simp: handles_ok_def)
  show ?thesis
    using assms(2) e w1
    by (auto simp: s holds_def CurlHttpClient_Get_def cleanup split: sum.splits option.splits prod.splits if_splits
        dest!: perform none some)
qed

text \<open>
  \<^bold>\<open>C30\<close>: no handle of libcurl is lost. A client that was constructed and then ran any requests,
  successful or not, holds at most one handle, and that only when connections are reused; its destructor
  leaves exactly the handles that were open before it was constructed.
\<close>

theorem curl_handles_released:
  assumes "handles_ok curl handles" "CurlHttpClient_new curl config p = (Inr c, p1)"
    and "fold (\<lambda>url s. snd (CurlHttpClient_Get curl url s)) urls (c, p1) = (c', p2)"
  shows "handles (snd p2) = handles (snd p) \<union> set_option (cc_reusable_handle c') \<and>
    (cc_reusable_handle c' \<noteq> None \<longrightarrow> cfg_reuse_discovery_connections config) \<and>
    handles (snd (CurlHttpClient_destroy curl c' p2)) = handles (snd p)"
proof -
  have c: "c = \<lparr>cc_config = config, cc_reusable_handle = None\<rparr>" "handles (snd p1) = handles (snd p)"
    using assms(2) EnsureCurlInitialized_handles[OF assms(1), of p]
    by (auto simp: CurlHttpClient_new_def split: prod.splits sum.splits)
  have "holds handles (handles (snd p)) s \<Longrightarrow>
      holds handles (handles (snd p)) (fold (\<lambda>url s. snd (CurlHttpClient_Get curl url s)) urls s)" for s
    by (induction urls arbitrary: s) (simp_all add: Get_holds[OF assms(1)])
  moreover have "holds handles (handles (snd p)) (c, p1)" using c by (cases p1) (simp add: holds_def)
  ultimately have inv: "holds handles (handles (snd p)) (c', p2)" using assms(3) by metis
  have "cc_config (fst (snd (CurlHttpClient_Get curl url s))) = cc_config (fst s)" for url s
    by (auto simp: CurlHttpClient_Get_def split: prod.splits sum.splits option.splits)
  then have "cc_config (fst (fold (\<lambda>url s. snd (CurlHttpClient_Get curl url s)) urls s)) = cc_config (fst s)" for s
    by (induction urls arbitrary: s) simp_all
  from this[of "(c, p1)"] have cfg: "cc_config c' = config" using assms(3) c(1) by simp
  show ?thesis
    using inv cfg assms(1)
    by (cases p2) (auto simp: holds_def CurlHttpClient_destroy_def handles_ok_def split: option.splits)
qed

text \<open>A library whose world is the list of open handles.\<close>

definition demo_curl :: "(nat, nat list) Curl" where
  "demo_curl =
     \<lparr>curl_global_init = (\<lambda>w. (True, w)),
      curl_easy_init = (\<lambda>w. let h = Suc (fold max w 0) in (Some h, h # w)),
      curl_easy_cleanup = removeAll, curl_easy_reset = (\<lambda>h w. w), curl_easy_setopt = (\<lambda>h opt w. w),
      curl_easy_perform = (\<lambda>h w. ((None, [On_Header ''HTTP/1.1 200 OK'', On_Body ''[]'']), w)),
      curl_response_code = (\<lambda>h w. 200), curl_ssl_version = Some ''OpenSSL/3'', curl_with_openssl = True\<rparr>"

lemma demo_curl_ok: "handles_ok demo_curl set"
  using fold_max_ge[of _ _ "0 :: nat"] by (fastforce simp: handles_ok_def demo_curl_def Let_def)

definition demo_curl_client :: "nat CurlHttpClient" where
  "demo_curl_client = \<lparr>cc_config = Config_default, cc_reusable_handle = None\<rparr>"

theorem curl_handles_released_witness:
  "snd (snd (fold (\<lambda>url s. snd (CurlHttpClient_Get demo_curl url s)) [Url_default, Url_default]
      (demo_curl_client, True, [7]))) = [8, 7] \<and>
   handles_ok demo_curl set \<and>
   CurlHttpClient_destroy demo_curl (demo_curl_client\<lparr>cc_reusable_handle := Some 8\<rparr>) (True, [8, 7]) = (True, [7])"
proof -
  have new: "CurlHttpClient_new demo_curl Config_default (False, [7]) = (Inr demo_curl_client, True, [7])"
    by (simp add: CurlHttpClient_new_def EnsureCurlInitialized_def demo_curl_def demo_curl_client_def)
  have perform: "snd (PerformCurlGet demo_curl h url config w) = w" for h url config w
  proof -
    have "fold (\<lambda>opt w. w) xs w = w" for xs :: "CurlOption list" by (induction xs) auto
    then show ?thesis
      by (simp add: PerformCurlGet_def ConfigureCurlForGet_def Let_def demo_curl_def case_prod_beta split: sum.split option.split)
  qed
  have gets: "fold (\<lambda>url s. snd (CurlHttpClient_Get demo_curl url s)) [Url_default, Url_default] (demo_curl_client, True, [7]) =
      (demo_curl_client\<lparr>cc_reusable_handle := Some 8\<rparr>, True, [8, 7])"
    using perform
    by (simp add: CurlHttpClient_Get_def EnsureCurlInitialized_def demo_curl_client_def case_prod_beta Config_default_def
        demo_curl_def[THEN arg_cong[of _ _ curl_easy_init]])
  show ?thesis
    using curl_handles_released[OF demo_curl_ok new gets] gets demo_curl_ok
    by (simp add: CurlHttpClient_destroy_def demo_curl_def)
qed

end
