(* ===== verification/Aws_Routing.thy ===== *)
theory Aws_Routing
  imports Live_Nodes_Routing Http_Client
begin

text \<open>
  \<open>src/src/aws_dynamodb_helper.cpp\<close>, first part: \<open>DynamoDBHelper\<close>, which gives each write request a query
  plan over the live nodes and a DynamoDB client for its first node.

  The types of the AWS SDK are not part of the program. Of a request the model has the values of the
  getters the code calls; the construction of a client, the call \<open>DescribeTable\<close>, the start of a thread and
  the clock are the operations of the record \<open>AwsEnv\<close> over a world. Each call of the helper is one step on its
  state, as every access to shared data in it is under a mutex.
\<close>

section \<open>Values the SDK hands over\<close>

datatype ValueType =
    STRING | NUMBER | BYTEBUFFER | STRING_SET | NUMBER_SET | BYTEBUFFER_SET
  | ATTRIBUTE_MAP | ATTRIBUTE_LIST | BOOL | NULLVALUE

record AwsValue =
  value_GetType :: ValueType
  value_GetS :: string
  value_GetN :: string
  value_AccessB :: "u8 list"

type_synonym AwsMap = "(string, AwsValue) std_map"

datatype ReturnValue = NOT_SET | NONE | ALL_OLD | UPDATED_OLD | ALL_NEW | UPDATED_NEW

datatype UpdateAction = Update_NOT_SET | Update_ADD | Update_PUT | Update_DELETE

record AttributeValueUpdate =
  update_GetAction :: UpdateAction
  update_ValueHasBeenSet :: bool

record PutItemRequest =
  put_TableName :: string
  put_Item :: AwsMap
  put_ConditionExpression :: string
  put_Expected :: "string list"
  put_ReturnValues :: ReturnValue

record UpdateItemRequest =
  upd_TableName :: string
  upd_Key :: AwsMap
  upd_UpdateExpression :: string
  upd_ConditionExpression :: string
  upd_Expected :: "string list"
  upd_ReturnValues :: ReturnValue
  upd_AttributeUpdates :: "(string, AttributeValueUpdate) std_map"

record DeleteItemRequest =
  del_TableName :: string
  del_Key :: AwsMap
  del_ConditionExpression :: string
  del_Expected :: "string list"
  del_ReturnValues :: ReturnValue

text \<open>A write of a batch; a member is \<open>Some\<close> when \<open>HasBeenSet\<close> says so.\<close>

record WriteRequest =
  write_Put :: "AwsMap option"
  write_Delete :: "AwsMap option"

type_synonym BatchWriteItemRequest = "(string, WriteRequest list) std_map"

datatype describe_outcome = Describe_Error string | Described "(string \<times> bool) list"

text \<open>
  The key schema of a description is a list of attribute names with a flag for \<open>KeyType::HASH\<close>.
  What the helper sets in a client configuration; \<open>None\<close> leaves the default of the SDK.
\<close>

record ClientConfiguration =
  cc_region :: string
  cc_https :: bool
  cc_verifySSL :: bool
  cc_maxConnections :: u32
  cc_connectTimeoutMs :: int
  cc_httpRequestTimeoutMs :: int
  cc_requestTimeoutMs :: int
  cc_endpointOverride :: string
  cc_caFile :: "string option"
  cc_userAgent :: "string option"

datatype EndpointProvider = AlternatorEndpointProvider | FixedEndpointProvider Url

record ('c, 'w) AwsEnv =
  aws_DynamoDBClient :: "(string \<times> string) option \<Rightarrow> EndpointProvider \<Rightarrow> ClientConfiguration \<Rightarrow> 'w \<Rightarrow> 'c \<times> 'w"
  aws_DescribeTable :: "'c \<Rightarrow> string \<Rightarrow> 'w \<Rightarrow> describe_outcome result \<times> 'w"
  aws_thread :: "'w \<Rightarrow> bool \<times> 'w"
  aws_sleep_for :: "int \<Rightarrow> 'w \<Rightarrow> 'w"
  aws_seed :: "'w \<Rightarrow> u64"

section \<open>The state of a helper\<close>

text \<open>A thread of the partition key discovery: its attempt and backoff, its last lock, or its end.\<close>

datatype worker_point = Attempting u32 int | Erasing | Finished

record Worker =
  wk_table :: string
  wk_point :: worker_point

record 'c DynamoDBHelper =
  dh_nodes :: AlternatorLiveNodes
  dh_config :: Config
  dh_partition_keys :: PartitionKeyMetadata
  dh_in_progress :: "string set"
  dh_workers :: "Worker list"
  dh_fixed_clients :: "(Url, 'c) std_map"

type_synonym ('c, 'w) helper_state = "'c DynamoDBHelper \<times> 'w"

definition DynamoDBHelper_new :: "string list \<Rightarrow> Config \<Rightarrow> time_point \<Rightarrow> 'c DynamoDBHelper result" where
  "DynamoDBHelper_new initial_nodes config now =
     rbind (LiveNodes_new initial_nodes config now) (\<lambda>nodes.
       Inr \<lparr>dh_nodes = nodes, dh_config = config,
            dh_partition_keys = \<lparr>pkm_partition_key_by_table = kra_partition_key_by_table (cfg_key_route_affinity config)\<rparr>,
            dh_in_progress = {}, dh_workers = [], dh_fixed_clients = []\<rparr>)"

definition Helper_SetPartitionKeyName :: "string \<Rightarrow> string \<Rightarrow> 'c DynamoDBHelper \<Rightarrow> 'c DynamoDBHelper" where
  "Helper_SetPartitionKeyName table_name partition_key_name h =
     h\<lparr>dh_partition_keys := SetPartitionKeyName table_name partition_key_name (dh_partition_keys h)\<rparr>"

text \<open>The threads to join are taken from the helper under the mutex; the caller then joins them.\<close>

definition WaitForPartitionKeyDiscovery :: "'c DynamoDBHelper \<Rightarrow> Worker list \<times> 'c DynamoDBHelper" where
  "WaitForPartitionKeyDiscovery h = (dh_workers h, h\<lparr>dh_workers := []\<rparr>)"

section \<open>Conversions\<close>

definition kEndpointOverrideHost :: string where
  "kEndpointOverrideHost = ''dynamodb.fake.alternator.cluster.node''"

definition AwsScheme :: "string \<Rightarrow> bool" where
  "AwsScheme scheme \<longleftrightarrow> scheme = ''https''"

definition EndpointOverride :: "u16 \<Rightarrow> string \<Rightarrow> string" where
  "EndpointOverride port scheme = scheme @ ''://'' @ kEndpointOverrideHost @ '':'' @ to_string (unat port)"

fun ToReturnValues :: "ReturnValue \<Rightarrow> ReturnValues" where
  "ToReturnValues NONE = RV_None"
| "ToReturnValues ALL_OLD = RV_AllOld"
| "ToReturnValues UPDATED_OLD = RV_UpdatedOld"
| "ToReturnValues ALL_NEW = RV_AllNew"
| "ToReturnValues UPDATED_NEW = RV_UpdatedNew"
| "ToReturnValues NOT_SET = RV_NotSet"

fun ToAttributeAction :: "UpdateAction \<Rightarrow> AttributeAction" where
  "ToAttributeAction Update_ADD = Action_Add"
| "ToAttributeAction Update_DELETE = Action_Delete"
| "ToAttributeAction Update_PUT = Action_Put"
| "ToAttributeAction Update_NOT_SET = Action_Put"

definition ToAttributeValue :: "AwsValue \<Rightarrow> AttributeValue result" where
  "ToAttributeValue value =
     (case value_GetType value of
        STRING \<Rightarrow> Inr (AttributeValue_String (c_str (value_GetS value)))
      | NUMBER \<Rightarrow> Inr (AttributeValue_Number (c_str (value_GetN value)))
      | BYTEBUFFER \<Rightarrow> Inr (AttributeValue_Binary (value_AccessB value))
      | _ \<Rightarrow> Inl (Invalid_Argument ''unsupported DynamoDB partition-key attribute type''))"

definition PartitionKeyOnlyAttributeMap :: "AwsMap \<Rightarrow> string \<Rightarrow> AttributeMap result" where
  "PartitionKeyOnlyAttributeMap values key_name =
     (case map_find id (c_str key_name) values of
        None \<Rightarrow> Inr []
      | Some value \<Rightarrow> rbind (ToAttributeValue value) (\<lambda>v. Inr [(key_name, v)]))"

definition WriteOperationOptions_default :: WriteOperationOptions where
  "WriteOperationOptions_default =
     \<lparr>has_update_expression = False, has_condition_expression = False, has_expected = False,
      return_values = RV_NotSet, attribute_updates = []\<rparr>"

definition PutItemOptions :: "PutItemRequest \<Rightarrow> WriteOperationOptions" where
  "PutItemOptions request =
     WriteOperationOptions_default\<lparr>has_condition_expression := put_ConditionExpression request \<noteq> [],
       has_expected := put_Expected request \<noteq> [],
       return_values := ToReturnValues (put_ReturnValues request)\<rparr>"

definition DeleteItemOptions :: "DeleteItemRequest \<Rightarrow> WriteOperationOptions" where
  "DeleteItemOptions request =
     WriteOperationOptions_default\<lparr>has_condition_expression := del_ConditionExpression request \<noteq> [],
       has_expected := del_Expected request \<noteq> [],
       return_values := ToReturnValues (del_ReturnValues request)\<rparr>"

definition AttributeUpdates :: "(string, AttributeValueUpdate) std_map \<Rightarrow> AttributeUpdate list" where
  "AttributeUpdates updates =
     map (\<lambda>(_, update). \<lparr>au_action = ToAttributeAction (update_GetAction update),
                         au_has_value = update_ValueHasBeenSet update\<rparr>) updates"

definition UpdateItemOptions :: "UpdateItemRequest \<Rightarrow> WriteOperationOptions" where
  "UpdateItemOptions request =
     \<lparr>has_update_expression = upd_UpdateExpression request \<noteq> [],
      has_condition_expression = upd_ConditionExpression request \<noteq> [],
      has_expected = upd_Expected request \<noteq> [],
      return_values = ToReturnValues (upd_ReturnValues request),
      attribute_updates = AttributeUpdates (upd_AttributeUpdates request)\<rparr>"

section \<open>Plans\<close>

definition QueryPlan_FromNodesSource :: "'s NodesSource \<Rightarrow> u64 \<Rightarrow> 's \<Rightarrow> QueryPlan \<times> 's" where
  "QueryPlan_FromNodesSource source seed s =
     (case ns_GetQueryPlanNodes source s of (nodes, s') \<Rightarrow> (QueryPlan_FromClock seed nodes, s'))"

definition DefaultQueryPlan :: "('c, 'w) AwsEnv \<Rightarrow> ('c, 'w) helper_state \<Rightarrow> QueryPlan \<times> ('c, 'w) helper_state" where
  "DefaultQueryPlan env s =
     (case s of (h, w) \<Rightarrow>
        (case QueryPlan_FromNodesSource LiveNodes_source (aws_seed env w) (dh_nodes h) of
           (plan, st) \<Rightarrow> (plan, h\<lparr>dh_nodes := st\<rparr>, w)))"

definition ShouldUseKeyRouteAffinityForWrite ::
  "'c DynamoDBHelper \<Rightarrow> WriteOperationKind \<Rightarrow> WriteOperationOptions \<Rightarrow> bool" where
  "ShouldUseKeyRouteAffinityForWrite h kind options =
     ShouldUseKeyRouteAffinity (kra_mode (cfg_key_route_affinity (dh_config h))) kind options"

text \<open>The discovery is triggered in two sections under the mutex: the table is noted, and its thread is started.\<close>

definition Trigger_begin :: "string \<Rightarrow> 'c DynamoDBHelper \<Rightarrow> 'c DynamoDBHelper option" where
  "Trigger_begin table_name h =
     (if table_name = [] \<or> GetPartitionKeyName (dh_partition_keys h) table_name \<noteq> [] then None
      else if table_name \<in> dh_in_progress h then None
      else Some (h\<lparr>dh_in_progress := insert table_name (dh_in_progress h)\<rparr>))"

definition new_worker :: "'c DynamoDBHelper \<Rightarrow> string \<Rightarrow> Worker" where
  "new_worker h table_name =
     \<lparr>wk_table = table_name,
      wk_point = Attempting 1 (partition_key_discovery_initial_backoff (cfg_key_route_affinity (dh_config h)))\<rparr>"

definition Trigger_spawn :: "('c, 'w) AwsEnv \<Rightarrow> string \<Rightarrow> ('c, 'w) helper_state \<Rightarrow> ('c, 'w) helper_state" where
  "Trigger_spawn env table_name s =
     (case s of (h, w) \<Rightarrow>
        (case aws_thread env w of
           (True, w') \<Rightarrow> (h\<lparr>dh_workers := dh_workers h @ [new_worker h table_name]\<rparr>, w')
         | (False, w') \<Rightarrow> (h\<lparr>dh_in_progress := dh_in_progress h - {table_name}\<rparr>, w')))"

definition TriggerPartitionKeyDiscovery ::
  "('c, 'w) AwsEnv \<Rightarrow> string \<Rightarrow> ('c, 'w) helper_state \<Rightarrow> ('c, 'w) helper_state" where
  "TriggerPartitionKeyDiscovery env table_name s =
     (case Trigger_begin table_name (fst s) of
        None \<Rightarrow> s
      | Some h \<Rightarrow> Trigger_spawn env table_name (h, snd s))"

definition TriggerPartitionKeyDiscoveryForMissingMetadata ::
  "('c, 'w) AwsEnv \<Rightarrow> BatchWriteOperation list \<Rightarrow> ('c, 'w) helper_state \<Rightarrow> ('c, 'w) helper_state" where
  "TriggerPartitionKeyDiscoveryForMissingMetadata env operations s =
     (let missing_tables = sort (remdups (filter (\<lambda>t. GetPartitionKeyName (dh_partition_keys (fst s)) t = [])
            (map bw_table_name operations)))
      in fold (TriggerPartitionKeyDiscovery env) missing_tables s)"

text \<open>A \<open>catch\<close> clause for \<open>std::invalid_argument\<close> around a plan falls back to the default plan.\<close>

definition catch_invalid_argument ::
  "('c, 'w) AwsEnv \<Rightarrow> QueryPlan result \<times> ('c, 'w) helper_state \<Rightarrow> QueryPlan result \<times> ('c, 'w) helper_state" where
  "catch_invalid_argument env = (\<lambda>(r, s).
     (case r of
        Inl (Invalid_Argument _) \<Rightarrow> apfst Inr (DefaultQueryPlan env s)
      | _ \<Rightarrow> (r, s)))"

definition NewPartitionKeyQueryPlan ::
  "('c, 'w) AwsEnv \<Rightarrow> AttributeMap \<Rightarrow> string \<Rightarrow> ('c, 'w) helper_state \<Rightarrow>
     QueryPlan result \<times> ('c, 'w) helper_state" where
  "NewPartitionKeyQueryPlan env values table_name s =
     (case s of (h, w) \<Rightarrow>
        if GetPartitionKeyName (dh_partition_keys h) table_name = [] then
          apfst Inr (DefaultQueryPlan env (TriggerPartitionKeyDiscovery env table_name s))
        else
          (case QueryPlanForPartitionKey LiveNodes_source values table_name (dh_partition_keys h) (dh_nodes h) of
             (r, st) \<Rightarrow> catch_invalid_argument env (r, h\<lparr>dh_nodes := st\<rparr>, w)))"

definition NewBatchWriteQueryPlan ::
  "('c, 'w) AwsEnv \<Rightarrow> BatchWriteOperation list \<Rightarrow> ('c, 'w) helper_state \<Rightarrow>
     QueryPlan result \<times> ('c, 'w) helper_state" where
  "NewBatchWriteQueryPlan env operations s =
     (case TriggerPartitionKeyDiscoveryForMissingMetadata env operations s of (h, w) \<Rightarrow>
        (case QueryPlanForBatchWrite LiveNodes_source operations (dh_partition_keys h) (dh_nodes h) of
           (r, st) \<Rightarrow> catch_invalid_argument env (r, h\<lparr>dh_nodes := st\<rparr>, w)))"

definition PartitionKeyQueryPlanFor ::
  "('c, 'w) AwsEnv \<Rightarrow> AwsMap \<Rightarrow> string \<Rightarrow> ('c, 'w) helper_state \<Rightarrow> QueryPlan result \<times> ('c, 'w) helper_state" where
  "PartitionKeyQueryPlanFor env values table_name s =
     (let table = c_str table_name;
          key_name = GetPartitionKeyName (dh_partition_keys (fst s)) table
      in if key_name = [] then NewPartitionKeyQueryPlan env [] table s
         else
           (case PartitionKeyOnlyAttributeMap values key_name of
              Inl e \<Rightarrow> NewPartitionKeyQueryPlan env [] table s
            | Inr key_values \<Rightarrow> NewPartitionKeyQueryPlan env key_values table s))"

definition PutItemQueryPlanFor ::
  "('c, 'w) AwsEnv \<Rightarrow> PutItemRequest \<Rightarrow> ('c, 'w) helper_state \<Rightarrow> QueryPlan result \<times> ('c, 'w) helper_state" where
  "PutItemQueryPlanFor env request s =
     (if \<not> ShouldUseKeyRouteAffinityForWrite (fst s) PutItem (PutItemOptions request) then
        apfst Inr (DefaultQueryPlan env s)
      else PartitionKeyQueryPlanFor env (put_Item request) (put_TableName request) s)"

definition UpdateItemQueryPlanFor ::
  "('c, 'w) AwsEnv \<Rightarrow> UpdateItemRequest \<Rightarrow> ('c, 'w) helper_state \<Rightarrow> QueryPlan result \<times> ('c, 'w) helper_state" where
  "UpdateItemQueryPlanFor env request s =
     (if \<not> ShouldUseKeyRouteAffinityForWrite (fst s) UpdateItem (UpdateItemOptions request) then
        apfst Inr (DefaultQueryPlan env s)
      else PartitionKeyQueryPlanFor env (upd_Key request) (upd_TableName request) s)"

definition DeleteItemQueryPlanFor ::
  "('c, 'w) AwsEnv \<Rightarrow> DeleteItemRequest \<Rightarrow> ('c, 'w) helper_state \<Rightarrow> QueryPlan result \<times> ('c, 'w) helper_state" where
  "DeleteItemQueryPlanFor env request s =
     (if \<not> ShouldUseKeyRouteAffinityForWrite (fst s) DeleteItem (DeleteItemOptions request) then
        apfst Inr (DefaultQueryPlan env s)
      else PartitionKeyQueryPlanFor env (del_Key request) (del_TableName request) s)"

section \<open>Batches\<close>

definition AddBatchWriteOperationForMissingMetadata ::
  "string \<Rightarrow> BatchWriteOperation list \<Rightarrow> BatchWriteOperation list" where
  "AddBatchWriteOperationForMissingMetadata table_name operations =
     operations @ [BatchWriteOperation_Put table_name []]"

definition AddBatchWriteOperation ::
  "string \<Rightarrow> string \<Rightarrow> AwsMap \<Rightarrow> BatchWriteOperation list \<Rightarrow> BatchWriteOperation list" where
  "AddBatchWriteOperation table_name key_name values operations =
     (case PartitionKeyOnlyAttributeMap values key_name of
        Inl e \<Rightarrow> operations
      | Inr key_values \<Rightarrow>
          if key_values \<noteq> [] then operations @ [BatchWriteOperation_Put table_name key_values] else operations)"

definition add_write ::
  "string \<Rightarrow> string \<Rightarrow> WriteRequest \<Rightarrow> BatchWriteOperation list \<Rightarrow> BatchWriteOperation list" where
  "add_write table_name key_name write operations =
     (case (write_Put write, write_Delete write) of
        (Some item, None) \<Rightarrow> AddBatchWriteOperation table_name key_name item operations
      | (None, Some key) \<Rightarrow> AddBatchWriteOperation table_name key_name key operations
      | _ \<Rightarrow> operations)"

definition BatchWriteOperationsFor ::
  "PartitionKeyMetadata \<Rightarrow> BatchWriteItemRequest \<Rightarrow> BatchWriteOperation list" where
  "BatchWriteOperationsFor md request =
     fold (\<lambda>(table, writes) operations.
       (let table_name = c_str table;
            key_name = GetPartitionKeyName md table_name
        in if key_name = [] then
             (if writes \<noteq> [] then AddBatchWriteOperationForMissingMetadata table_name operations else operations)
           else fold (add_write table_name key_name) writes operations)) request []"

definition BatchWriteItemQueryPlanFor ::
  "('c, 'w) AwsEnv \<Rightarrow> BatchWriteItemRequest \<Rightarrow> ('c, 'w) helper_state \<Rightarrow>
     QueryPlan result \<times> ('c, 'w) helper_state" where
  "BatchWriteItemQueryPlanFor env request s =
     (if \<not> ShouldUseKeyRouteAffinityForWrite (fst s) PutItem WriteOperationOptions_default then
        apfst Inr (DefaultQueryPlan env s)
      else
        (let operations = BatchWriteOperationsFor (dh_partition_keys (fst s)) request
         in if operations = [] then apfst Inr (DefaultQueryPlan env s)
            else NewBatchWriteQueryPlan env operations s))"

section \<open>Clients\<close>

definition NewClientConfiguration :: "Config \<Rightarrow> ClientConfiguration" where
  "NewClientConfiguration config =
     \<lparr>cc_region = c_str (cfg_aws_region config),
      cc_https = AwsScheme (cfg_scheme config),
      cc_verifySSL = cfg_verify_ssl config,
      cc_maxConnections = cfg_max_connections config,
      cc_connectTimeoutMs = cfg_connect_timeout config,
      cc_httpRequestTimeoutMs = cfg_http_client_timeout config,
      cc_requestTimeoutMs = cfg_http_client_timeout config,
      cc_endpointOverride = c_str (EndpointOverride (cfg_port config) (cfg_scheme config)),
      cc_caFile = (if cfg_ca_file config \<noteq> [] then Some (c_str (cfg_ca_file config)) else None),
      cc_userAgent = (if cfg_user_agent config \<noteq> [] then Some (c_str (cfg_user_agent config)) else None)\<rparr>"

definition NewDynamoDBWithEndpointProvider ::
  "('c, 'w) AwsEnv \<Rightarrow> EndpointProvider \<Rightarrow> ('c, 'w) helper_state \<Rightarrow> 'c \<times> ('c, 'w) helper_state" where
  "NewDynamoDBWithEndpointProvider env endpoint_provider s =
     (case s of (h, w) \<Rightarrow>
        (let client_config = NewClientConfiguration (dh_config h);
             c = cfg_credentials (dh_config h);
             credentials = (if access_key_id c \<noteq> [] \<or> secret_access_key c \<noteq> []
                            then Some (c_str (access_key_id c), c_str (secret_access_key c)) else None);
             (client, w') = aws_DynamoDBClient env credentials endpoint_provider client_config w
         in (client, h, w')))"

definition NewDynamoDB :: "('c, 'w) AwsEnv \<Rightarrow> ('c, 'w) helper_state \<Rightarrow> 'c \<times> ('c, 'w) helper_state" where
  "NewDynamoDB env s = NewDynamoDBWithEndpointProvider env AlternatorEndpointProvider s"

definition NewDynamoDBForNode ::
  "('c, 'w) AwsEnv \<Rightarrow> Url \<Rightarrow> ('c, 'w) helper_state \<Rightarrow> 'c \<times> ('c, 'w) helper_state" where
  "NewDynamoDBForNode env node s =
     (case map_find Url_ToString node (dh_fixed_clients (fst s)) of
        Some client \<Rightarrow> (client, s)
      | None \<Rightarrow>
          (case NewDynamoDBWithEndpointProvider env (FixedEndpointProvider node) s of
             (client, h, w) \<Rightarrow>
               (client, h\<lparr>dh_fixed_clients := map_emplace Url_ToString node client (dh_fixed_clients h)\<rparr>, w)))"

definition NewDynamoDBForQueryPlan ::
  "('c, 'w) AwsEnv \<Rightarrow> QueryPlan \<Rightarrow> ('c, 'w) helper_state \<Rightarrow> 'c result \<times> ('c, 'w) helper_state" where
  "NewDynamoDBForQueryPlan env plan s =
     (case QueryPlan_Next plan of
        Inl e \<Rightarrow> (Inl e, s)
      | Inr (node, _) \<Rightarrow>
          if Url_Empty node then apfst Inr (NewDynamoDB env s)
          else apfst Inr (NewDynamoDBForNode env node s))"

text \<open>The client a write is sent through: the plan of the request, then the client of its first node.\<close>

definition client_for ::
  "('c, 'w) AwsEnv \<Rightarrow> QueryPlan result \<times> ('c, 'w) helper_state \<Rightarrow> 'c result \<times> ('c, 'w) helper_state" where
  "client_for env = (\<lambda>(r, s). (case r of Inl e \<Rightarrow> (Inl e, s) | Inr plan \<Rightarrow> NewDynamoDBForQueryPlan env plan s))"

definition PutItem_client ::
  "('c, 'w) AwsEnv \<Rightarrow> PutItemRequest \<Rightarrow> ('c, 'w) helper_state \<Rightarrow> 'c result \<times> ('c, 'w) helper_state" where
  "PutItem_client env request s = client_for env (PutItemQueryPlanFor env request s)"

definition UpdateItem_client ::
  "('c, 'w) AwsEnv \<Rightarrow> UpdateItemRequest \<Rightarrow> ('c, 'w) helper_state \<Rightarrow> 'c result \<times> ('c, 'w) helper_state" where
  "UpdateItem_client env request s = client_for env (UpdateItemQueryPlanFor env request s)"

definition DeleteItem_client ::
  "('c, 'w) AwsEnv \<Rightarrow> DeleteItemRequest \<Rightarrow> ('c, 'w) helper_state \<Rightarrow> 'c result \<times> ('c, 'w) helper_state" where
  "DeleteItem_client env request s = client_for env (DeleteItemQueryPlanFor env request s)"

definition BatchWriteItem_client ::
  "('c, 'w) AwsEnv \<Rightarrow> BatchWriteItemRequest \<Rightarrow> ('c, 'w) helper_state \<Rightarrow> 'c result \<times> ('c, 'w) helper_state" where
  "BatchWriteItem_client env request s = client_for env (BatchWriteItemQueryPlanFor env request s)"

definition ResolveFixedEndpoint :: "Url \<Rightarrow> string option" where
  "ResolveFixedEndpoint node = (if Url_Empty node then None else Some (c_str (Url_ToString node)))"

definition ResolveAlternatorEndpoint ::
  "'w Environment \<Rightarrow> 'w ln_state \<Rightarrow> string option result \<times> 'w ln_state" where
  "ResolveAlternatorEndpoint env s =
     (case NextNode env s of
        (Inl e, s') \<Rightarrow> (Inl e, s')
      | (Inr node, s') \<Rightarrow> (Inr (ResolveFixedEndpoint node), s'))"

section \<open>Partition key discovery\<close>

definition first_hash_key :: "(string \<times> bool) list \<Rightarrow> string" where
  "first_hash_key key_schemas =
     (case find snd key_schemas of Some (name, _) \<Rightarrow> c_str name | None \<Rightarrow> [])"

definition DiscoverPartitionKeyName ::
  "('c, 'w) AwsEnv \<Rightarrow> string \<Rightarrow> ('c, 'w) helper_state \<Rightarrow> string result \<times> ('c, 'w) helper_state" where
  "DiscoverPartitionKeyName env table_name s =
     (case NewDynamoDB env s of (client, h, w) \<Rightarrow>
        (case aws_DescribeTable env client (c_str table_name) w of
           (Inl e, w') \<Rightarrow> (Inl e, h, w')
         | (Inr (Describe_Error message), w') \<Rightarrow> (Inr [], h, w')
         | (Inr (Described key_schemas), w') \<Rightarrow> (Inr (first_hash_key key_schemas), h, w')))"

text \<open>One turn of the loop of \<open>UpdatePartitionKeyName\<close>: it returns, or goes on with the next attempt.\<close>

datatype attempt_result = Attempt_Done "bool result" | Attempt_Next u32 int

definition discovery_attempt ::
  "('c, 'w) AwsEnv \<Rightarrow> string \<Rightarrow> u32 \<Rightarrow> int \<Rightarrow> ('c, 'w) helper_state \<Rightarrow> attempt_result \<times> ('c, 'w) helper_state" where
  "discovery_attempt env table_name attempt backoff s =
     (let attempts = partition_key_discovery_attempts (cfg_key_route_affinity (dh_config (fst s))) in
      if \<not> attempt \<le> attempts then (Attempt_Done (Inr False), s)
      else
        (case DiscoverPartitionKeyName env table_name s of
           (Inl e, s') \<Rightarrow> (Attempt_Done (Inl e), s')
         | (Inr key_name, h, w) \<Rightarrow>
             if key_name \<noteq> [] then
               (Attempt_Done (Inr True), h\<lparr>dh_partition_keys := SetPartitionKeyName table_name key_name (dh_partition_keys h)\<rparr>, w)
             else if attempt = attempts then (Attempt_Done (Inr False), h, w)
             else if 0 < backoff then (Attempt_Next (attempt + 1) (backoff * 2), h, aws_sleep_for env backoff w)
             else (Attempt_Next (attempt + 1) backoff, h, w)))"

lemma Discover_helper: "DiscoverPartitionKeyName env table s = (r, s') \<Longrightarrow> fst s' = fst s"
  by (auto simp: DiscoverPartitionKeyName_def NewDynamoDB_def NewDynamoDBWithEndpointProvider_def Let_def
      split: prod.splits sum.splits describe_outcome.splits)

abbreviation discovery_attempts :: "'c DynamoDBHelper \<Rightarrow> u32" where
  "discovery_attempts h \<equiv> partition_key_discovery_attempts (cfg_key_route_affinity (dh_config h))"

lemma discovery_attempt_next:
  assumes "discovery_attempt env table attempt backoff s = (Attempt_Next a b, s')"
  shows "a = attempt + 1" "unat a = unat attempt + 1" "attempt < discovery_attempts (fst s)" "fst s' = fst s"
proof -
  have "a = attempt + 1 \<and> attempt < discovery_attempts (fst s) \<and> fst s' = fst s"
    using assms by (auto simp: discovery_attempt_def Let_def split: prod.splits sum.splits if_splits dest!: Discover_helper)
  moreover have "unat (discovery_attempts (fst s)) < 2 ^ LENGTH(32)" by (rule unsigned_less)
  moreover from calculation have "unat attempt + 1 < 2 ^ 32" by (simp add: word_less_nat_alt)
  ultimately show "a = attempt + 1" "unat a = unat attempt + 1" "attempt < discovery_attempts (fst s)" "fst s' = fst s"
    by (auto simp: unat_add_lem[THEN iffD1])
qed

lemma discovery_attempt_decreases:
  assumes "discovery_attempt env table attempt backoff s = (Attempt_Next a b, s')"
  shows "unat (discovery_attempts (fst s')) - unat a < unat (discovery_attempts (fst s)) - unat attempt"
  using discovery_attempt_next[OF assms] by (simp add: word_less_nat_alt)

function UpdatePartitionKeyName_loop ::
  "('c, 'w) AwsEnv \<Rightarrow> string \<Rightarrow> u32 \<Rightarrow> int \<Rightarrow> ('c, 'w) helper_state \<Rightarrow> bool result \<times> ('c, 'w) helper_state" where
  "UpdatePartitionKeyName_loop env table_name attempt backoff s =
     (case discovery_attempt env table_name attempt backoff s of
        (Attempt_Done r, s') \<Rightarrow> (r, s')
      | (Attempt_Next attempt' backoff', s') \<Rightarrow> UpdatePartitionKeyName_loop env table_name attempt' backoff' s')"
  by pat_completeness auto
termination
  by (relation "measure (\<lambda>(env, table, attempt, backoff, s). unat (discovery_attempts (fst s)) - unat attempt)")
    (auto dest!: discovery_attempt_decreases[OF sym])

declare UpdatePartitionKeyName_loop.simps [simp del]

definition UpdatePartitionKeyName ::
  "('c, 'w) AwsEnv \<Rightarrow> string \<Rightarrow> ('c, 'w) helper_state \<Rightarrow> bool result \<times> ('c, 'w) helper_state" where
  "UpdatePartitionKeyName env table_name s =
     (if table_name = [] then (Inr False, s)
      else UpdatePartitionKeyName_loop env table_name 1
             (partition_key_discovery_initial_backoff (cfg_key_route_affinity (dh_config (fst s)))) s)"

end
