(* ===== verification/Aws_Http.thy ===== *)
theory Aws_Http
  imports Aws_Routing Http_Zlib
begin

text \<open>
  \<open>src/src/aws_dynamodb_helper.cpp\<close>, second part: \<open>AlternatorHttpClient\<close>, which the SDK calls for every attempt
  of a request. It directs the attempt to a node, adapts body and headers, passes it to the platform
  client and reports the result to the live nodes.

  Requests and responses of the SDK are types of their own; the methods the code calls on them and the
  constants it reads are the fields of the record \<open>AwsHttp\<close>. A request is shared and changed in place, so the
  operations return it. A null pointer is \<open>None\<close>.
\<close>

section \<open>The interface of the SDK\<close>

text \<open>
  A body is a stream the request or response owns, changed in place: \<open>req_BodyAfter\<close> and \<open>rsp_BodyAfter\<close> are the request
  and the response once their stream is in a given state.
\<close>

record ('q, 'p) AwsHttp =
  uri_GetHost :: "'q \<Rightarrow> string"
  uri_GetPort :: "'q \<Rightarrow> u16"
  uri_IsHttps :: "'q \<Rightarrow> bool"
  uri_SetScheme :: "bool \<Rightarrow> 'q \<Rightarrow> 'q"
  uri_SetAuthority :: "string \<Rightarrow> 'q \<Rightarrow> 'q"
  uri_SetPort :: "u16 \<Rightarrow> 'q \<Rightarrow> 'q"
  req_GetHeaders :: "'q \<Rightarrow> (string \<times> string) list"
  req_HasHeader :: "string \<Rightarrow> 'q \<Rightarrow> bool"
  req_GetHeaderValue :: "string \<Rightarrow> 'q \<Rightarrow> string"
  req_SetHeaderValue :: "string \<Rightarrow> string \<Rightarrow> 'q \<Rightarrow> 'q"
  req_DeleteHeader :: "string \<Rightarrow> 'q \<Rightarrow> 'q"
  req_SetAcceptEncoding :: "string \<Rightarrow> 'q \<Rightarrow> 'q"
  req_SetContentEncoding :: "string \<Rightarrow> 'q \<Rightarrow> 'q"
  req_SetContentLength :: "string \<Rightarrow> 'q \<Rightarrow> 'q"
  req_GetContentBody :: "'q \<Rightarrow> IOStream option"
  req_AddContentBody :: "IOStream \<Rightarrow> 'q \<Rightarrow> 'q"
  req_BodyAfter :: "IOStream \<Rightarrow> 'q \<Rightarrow> 'q"
  req_IsEventStreamRequest :: "'q \<Rightarrow> bool"
  req_HasTransferEncoding :: "'q \<Rightarrow> bool"
  req_HasContentEncoding :: "'q \<Rightarrow> bool"
  rsp_HasClientError :: "'p \<Rightarrow> bool"
  rsp_GetResponseCode :: "'p \<Rightarrow> int"
  rsp_HasHeader :: "string \<Rightarrow> 'p \<Rightarrow> bool"
  rsp_GetHeader :: "string \<Rightarrow> 'p \<Rightarrow> string"
  rsp_GetHeaders :: "'p \<Rightarrow> (string \<times> string) list"
  rsp_GetResponseBody :: "'p \<Rightarrow> IOStream"
  rsp_BodyAfter :: "IOStream \<Rightarrow> 'p \<Rightarrow> 'p"
  StandardHttpResponse :: "'q \<Rightarrow> 'p"
  rsp_SetResponseCode :: "int \<Rightarrow> 'p \<Rightarrow> 'p"
  rsp_AddHeader :: "string \<Rightarrow> string \<Rightarrow> 'p \<Rightarrow> 'p"
  HOST_HEADER :: string
  SDK_REQUEST_HEADER :: string
  CONTENT_ENCODING_HEADER :: string
  CONTENT_LENGTH_HEADER :: string
  REQUEST_NOT_MADE :: int
  NETWORK_CONNECT_TIMEOUT :: int
  NETWORK_READ_TIMEOUT :: int

section \<open>Endpoints\<close>

definition BracketIPv6Host :: "string \<Rightarrow> string" where
  "BracketIPv6Host host =
     (if CHR '':'' \<in> set host \<and> (host = [] \<or> hd host \<noteq> CHR ''['') then ''['' @ host @ '']'' else host)"

definition UnbracketHost :: "string \<Rightarrow> string" where
  "UnbracketHost host =
     (if 2 \<le> length host \<and> hd host = CHR ''['' \<and> last host = CHR '']'' then butlast (tl host) else host)"

definition SameEndpointHost :: "string \<Rightarrow> string \<Rightarrow> bool" where
  "SameEndpointHost lhs rhs \<longleftrightarrow> UnbracketHost lhs = UnbracketHost rhs"

definition IsAlternatorEndpoint :: "('q, 'p) AwsHttp \<Rightarrow> 'q \<Rightarrow> AlternatorLiveNodes \<Rightarrow> u16 \<Rightarrow> bool" where
  "IsAlternatorEndpoint A q st endpoint_override_port \<longleftrightarrow>
     (let host = c_str (uri_GetHost A q); port = uri_GetPort A q
      in SameEndpointHost host kEndpointOverrideHost \<and> port = endpoint_override_port \<or>
         list_ex (\<lambda>node. SameEndpointHost host (url_host node) \<and> port = url_port node) (LiveNodes_GetNodes st))"

definition UrlFromAwsUri :: "('q, 'p) AwsHttp \<Rightarrow> 'q \<Rightarrow> Url" where
  "UrlFromAwsUri A q =
     Url_new (if uri_IsHttps A q then ''https'' else ''http'') (c_str (uri_GetHost A q)) (uri_GetPort A q)"

definition RewriteRequestEndpoint :: "('q, 'p) AwsHttp \<Rightarrow> Url \<Rightarrow> 'q \<Rightarrow> 'q" where
  "RewriteRequestEndpoint A node q =
     req_SetHeaderValue A (HOST_HEADER A) (c_str (Url_Authority node))
       (uri_SetPort A (url_port node)
         (uri_SetAuthority A (c_str (BracketIPv6Host (url_host node)))
           (uri_SetScheme A (AwsScheme (url_scheme node)) q)))"

definition ObservationFromHttpResult :: "('q, 'p) AwsHttp \<Rightarrow> 'p option \<Rightarrow> NodeHealthObservation" where
  "ObservationFromHttpResult A response =
     (case response of
        None \<Rightarrow> ConnectionFailure
      | Some p \<Rightarrow>
          if rsp_HasClientError A p then ConnectionFailure
          else
            (let code = rsp_GetResponseCode A p in
             if code = REQUEST_NOT_MADE A \<or> code = NETWORK_CONNECT_TIMEOUT A \<or> code = NETWORK_READ_TIMEOUT A
             then ConnectionFailure
             else if 500 \<le> code then ServerError
             else Success))"

section \<open>Bodies\<close>

definition ReadResponseBody :: "IOStream \<Rightarrow> string result \<times> IOStream" where
  "ReadResponseBody body = io_read_all (seekg_beg (clear body))"

definition WriteResponseBody :: "IOStream \<Rightarrow> string \<Rightarrow> IOStream" where
  "WriteResponseBody body value =
     seekg_beg (clear (io_flush (if value \<noteq> [] then io_write value body else body)))"

definition RewindForReading :: "IOStream \<Rightarrow> string \<Rightarrow> unit result \<times> IOStream" where
  "RewindForReading body description =
     (let body' = seekg_beg (clear body) in
      (if io_failed body' then Inl (Runtime_Error (description @ '' is not seekable'')) else Inr (), body'))"

definition PrepareOriginalRequestBodyForReading :: "IOStream \<Rightarrow> u64 result \<times> IOStream" where
  "PrepareOriginalRequestBodyForReading body =
     (let body' = seekg_end (clear body) in
      if io_failed body' then (Inl (Runtime_Error ''HTTP request body is not seekable''), body')
      else
        (case tellg body' of
           None \<Rightarrow> (Inl (Runtime_Error ''HTTP request body size is unavailable''), body')
         | Some end_pos \<Rightarrow>
             (case RewindForReading body' ''HTTP request body'' of (r, body'') \<Rightarrow>
                (rbind r (\<lambda>_. Inr (of_nat end_pos)), body''))))"

definition PrepareCompressedRequestBodyForReading :: "IOStream \<Rightarrow> u64 result \<times> IOStream" where
  "PrepareCompressedRequestBodyForReading body =
     (let body' = io_flush body in
      case tellp body' of
        None \<Rightarrow> (Inl (Runtime_Error ''compressed HTTP request body size is unavailable''), body')
      | Some end_pos \<Rightarrow>
          (case RewindForReading body' ''compressed HTTP request body'' of (r, body'') \<Rightarrow>
             (rbind r (\<lambda>_. Inr (of_nat end_pos)), body'')))"

text \<open>The request of a failed compression is not given: the exception leaves \<open>MakeRequest\<close> at once.\<close>

definition CompressAwsRequestBody ::
  "('q, 'p) AwsHttp \<Rightarrow> HttpRequestCompressor option \<Rightarrow> string \<Rightarrow> 'q \<Rightarrow> 'q result" where
  "CompressAwsRequestBody A request_compressor request_content_encoding q =
     (case (request_compressor, req_GetContentBody A q) of
        (Some compressor, Some body) \<Rightarrow>
          if request_content_encoding = [] \<or> req_IsEventStreamRequest A q \<or> req_HasTransferEncoding A q \<or>
             req_HasContentEncoding A q then Inr q
          else
            (case PrepareOriginalRequestBodyForReading body of (r, original_body) \<Rightarrow>
             rbind r (\<lambda>original_body_size.
             case Compressor_Compress compressor original_body original_body_size StringStream of
               (r, original_body', compressed_body) \<Rightarrow>
             rbind r (\<lambda>compressed.
               if \<not> compressed then
                 (case RewindForReading original_body' ''HTTP request body'' of (r, original_body'') \<Rightarrow>
                    rbind r (\<lambda>_. Inr (req_BodyAfter A original_body'' q)))
               else
                 (case PrepareCompressedRequestBodyForReading compressed_body of (r, compressed_body') \<Rightarrow>
                  rbind r (\<lambda>compressed_body_size.
                    Inr (req_DeleteHeader A ''x-amz-content-sha256''
                          (req_AddContentBody A compressed_body'
                            (req_SetContentLength A (to_string (unat compressed_body_size))
                              (req_SetContentEncoding A (c_str request_content_encoding) q)))))))))
      | _ \<Rightarrow> Inr q)"

definition DecodeCompressedAwsResponse ::
  "('q, 'p) AwsHttp \<Rightarrow> HttpContentEncodingDecoder option list \<Rightarrow> 'q option \<Rightarrow> 'p option \<Rightarrow> 'p option result" where
  "DecodeCompressedAwsResponse A content_encoding_decoders request response =
     (case (request, response) of
        (Some q, Some p) \<Rightarrow>
          if rsp_HasClientError A p \<or> \<not> rsp_HasHeader A (CONTENT_ENCODING_HEADER A) p then Inr response
          else
            (let content_encoding = c_str (rsp_GetHeader A (CONTENT_ENCODING_HEADER A) p) in
             rbind (fst (ReadResponseBody (rsp_GetResponseBody A p))) (\<lambda>body.
             rbind (DecodeHttpResponseBody body content_encoding content_encoding_decoders) (\<lambda>decoded_body.
               (let p0 = rsp_SetResponseCode A (rsp_GetResponseCode A p) (StandardHttpResponse A q);
                    p1 = fold (\<lambda>(name, value) p.
                           (let header_name = ToLowerAscii (c_str name) in
                            if header_name = CONTENT_ENCODING_HEADER A \<or> header_name = CONTENT_LENGTH_HEADER A then p
                            else rsp_AddHeader A name value p)) (rsp_GetHeaders A p) p0;
                    p2 = rsp_AddHeader A (CONTENT_LENGTH_HEADER A) (to_string (length decoded_body)) p1
                in Inr (Some (rsp_BodyAfter A (WriteResponseBody (rsp_GetResponseBody A p2) decoded_body) p2))))))
      | _ \<Rightarrow> Inr response)"

section \<open>Attempts\<close>

definition IsFirstSdkAttempt :: "('q, 'p) AwsHttp \<Rightarrow> 'q \<Rightarrow> bool" where
  "IsFirstSdkAttempt A q =
     (if \<not> req_HasHeader A (SDK_REQUEST_HEADER A) q then False
      else
        (let header = req_GetHeaderValue A (SDK_REQUEST_HEADER A) q; marker = ''attempt='' in
         case find_sub marker header of
           None \<Rightarrow> False
         | Some marker_pos \<Rightarrow>
             (let rest = dropWhile (\<lambda>c. c = CHR '' '') (drop (marker_pos + length marker) header)
              in rest \<noteq> [] \<and> hd rest = CHR ''1'')))"

record HeaderOptimizationPolicy =
  policy_enabled :: bool
  policy_allowed_headers :: "string set"

definition NormalizeHeaderAllowlist :: "string list \<Rightarrow> string set" where
  "NormalizeHeaderAllowlist headers = fold (\<lambda>header. insert (ToLowerAscii header)) headers {}"

definition HeaderOptimizationContextFromConfig :: "Config \<Rightarrow> HeaderOptimizationContext" where
  "HeaderOptimizationContextFromConfig config =
     \<lparr>credentials_configured = access_key_id (cfg_credentials config) \<noteq> [] \<or> secret_access_key (cfg_credentials config) \<noteq> [],
      user_agent_configured = cfg_user_agent config \<noteq> []\<rparr>"

definition BuildHeaderOptimizationPolicy :: "('q, 'p) AwsHttp \<Rightarrow> Config \<Rightarrow> HeaderOptimizationPolicy" where
  "BuildHeaderOptimizationPolicy A config =
     (case cfg_header_optimization config of
        None \<Rightarrow> \<lparr>policy_enabled = False, policy_allowed_headers = {}\<rparr>
      | Some AllowedHeaders \<Rightarrow>
          (let headers = AllowedHeaders (HeaderOptimizationContextFromConfig config);
               headers = (if cfg_request_compressor config \<noteq> None
                          then headers @ [CONTENT_ENCODING_HEADER A, CONTENT_LENGTH_HEADER A] else headers)
           in \<lparr>policy_enabled = True, policy_allowed_headers = NormalizeHeaderAllowlist headers\<rparr>))"

definition OptimizeRequestHeaders :: "('q, 'p) AwsHttp \<Rightarrow> HeaderOptimizationPolicy \<Rightarrow> 'q \<Rightarrow> 'q" where
  "OptimizeRequestHeaders A policy q =
     (if \<not> policy_enabled policy then q
      else fold (\<lambda>(name, value) q.
             if ToLowerAscii (c_str name) \<notin> policy_allowed_headers policy then req_DeleteHeader A (c_str name) q else q)
           (req_GetHeaders A q) q)"

definition SelectAttemptNode ::
  "('q, 'p) AwsHttp \<Rightarrow> 'w Environment \<Rightarrow> u16 \<Rightarrow> 'q option \<Rightarrow> 'w ln_state \<Rightarrow> Url result \<times> 'q option \<times> 'w ln_state" where
  "SelectAttemptNode A env endpoint_override_port request s =
     (case request of
        None \<Rightarrow> (Inr Url_default, request, s)
      | Some q \<Rightarrow>
          if \<not> IsAlternatorEndpoint A q (fst s) endpoint_override_port then (Inr Url_default, request, s)
          else
            (let current_node = UrlFromAwsUri A q in
             if IsFirstSdkAttempt A q \<and> \<not> SameEndpointHost (url_host current_node) kEndpointOverrideHost
             then (Inr current_node, request, s)
             else
               (case NextNode env s of
                  (Inl e, s') \<Rightarrow> (Inl e, request, s')
                | (Inr node, s') \<Rightarrow>
                    (Inr node, if \<not> Url_Empty node then Some (RewriteRequestEndpoint A node q) else request, s'))))"

record AlternatorHttpClient =
  hc_endpoint_override_port :: u16
  hc_request_compressor :: "HttpRequestCompressor option"
  hc_request_content_encoding :: string
  hc_content_encoding_decoders :: "HttpContentEncodingDecoder option list"
  hc_accept_encoding_value :: string
  hc_header_optimization :: HeaderOptimizationPolicy

text \<open>The constructor, with a flag for each of the two pointers that must not be null.\<close>

definition AlternatorHttpClient_new ::
  "bool \<Rightarrow> bool \<Rightarrow> u16 \<Rightarrow> HttpRequestCompressor option \<Rightarrow> HttpContentEncodingDecoder option list \<Rightarrow>
     HeaderOptimizationPolicy \<Rightarrow> AlternatorHttpClient result" where
  "AlternatorHttpClient_new has_nodes has_delegate endpoint_override_port request_compressor content_encoding_decoders
       header_optimization =
     rbind (BuildRequestContentEncodingValue request_compressor) (\<lambda>request_content_encoding.
     rbind (BuildAcceptEncodingValue content_encoding_decoders) (\<lambda>accept_encoding_value.
       if \<not> has_nodes then Inl (Invalid_Argument ''nodes must not be null'')
       else if \<not> has_delegate then Inl (Invalid_Argument ''delegate must not be null'')
       else Inr \<lparr>hc_endpoint_override_port = endpoint_override_port, hc_request_compressor = request_compressor,
                 hc_request_content_encoding = request_content_encoding,
                 hc_content_encoding_decoders = content_encoding_decoders,
                 hc_accept_encoding_value = accept_encoding_value, hc_header_optimization = header_optimization\<rparr>))"

text \<open>The factory that creates such clients for the SDK, each on a platform client of its own.\<close>

record AlternatorHttpClientFactory =
  hf_endpoint_override_port :: u16
  hf_request_compressor :: "HttpRequestCompressor option"
  hf_content_encoding_decoders :: "HttpContentEncodingDecoder option list"
  hf_header_optimization :: HeaderOptimizationPolicy

definition AlternatorHttpClientFactory_new ::
  "bool \<Rightarrow> u16 \<Rightarrow> HttpRequestCompressor option \<Rightarrow> HttpContentEncodingDecoder option list \<Rightarrow>
     HeaderOptimizationPolicy \<Rightarrow> AlternatorHttpClientFactory result" where
  "AlternatorHttpClientFactory_new has_nodes endpoint_override_port request_compressor content_encoding_decoders
       header_optimization =
     (if \<not> has_nodes then Inl (Invalid_Argument ''nodes must not be null'')
      else Inr \<lparr>hf_endpoint_override_port = endpoint_override_port, hf_request_compressor = request_compressor,
                hf_content_encoding_decoders = content_encoding_decoders,
                hf_header_optimization = header_optimization\<rparr>)"

definition CreateHttpClient :: "AlternatorHttpClientFactory \<Rightarrow> AlternatorHttpClient result" where
  "CreateHttpClient f =
     AlternatorHttpClient_new True True (hf_endpoint_override_port f) (hf_request_compressor f)
       (hf_content_encoding_decoders f) (hf_header_optimization f)"

text \<open>The constructor of a request and its setter are the SDK's, as is the parser of the other overload.\<close>

definition CreateHttpRequest ::
  "('u \<Rightarrow> 'm \<Rightarrow> 'q) \<Rightarrow> ('f \<Rightarrow> 'q \<Rightarrow> 'q) \<Rightarrow> 'u \<Rightarrow> 'm \<Rightarrow> 'f \<Rightarrow> 'q" where
  "CreateHttpRequest StandardHttpRequest SetResponseStreamFactory uri http_method stream_factory =
     SetResponseStreamFactory stream_factory (StandardHttpRequest uri http_method)"

definition CreateHttpRequest_string ::
  "(string \<Rightarrow> 'u) \<Rightarrow> ('u \<Rightarrow> 'm \<Rightarrow> 'q) \<Rightarrow> ('f \<Rightarrow> 'q \<Rightarrow> 'q) \<Rightarrow> string \<Rightarrow> 'm \<Rightarrow> 'f \<Rightarrow> 'q" where
  "CreateHttpRequest_string URI StandardHttpRequest SetResponseStreamFactory uri http_method stream_factory =
     CreateHttpRequest StandardHttpRequest SetResponseStreamFactory (URI uri) http_method stream_factory"

definition NewAlternatorHttpClientFactory ::
  "bool \<Rightarrow> u16 \<Rightarrow> HttpRequestCompressor option \<Rightarrow> HttpContentEncodingDecoder option list \<Rightarrow>
     HeaderOptimizationPolicy \<Rightarrow> AlternatorHttpClientFactory result" where
  "NewAlternatorHttpClientFactory has_nodes endpoint_override_port request_compressor content_encoding_decoders
       header_optimization =
     AlternatorHttpClientFactory_new has_nodes endpoint_override_port request_compressor content_encoding_decoders
       header_optimization"

definition NewHttpClientFactory :: "('q, 'p) AwsHttp \<Rightarrow> Config \<Rightarrow> AlternatorHttpClientFactory result" where
  "NewHttpClientFactory A config =
     NewAlternatorHttpClientFactory True (cfg_port config) (cfg_request_compressor config)
       (cfg_content_encoding_decoders config) (BuildHeaderOptimizationPolicy A config)"

text \<open>Of the options of the SDK only the function that makes the factory is set.\<close>

record SDKOptions =
  httpClientFactory_create_fn :: "unit \<Rightarrow> AlternatorHttpClientFactory result"

definition ApplyToSDKOptions :: "('q, 'p) AwsHttp \<Rightarrow> Config \<Rightarrow> SDKOptions \<Rightarrow> SDKOptions" where
  "ApplyToSDKOptions A config options =
     (let header_optimization = BuildHeaderOptimizationPolicy A config in
      options\<lparr>httpClientFactory_create_fn := \<lambda>_.
        NewAlternatorHttpClientFactory True (cfg_port config) (cfg_request_compressor config)
          (cfg_content_encoding_decoders config) header_optimization\<rparr>)"

text \<open>What is done to a request that goes to a node.\<close>

definition prepare_attempt :: "('q, 'p) AwsHttp \<Rightarrow> AlternatorHttpClient \<Rightarrow> 'q \<Rightarrow> 'q result" where
  "prepare_attempt A c q =
     (let q1 = (if hc_accept_encoding_value c \<noteq> [] then req_SetAcceptEncoding A (c_str (hc_accept_encoding_value c)) q else q) in
      rbind (CompressAwsRequestBody A (hc_request_compressor c) (hc_request_content_encoding c) q1) (\<lambda>q2.
        Inr (OptimizeRequestHeaders A (hc_header_optimization c) q2)))"

text \<open>
  An attempt, with the platform client as a parameter. The second component of the result is the request
  as it was handed to the platform client, \<open>None\<close> where it was not.
\<close>

definition MakeRequest ::
  "('q, 'p) AwsHttp \<Rightarrow> 'w Environment \<Rightarrow> ('q option \<Rightarrow> 'w \<Rightarrow> 'p option result \<times> 'w) \<Rightarrow> AlternatorHttpClient \<Rightarrow>
     'q option \<Rightarrow> 'w ln_state \<Rightarrow> 'p option result \<times> 'q option option \<times> 'w ln_state" where
  "MakeRequest A env delegate c request s =
     (case SelectAttemptNode A env (hc_endpoint_override_port c) request s of
        (Inl e, _, s1) \<Rightarrow> (Inl e, None, s1)
      | (Inr node, request1, st, w) \<Rightarrow>
          if Url_Empty node then
            (case delegate request1 w of (response, w') \<Rightarrow> (response, Some request1, st, w'))
          else
            (case (case request1 of None \<Rightarrow> Inr None | Some q \<Rightarrow> rbind (prepare_attempt A c q) (\<lambda>q. Inr (Some q))) of
               Inl e \<Rightarrow> (Inl e, None, st, w)
             | Inr request2 \<Rightarrow>
                 (case delegate request2 w of
                    (Inl e, w') \<Rightarrow> (Inl e, Some request2, st, w')
                  | (Inr response, w') \<Rightarrow>
                      (case DecodeCompressedAwsResponse A (hc_content_encoding_decoders c) request2 response of
                         Inl e \<Rightarrow> (Inl e, Some request2, st, w')
                       | Inr decoded \<Rightarrow>
                           (Inr decoded, Some request2,
                            LiveNodes_ReportNodeResult (env_now env w') node (ObservationFromHttpResult A decoded) st, w')))))"

section \<open>Reports of a client's own requests\<close>

text \<open>
  \<open>AttachNodeErrorReporter\<close>: the handler of a signed request notes the node, the handler of a retry reports it at
  the time of the call. The noted URL is shared by the two handlers; the handlers that were there before are
  called afterwards, on the live nodes and whatever else \<open>'x\<close> they act on.
\<close>

definition SignedHandler :: "('q, 'p) AwsHttp \<Rightarrow> 'q \<Rightarrow> Url" where
  "SignedHandler A q =
     (let scheme = (if uri_IsHttps A q then ''https'' else ''http'');
          port = (if uri_GetPort A q = 0 then (if uri_IsHttps A q then 443 else 80) else uri_GetPort A q)
      in Url_new scheme (c_str (uri_GetHost A q)) port)"

definition RetryHandler :: "time_point \<Rightarrow> Url \<Rightarrow> AlternatorLiveNodes \<Rightarrow> AlternatorLiveNodes" where
  "RetryHandler now last_node st =
     (if \<not> Url_Empty last_node then LiveNodes_ReportNodeResult now last_node ServerError st else st)"

type_synonym ('r, 's) handler = "('r \<Rightarrow> 's \<Rightarrow> 's) option"

definition call_handler :: "('r, 's) handler \<Rightarrow> 'r \<Rightarrow> 's \<Rightarrow> 's" where
  "call_handler h r s = (case h of None \<Rightarrow> s | Some f \<Rightarrow> f r s)"

definition AttachNodeErrorReporter ::
  "('q, 'p) AwsHttp \<Rightarrow> bool \<Rightarrow> ('q, AlternatorLiveNodes \<times> 'x) handler \<times> (time_point \<times> 'r, AlternatorLiveNodes \<times> 'x) handler \<Rightarrow>
     ('q, Url \<times> AlternatorLiveNodes \<times> 'x) handler \<times> (time_point \<times> 'r, Url \<times> AlternatorLiveNodes \<times> 'x) handler" where
  "AttachNodeErrorReporter A has_nodes handlers =
     (case handlers of (previous_signed_handler, previous_retry_handler) \<Rightarrow>
        if \<not> has_nodes then
          (map_option (\<lambda>f q. apsnd (f q)) previous_signed_handler, map_option (\<lambda>f r. apsnd (f r)) previous_retry_handler)
        else
          (Some (\<lambda>http_request (last_node, s).
             (SignedHandler A http_request, call_handler previous_signed_handler http_request s)),
           Some (\<lambda>(now, retry_request) (last_node, st, x).
             (last_node, call_handler previous_retry_handler (now, retry_request) (RetryHandler now last_node st, x)))))"

end
