(* ===== verification/Aws_Plans.thy ===== *)
theory Aws_Plans
  imports Aws_Routing
begin

text \<open>What the helper's plans promise: every write gets one, and it reaches every active node.\<close>

section \<open>Plans that cover the active nodes\<close>

definition covers :: "AlternatorLiveNodes \<Rightarrow> Url list \<Rightarrow> bool" where
  "covers st us \<longleftrightarrow> distinct us \<and> set (LiveNodes_GetActiveNodes st) \<subseteq> set us \<and>
     set us \<subseteq> set (LiveNodes_GetActiveNodes st) \<union> set (LiveNodes_GetQuarantinedNodes st)"

text \<open>A call returned a plan that hands out these nodes, and left nodes and configuration as they were.\<close>

definition plan_covers ::
  "string set \<Rightarrow> ('c, 'w) helper_state \<Rightarrow> QueryPlan result \<times> ('c, 'w) helper_state \<Rightarrow> bool" where
  "plan_covers H s = (\<lambda>(r, h', w').
     (\<exists>plan us. r = Inr plan \<and> DrainPlan plan = Inr us \<and> covers (dh_nodes (fst s)) us) \<and>
     ln_inv H (dh_nodes h') \<and> same_nodes (dh_nodes (fst s)) (dh_nodes h'))"

lemma covers_same: "same_nodes st st' \<Longrightarrow> covers st' us = covers st us"
  by (simp add: covers_def same_nodes_lists)

lemma plan_covers_same:
  "same_nodes (dh_nodes (fst s0)) (dh_nodes (fst s)) \<Longrightarrow> plan_covers H s x \<Longrightarrow> plan_covers H s0 x"
  by (auto simp: plan_covers_def covers_same intro: same_nodes_trans)

lemma covers_ok:
  assumes "ln_inv H st" "covers st us"
  shows "nodes_ok us"
proof -
  have hv: "hosts_ok H" "ValidateConfig (ln_config st) = Inr ()" using assms(1) by (auto simp: ln_inv_def)
  have "nodes_of (ln_config st) H us"
    using nodes_of_sublist[OF ln_inv_lists(1)[OF assms(1)]] assms(2) by (simp add: covers_def)
  then show ?thesis by (rule nodes_of_ok(1)[OF hv])
qed

lemma new_plan_covers:
  assumes "ln_inv H st" "covers st us"
  obtains vs where "DrainPlan (QueryPlan_new us seed det srt preferred) = Inr vs" "covers st vs"
proof -
  obtain vs where vs: "DrainPlan (QueryPlan_new us seed det srt preferred) = Inr vs" "mset vs = mset us"
    using DrainPlan_new[of us] covers_ok[OF assms] unfolding nodes_ok_def by (meson node_url_nonempty)
  moreover have "covers st vs" using assms(2) mset_eq_setD[OF vs(2)] mset_eq_imp_distinct_iff[OF vs(2)] by (simp add: covers_def)
  ultimately show thesis using that by blast
qed

section \<open>The default plan\<close>

lemma GetQueryPlanNodes_covers:
  assumes "ln_inv H st" "LiveNodes_GetQueryPlanNodes st = (us, st')"
  shows "covers st us" "ln_inv H st'" "same_nodes st st'"
proof -
  note f = GetQueryPlanNodes_frame[OF assms]
  then have "distinct us" by (simp add: nodes_of_def)
  with f show "covers st us" "same_nodes st st'" by (simp_all add: covers_def)
  show "ln_inv H st'" using keptD[OF kept_PlanNodes[OF assms]] .
qed

lemma DefaultQueryPlan_covers:
  assumes "ln_inv H (dh_nodes (fst s))"
  shows "plan_covers H s (apfst Inr (DefaultQueryPlan env s))"
proof -
  obtain h w where s: "s = (h, w)" by force
  obtain us st' where g: "LiveNodes_GetQueryPlanNodes (dh_nodes h) = (us, st')" by (metis surj_pair)
  note c = GetQueryPlanNodes_covers[OF _ g, of H]
  obtain vs where "DrainPlan (QueryPlan_FromClock (aws_seed env w) us) = Inr vs" "covers (dh_nodes h) vs"
    unfolding QueryPlan_FromClock_def by (rule new_plan_covers[of H "dh_nodes h" us]) (use c assms s in auto)
  with c assms g show ?thesis
    by (auto simp: s plan_covers_def DefaultQueryPlan_def QueryPlan_FromNodesSource_def LiveNodes_source_def)
qed

lemma catch_covers:
  assumes "ln_inv H (dh_nodes (fst (snd x)))" "same_nodes (dh_nodes (fst s)) (dh_nodes (fst (snd x)))"
    and "plan_covers H s x \<or> (\<exists>message. fst x = Inl (Invalid_Argument message))"
  shows "plan_covers H s (catch_invalid_argument env x)"
proof -
  obtain r s1 where x: "x = (r, s1)" by (cases x) blast
  show ?thesis
  proof (cases "\<exists>message. r = Inl (Invalid_Argument message)")
    case True
    then show ?thesis
      using plan_covers_same[OF assms(2) DefaultQueryPlan_covers[OF assms(1), of env]]
      by (auto simp: x catch_invalid_argument_def)
  next
    case False
    with assms(3) obtain plan where "r = Inr plan" "plan_covers H s x" by (auto simp: x plan_covers_def)
    then show ?thesis by (simp add: x catch_invalid_argument_def)
  qed
qed

section \<open>Plans by key\<close>

lemma ForHash_covers:
  assumes "ln_inv H st" "LiveNodes_GetQueryPlanNodesForHash hash st = (r, st')"
  obtains us where "r = Inr us" "covers st us" "ln_inv H st'" "same_nodes st st'"
proof (rule ForHash_post[OF assms(1), of hash])
  let ?A = "SortAndDedupeNodes (LiveNodes_GetActiveNodes st)"
  fix u st1
  assume f: "LiveNodes_GetQueryPlanNodesForHash hash st = (Inr ((if Url_Empty u then [] else [u]) @ ?A), st1)"
    "ln_inv H st1" "same_nodes st st1" "Url_Empty u \<or> u \<in> set (LiveNodes_GetQuarantinedNodes st)"
  have "distinct ?A" using ln_inv_lists(3)[OF assms(1)] by (simp add: nodes_ok_def)
  moreover have "u \<notin> set ?A" if "\<not> Url_Empty u" using f(4) that ln_inv_lists(2)[OF assms(1)] by auto
  ultimately have "covers st ((if Url_Empty u then [] else [u]) @ ?A)" using f(4) by (auto simp: covers_def)
  with f assms(2) that show thesis by auto
qed

lemma active_source: "ns_GetActiveNodes LiveNodes_source st = LiveNodes_GetActiveNodes st"
  by (simp add: LiveNodes_source_def)

lemma PartitionKey_plan:
  assumes "ln_inv H st" "QueryPlanForPartitionKey LiveNodes_source values table md st = (r, st')"
  shows "ln_inv H st' \<and> same_nodes st st' \<and>
    ((\<exists>plan us. r = Inr plan \<and> DrainPlan plan = Inr us \<and> covers st us) \<or> (\<exists>message. r = Inl (Invalid_Argument message)))"
proof (cases "HashPartitionKey values table md")
  case (Inl e)
  then have "\<exists>message. e = Invalid_Argument message"
    by (auto simp: HashPartitionKey_def Let_def split: if_splits option.splits)
  with Inl assms show ?thesis by (auto simp: QueryPlanForPartitionKey_def)
next
  case (Inr seed)
  obtain q st1 where q: "LiveNodes_GetQueryPlanNodesForHash seed st = (q, st1)" by (metis surj_pair)
  obtain us where us: "q = Inr us" "covers st us" "ln_inv H st1" "same_nodes st st1" using ForHash_covers[OF assms(1) q] .
  have st': "st' = st1" using assms(2) Inr q us(1)
    by (auto simp: QueryPlanForPartitionKey_def LiveNodes_source_def Let_def split: if_splits)
  show ?thesis
  proof (cases "LiveNodes_GetActiveNodes st = []")
    case True
    obtain vs where "DrainPlan (QueryPlan_WithSortedSeed us seed) = Inr vs" "covers st vs"
      unfolding QueryPlan_WithSortedSeed_def by (rule new_plan_covers[OF assms(1) us(2)])
    with assms(2) Inr q us True show ?thesis
      by (auto simp: QueryPlanForPartitionKey_def LiveNodes_source_def)
  next
    case False
    then obtain p st2 xs us where "QueryPlanForPartitionKey LiveNodes_source values table md st = (Inr p, st2)"
      "DrainPlan p = Inr (xs @ us)" "distinct (xs @ us)" "set us = set (LiveNodes_GetActiveNodes st)"
      "set xs \<subseteq> set (LiveNodes_GetQuarantinedNodes st)"
      using live.partition_key_plan[OF assms(1) Inr] by (simp only: active_source set_SortAndDedupe) blast
    then show ?thesis using us(3,4) st' assms(2) by (auto simp: covers_def)
  qed
qed

lemma TriggerPartitionKeyDiscovery_frame [simp]:
  "dh_nodes (fst (TriggerPartitionKeyDiscovery env table s)) = dh_nodes (fst s)"
  "dh_config (fst (TriggerPartitionKeyDiscovery env table s)) = dh_config (fst s)"
  "dh_partition_keys (fst (TriggerPartitionKeyDiscovery env table s)) = dh_partition_keys (fst s)"
  by (auto simp: TriggerPartitionKeyDiscovery_def Trigger_begin_def Trigger_spawn_def split: option.splits prod.splits bool.splits)

lemma NewPartitionKeyQueryPlan_covers:
  assumes "ln_inv H (dh_nodes (fst s))"
  shows "plan_covers H s (NewPartitionKeyQueryPlan env values table s)"
proof -
  obtain h w where s: "s = (h, w)" by force
  show ?thesis
  proof (cases "GetPartitionKeyName (dh_partition_keys h) table = []")
    case True
    have "plan_covers H s (apfst Inr (DefaultQueryPlan env (TriggerPartitionKeyDiscovery env table s)))"
      by (rule plan_covers_same[OF _ DefaultQueryPlan_covers]) (simp_all add: assms)
    with True show ?thesis by (simp add: NewPartitionKeyQueryPlan_def s)
  next
    case False
    obtain r st where q: "QueryPlanForPartitionKey LiveNodes_source values table (dh_partition_keys h) (dh_nodes h) = (r, st)"
      by (metis surj_pair)
    note p = PartitionKey_plan[OF _ q, of H]
    have "plan_covers H s (catch_invalid_argument env (r, h\<lparr>dh_nodes := st\<rparr>, w))"
      by (rule catch_covers) (use p assms in \<open>auto simp: s plan_covers_def\<close>)
    with False q show ?thesis by (simp add: NewPartitionKeyQueryPlan_def s)
  qed
qed

lemma PartitionKeyQueryPlanFor_covers:
  "ln_inv H (dh_nodes (fst s)) \<Longrightarrow> plan_covers H s (PartitionKeyQueryPlanFor env values table s)"
  by (simp add: PartitionKeyQueryPlanFor_def Let_def NewPartitionKeyQueryPlan_covers split: sum.split)

section \<open>Plans of batches\<close>

lemma hashes_loop_distinct:
  "QueryPlanNodesForHashes_loop nodes hs out s = (Inr us, s') \<Longrightarrow> distinct out \<Longrightarrow> distinct us"
proof (induction hs arbitrary: out s)
  case (Cons hash hs)
  then obtain vs s1 where "QueryPlanNodesForHashes_loop nodes hs (AppendMissingNodes out vs) s1 = (Inr us, s')"
    by (auto split: prod.splits sum.splits)
  from Cons.IH[OF this] Cons.prems(2) show ?case by (auto simp: AppendMissing)
qed simp

lemma hashes_loop_same:
  assumes "ln_inv H st" "QueryPlanNodesForHashes_loop LiveNodes_source hs out st = (r, st')"
  shows "ln_inv H st' \<and> same_nodes st st'"
  using assms
proof (induction hs arbitrary: out st)
  case (Cons hash hs)
  obtain q st1 where q: "LiveNodes_GetQueryPlanNodesForHash hash st = (q, st1)" by (metis surj_pair)
  obtain us where us: "q = Inr us" "ln_inv H st1" "same_nodes st st1" using ForHash_covers[OF Cons.prems(1) q] .
  with Cons.IH[OF us(2)] Cons.prems(2) q show ?case
    by (auto simp: LiveNodes_source_def intro: same_nodes_trans)
qed simp

lemma ForHashes_covers:
  assumes "ln_inv H st" "LiveNodes_GetActiveNodes st = []"
    and "QueryPlanNodesForHashes LiveNodes_source hs st = (r, st')"
  obtains us where "r = Inr us" "covers st us" "ln_inv H st'" "same_nodes st st'"
proof -
  obtain q st1 where l: "QueryPlanNodesForHashes_loop LiveNodes_source hs [] st = (q, st1)" by (metis surj_pair)
  obtain us where us: "q = Inr us" "set us \<subseteq> set (LiveNodes_GetQuarantinedNodes st)"
    using live.hashes_loop[OF assms(1), of "[]" hs] l assms(2) by (auto simp: active_source)
  have c: "covers st us" using us hashes_loop_distinct[of LiveNodes_source hs "[]" st us st1] l assms(2) by (simp add: covers_def)
  note st1 = hashes_loop_same[OF assms(1) l]
  obtain vs st2 where v: "LiveNodes_GetQueryPlanNodes st1 = (vs, st2)" by (metis surj_pair)
  note g = GetQueryPlanNodes_covers[OF conjunct1[OF st1] v]
  show thesis
  proof (cases "us = []")
    case True
    with l us v assms(3) have "r = Inr vs" "st' = st2" by (auto simp: QueryPlanNodesForHashes_def LiveNodes_source_def)
    with that g st1 show thesis using covers_same same_nodes_trans by blast
  next
    case False
    with l us assms(3) have "r = Inr us" "st' = st1" by (auto simp: QueryPlanNodesForHashes_def)
    with that c st1 show thesis by blast
  qed
qed

lemma hashes_same:
  assumes "ln_inv H st" "QueryPlanNodesForHashes LiveNodes_source hs st = (r, st')"
  shows "ln_inv H st' \<and> same_nodes st st'"
proof -
  obtain q st1 where l: "QueryPlanNodesForHashes_loop LiveNodes_source hs [] st = (q, st1)" by (metis surj_pair)
  note st1 = hashes_loop_same[OF assms(1) l]
  obtain vs st2 where v: "LiveNodes_GetQueryPlanNodes st1 = (vs, st2)" by (metis surj_pair)
  note g = GetQueryPlanNodes_covers[OF conjunct1[OF st1] v]
  have "st' = st1 \<or> st' = st2" using assms(2) l v
    by (auto simp: QueryPlanNodesForHashes_def LiveNodes_source_def split: sum.splits if_splits)
  with st1 g show ?thesis using same_nodes_trans by blast
qed

lemma Select_result:
  assumes "nodes_ok us"
  shows "(\<exists>preferred. SelectBatchWritePreferredNodesForCandidates us ops md = Inr preferred) \<or>
    (\<exists>message. SelectBatchWritePreferredNodesForCandidates us ops md = Inl (Invalid_Argument message))"
  using SelectBatchWrite_eq[OF assms, of ops md]
  by (cases "us = []") (auto simp: SelectBatchWritePreferredNodesForCandidates_def)

lemma BatchWrite_plan:
  assumes "ln_inv H st" "QueryPlanForBatchWrite LiveNodes_source ops md st = (r, st')"
  shows "ln_inv H st' \<and> same_nodes st st' \<and>
    ((\<exists>plan us. r = Inr plan \<and> DrainPlan plan = Inr us \<and> covers st us) \<or> (\<exists>message. r = Inl (Invalid_Argument message)))"
proof -
  let ?A = "LiveNodes_GetActiveNodes st" and ?hs = "BatchWriteHashes ops md"
  obtain q st1 where q: "QueryPlanNodesForHashes LiveNodes_source ?hs st = (q, st1)" by (metis surj_pair)
  note same = hashes_same[OF assms(1) q]
  obtain us0 st0 where "QueryPlanNodesForHashes LiveNodes_source ?hs st = (Inr us0, st0)"
    using live.hashes_nodes[OF assms(1), of ?hs] .
  with q have us0: "q = Inr us0" by simp
  have st': "st' = st1" using assms(2) q us0 by (auto simp: QueryPlanForBatchWrite_def Let_def split: if_splits)
  show ?thesis
  proof (cases "?A = []")
    case True
    obtain us where us: "q = Inr us" "covers st us" using ForHashes_covers[OF assms(1) True q] by metis
    have "\<exists>vs. DrainPlan (QueryPlan_WithPreferredNodes us preferred) = Inr vs \<and> covers st vs" for preferred
      unfolding QueryPlan_WithPreferredNodes_def by (rule new_plan_covers[OF assms(1) us(2)]) blast
    with Select_result[OF covers_ok[OF assms(1) us(2)], of ops md] us q True assms(2) same st' show ?thesis
      by (auto simp: QueryPlanForBatchWrite_def active_source)
  next
    case False
    note a = ln_inv_lists[OF assms(1)]
    show ?thesis
    proof (cases "?hs = []")
      case True
      have "SortAndDedupeNodes ?A \<noteq> []" "nodes_ok (SortAndDedupeNodes ?A)"
        using False a(3) length_SortAndDedupe[of ?A] by (auto simp: nodes_ok_def)
      then have "\<exists>message. r = Inl (Invalid_Argument message)"
        using assms(2) q us0 False True SelectBatchWrite_eq[of "SortAndDedupeNodes ?A" ops md]
        by (auto simp: QueryPlanForBatchWrite_def active_source Let_def)
      with same st' show ?thesis by blast
    next
      case hs: False
      let ?S = "SortAndDedupeNodes ?A"
      let ?rest = "filter (\<lambda>u. votes_for ?S ?hs u = 0) ?S"
      obtain p st2 xs where p: "QueryPlanForBatchWrite LiveNodes_source ops md st = (Inr p, st2)"
        "set xs \<subseteq> set (LiveNodes_GetQuarantinedNodes st) - set ?A" "distinct xs"
        "DrainPlan p = Inr (xs @ by_votes ?S ?hs @ ?rest)"
        using live.batch_write_plan[OF assms(1) hs] False by (simp only: active_source set_SortAndDedupe) blast
      have v: "distinct (by_votes ?S ?hs)" "set (by_votes ?S ?hs) = {u \<in> set ?A. 0 < votes_for ?S ?hs u}" "distinct ?S"
        using a(3) distinct_by_votes[of ?S ?hs] set_by_votes[of ?S ?hs] by (simp_all add: nodes_ok_def)
      have "covers st (xs @ by_votes ?S ?hs @ ?rest)" using p(2,3) v by (auto simp: covers_def votes_for_def)
      with p assms(2) same st' show ?thesis by auto
    qed
  qed
qed

lemma Trigger_missing_frame:
  "dh_nodes (fst (TriggerPartitionKeyDiscoveryForMissingMetadata env ops s)) = dh_nodes (fst s) \<and>
   dh_partition_keys (fst (TriggerPartitionKeyDiscoveryForMissingMetadata env ops s)) = dh_partition_keys (fst s)"
proof -
  have "dh_nodes (fst (fold (TriggerPartitionKeyDiscovery env) ts s)) = dh_nodes (fst s) \<and>
      dh_partition_keys (fst (fold (TriggerPartitionKeyDiscovery env) ts s)) = dh_partition_keys (fst s)" for ts
    by (induction ts arbitrary: s) simp_all
  then show ?thesis by (simp add: TriggerPartitionKeyDiscoveryForMissingMetadata_def Let_def)
qed

lemma NewBatchWriteQueryPlan_covers:
  assumes "ln_inv H (dh_nodes (fst s))"
  shows "plan_covers H s (NewBatchWriteQueryPlan env ops s)"
proof -
  obtain h w where t: "TriggerPartitionKeyDiscoveryForMissingMetadata env ops s = (h, w)" by force
  have h: "dh_nodes h = dh_nodes (fst s)" using Trigger_missing_frame[of env ops s] t by simp
  obtain r st where q: "QueryPlanForBatchWrite LiveNodes_source ops (dh_partition_keys h) (dh_nodes h) = (r, st)"
    by (metis surj_pair)
  note p = BatchWrite_plan[OF _ q, of H]
  have "plan_covers H s (catch_invalid_argument env (r, h\<lparr>dh_nodes := st\<rparr>, w))"
    by (rule catch_covers) (use p assms h in \<open>auto simp: plan_covers_def\<close>)
  with t q show ?thesis by (simp add: NewBatchWriteQueryPlan_def)
qed

lemma write_plans:
  assumes "ln_inv H (dh_nodes (fst s))"
  shows "plan_covers H s (PutItemQueryPlanFor env put s)" "plan_covers H s (UpdateItemQueryPlanFor env upd s)"
    "plan_covers H s (DeleteItemQueryPlanFor env del s)" "plan_covers H s (BatchWriteItemQueryPlanFor env batch s)"
  using DefaultQueryPlan_covers[OF assms] PartitionKeyQueryPlanFor_covers[OF assms] NewBatchWriteQueryPlan_covers[OF assms]
  by (simp_all add: PutItemQueryPlanFor_def UpdateItemQueryPlanFor_def DeleteItemQueryPlanFor_def BatchWriteItemQueryPlanFor_def Let_def)

section \<open>Properties\<close>

text \<open>
  \<^bold>\<open>C32\<close>: every write gets a plan. Whatever the mode, the request, its key and the metadata of its table are -
  known or not, a key of an unsupported type, a missing key -, no exception leaves the routing of a put,
  update, delete or batch write: it returns a plan that hands out every active node exactly once and
  besides them only quarantined nodes, and keeps the invariant of the live nodes.
\<close>

theorem every_write_gets_a_plan:
  assumes "ln_inv H (dh_nodes (fst s))"
  shows "plan_covers H s (PutItemQueryPlanFor env put s) \<and> plan_covers H s (UpdateItemQueryPlanFor env upd s) \<and>
    plan_covers H s (DeleteItemQueryPlanFor env del s) \<and> plan_covers H s (BatchWriteItemQueryPlanFor env batch s)"
  using write_plans[OF assms] by blast

text \<open>
  \<^bold>\<open>C33\<close>: a write is routed by its key alone. When the mode routes the write by key, the key of the table is
  known and the item has a key of a supported type, the plan starts with at most one quarantined node and
  goes on with the active nodes in the order that the hash of the key value gives: neither the other
  attributes of the item nor the clock play a role.
\<close>

theorem PutItem_routed_by_key:
  assumes "ln_inv H (dh_nodes h)" "LiveNodes_GetActiveNodes (dh_nodes h) \<noteq> []"
    and "ShouldUseKeyRouteAffinityForWrite h PutItem (PutItemOptions request)"
    and "GetPartitionKeyName (dh_partition_keys h) (c_str (put_TableName request)) = key" "key \<noteq> []"
    and "map_find id (c_str key) (put_Item request) = Some value" "ToAttributeValue value = Inr v"
  shows "\<exists>plan h' xs us. PutItemQueryPlanFor env request (h, w) = (Inr plan, h', w) \<and>
    DrainPlan (QueryPlan_WithSortedSeed (SortAndDedupeNodes (LiveNodes_GetActiveNodes (dh_nodes h))) (AttributeValue_Hash v)) = Inr us \<and>
    DrainPlan plan = Inr (xs @ us) \<and> length xs \<le> 1 \<and> set xs \<subseteq> set (LiveNodes_GetQuarantinedNodes (dh_nodes h))"
proof -
  let ?t = "c_str (put_TableName request)"
  have k: "PartitionKeyOnlyAttributeMap (put_Item request) key = Inr [(key, v)]"
    using assms(6,7) by (simp add: PartitionKeyOnlyAttributeMap_def)
  have seed: "HashPartitionKey [(key, v)] ?t (dh_partition_keys h) = Inr (AttributeValue_Hash v)"
    using assms(4,5) by (simp add: HashPartitionKey_def Let_def)
  obtain p st' xs us where p: "QueryPlanForPartitionKey LiveNodes_source [(key, v)] ?t (dh_partition_keys h) (dh_nodes h) = (Inr p, st')"
    "DrainPlan (QueryPlan_WithSortedSeed (SortAndDedupeNodes (LiveNodes_GetActiveNodes (dh_nodes h))) (AttributeValue_Hash v)) = Inr us"
    "DrainPlan p = Inr (xs @ us)" "set xs \<subseteq> set (LiveNodes_GetQuarantinedNodes (dh_nodes h))" "length xs \<le> 1"
    using live.partition_key_plan[OF assms(1) seed] assms(2) by (simp only: active_source) blast
  have "PutItemQueryPlanFor env request (h, w) = (Inr p, h\<lparr>dh_nodes := st'\<rparr>, w)"
    using assms(3-5) k p(1)
    by (simp add: PutItemQueryPlanFor_def PartitionKeyQueryPlanFor_def NewPartitionKeyQueryPlan_def catch_invalid_argument_def Let_def)
  with p(2-) show ?thesis by blast
qed

text \<open>A helper over two nodes, with the key of one table known, and an environment whose clients are providers.\<close>

definition demo_helper :: "EndpointProvider DynamoDBHelper" where
  "demo_helper =
     \<lparr>dh_nodes = demo_st,
      dh_config = small_config\<lparr>cfg_key_route_affinity := KeyRouteAffinityConfig_default\<lparr>kra_mode := AnyWrite\<rparr>\<rparr>,
      dh_partition_keys = \<lparr>pkm_partition_key_by_table = [(''t'', ''id'')]\<rparr>,
      dh_in_progress = {}, dh_workers = [], dh_fixed_clients = []\<rparr>"

definition demo_aws :: "(EndpointProvider, int list) AwsEnv" where
  "demo_aws =
     \<lparr>aws_DynamoDBClient = (\<lambda>credentials provider config w. (provider, w)),
      aws_DescribeTable = (\<lambda>client table w.
        (Inr (if length w < 2 then Describe_Error ''busy'' else Described [(''r'', False), (''id'', True)]), w)),
      aws_thread = (\<lambda>w. (True, w)), aws_sleep_for = (\<lambda>t w. w @ [t]), aws_seed = (\<lambda>w. 5)\<rparr>"

definition demo_put :: PutItemRequest where
  "demo_put =
     \<lparr>put_TableName = ''t'',
      put_Item = [(''id'', \<lparr>value_GetType = NUMBER, value_GetS = [], value_GetN = ''42'', value_AccessB = []\<rparr>)],
      put_ConditionExpression = [], put_Expected = [], put_ReturnValues = NOT_SET\<rparr>"

lemma demo_helper_inv: "ln_inv {''a'', ''b''} (dh_nodes demo_helper)"
  by (simp add: demo_helper_def demo_new)

theorem every_write_gets_a_plan_witness:
  "\<exists>plan us s'. BatchWriteItemQueryPlanFor demo_aws [(''u'', [\<lparr>write_Put = Some [], write_Delete = None\<rparr>])] (demo_helper, []) = (Inr plan, s') \<and>
     DrainPlan plan = Inr us \<and> distinct us \<and> set us = {demo_a, demo_b}"
  using every_write_gets_a_plan[of "{''a'', ''b''}" "(demo_helper, [])" demo_aws] demo_helper_inv
  by (fastforce simp: plan_covers_def covers_def demo_helper_def demo_lists)

theorem PutItem_routed_by_key_witness:
  "\<exists>plan s' us. PutItemQueryPlanFor demo_aws demo_put (demo_helper, []) = (Inr plan, s') \<and> DrainPlan plan = Inr us \<and>
     DrainPlan (QueryPlan_WithSortedSeed (SortAndDedupeNodes [demo_a, demo_b]) (HashAttributeValue Number_Type ''42'')) = Inr us"
proof -
  have n: "LiveNodes_GetActiveNodes (dh_nodes demo_helper) = [demo_a, demo_b]" "LiveNodes_GetQuarantinedNodes (dh_nodes demo_helper) = []"
    by (simp_all add: demo_helper_def demo_lists)
  have a: "ShouldUseKeyRouteAffinityForWrite demo_helper PutItem (PutItemOptions demo_put)"
    by (simp add: ShouldUseKeyRouteAffinityForWrite_def demo_helper_def)
  have k: "GetPartitionKeyName (dh_partition_keys demo_helper) (c_str (put_TableName demo_put)) = ''id''"
    by (simp add: demo_helper_def demo_put_def GetPartitionKeyName_def c_str_def)
  have v: "map_find id (c_str ''id'') (put_Item demo_put) =
      Some \<lparr>value_GetType = NUMBER, value_GetS = [], value_GetN = ''42'', value_AccessB = []\<rparr>"
    by (simp add: demo_put_def c_str_def)
  have t: "ToAttributeValue \<lparr>value_GetType = NUMBER, value_GetS = [], value_GetN = ''42'', value_AccessB = []\<rparr> =
      Inr (AttributeValue_Number ''42'')" by (simp add: ToAttributeValue_def c_str_def)
  show ?thesis
    using PutItem_routed_by_key[OF demo_helper_inv _ a k _ v t, of demo_aws "[]"] n
    by (auto simp: AttributeValue_Hash_def AttributeValue_Number_def)
qed

end
