(* ===== verification/Aws_Attempts.thy ===== *)
theory Aws_Attempts
  imports Aws_Http Aws_Plans
begin

text \<open>What an attempt does: the node it goes to, which attempts count as first ones, and the headers it keeps.\<close>

section \<open>The node of an attempt\<close>

text \<open>
  What the SDK documents of a request: the setters of its URI set what the getters read and nothing
  else of it, and the operations on headers and body leave the URI alone.
\<close>

definition uri_ok :: "('q, 'p) AwsHttp \<Rightarrow> bool" where
  "uri_ok A \<longleftrightarrow>
     (\<forall>b q. uri_IsHttps A (uri_SetScheme A b q) = b) \<and>
     (\<forall>h q. uri_GetHost A (uri_SetAuthority A h q) = h \<and> uri_IsHttps A (uri_SetAuthority A h q) = uri_IsHttps A q) \<and>
     (\<forall>p q. uri_GetPort A (uri_SetPort A p q) = p \<and> uri_GetHost A (uri_SetPort A p q) = uri_GetHost A q \<and>
        uri_IsHttps A (uri_SetPort A p q) = uri_IsHttps A q) \<and>
     (\<forall>f \<in> {req_SetAcceptEncoding A, req_SetContentEncoding A, req_SetContentLength A, req_DeleteHeader A,
        req_SetHeaderValue A (HOST_HEADER A)}. \<forall>x q.
        uri_GetHost A (f x q) = uri_GetHost A q \<and> uri_GetPort A (f x q) = uri_GetPort A q \<and> uri_IsHttps A (f x q) = uri_IsHttps A q) \<and>
     (\<forall>f \<in> {req_AddContentBody A, req_BodyAfter A}. \<forall>x q.
        uri_GetHost A (f x q) = uri_GetHost A q \<and> uri_GetPort A (f x q) = uri_GetPort A q \<and> uri_IsHttps A (f x q) = uri_IsHttps A q)"

text \<open>The request is addressed to a node.\<close>

definition addressed :: "('q, 'p) AwsHttp \<Rightarrow> Url \<Rightarrow> 'q \<Rightarrow> bool" where
  "addressed A u q \<longleftrightarrow> SameEndpointHost (c_str (uri_GetHost A q)) (url_host u) \<and> uri_GetPort A q = url_port u \<and>
     uri_IsHttps A q = (url_scheme u = ''https'')"

lemma addressed_frame:
  assumes "uri_ok A"
  shows "addressed A u (req_SetAcceptEncoding A x q) = addressed A u q" "addressed A u (req_SetContentEncoding A x q) = addressed A u q"
    "addressed A u (req_SetContentLength A x q) = addressed A u q" "addressed A u (req_AddContentBody A body q) = addressed A u q"
    "addressed A u (req_DeleteHeader A x q) = addressed A u q" "addressed A u (req_SetHeaderValue A (HOST_HEADER A) x q) = addressed A u q"
    "addressed A u (req_BodyAfter A body q) = addressed A u q"
  using assms by (simp_all add: uri_ok_def addressed_def)

lemma Unbracket_Bracket: "host \<noteq> [] \<Longrightarrow> hd host \<noteq> CHR ''['' \<Longrightarrow> UnbracketHost (BracketIPv6Host host) = UnbracketHost host"
  by (auto simp: UnbracketHost_def BracketIPv6Host_def)

lemma Rewrite_addressed:
  assumes "uri_ok A" "node_url u" "CHR 0x00 \<notin> set (url_host u)"
  shows "addressed A u (RewriteRequestEndpoint A u q)"
proof -
  have "CHR 0x00 \<notin> set (BracketIPv6Host (url_host u))" using assms(3) by (simp add: BracketIPv6Host_def)
  then have c: "c_str (BracketIPv6Host (url_host u)) = BracketIPv6Host (url_host u)"
    by (simp add: c_str_def takeWhile_absent)
  show ?thesis
    unfolding RewriteRequestEndpoint_def addressed_frame(6)[OF assms(1)]
    using assms(1,2) c Unbracket_Bracket[of "url_host u"]
    by (simp add: addressed_def uri_ok_def SameEndpointHost_def AwsScheme_def node_url_def)
qed

lemma CompressAwsRequestBody_Inr:
  assumes "CompressAwsRequestBody A rc enc q = Inr q'"
  shows "q' = q \<or> (\<exists>body. q' = req_BodyAfter A body q) \<or>
    (\<exists>body len. q' = req_DeleteHeader A ''x-amz-content-sha256''
      (req_AddContentBody A body (req_SetContentLength A len (req_SetContentEncoding A (c_str enc) q))))"
proof (cases "rc = None \<or> req_GetContentBody A q = None \<or> enc = [] \<or> req_IsEventStreamRequest A q \<or>
    req_HasTransferEncoding A q \<or> req_HasContentEncoding A q")
  case True
  with assms show ?thesis by (auto simp: CompressAwsRequestBody_def split: option.splits)
next
  case False
  then obtain compressor body where cb: "rc = Some compressor" "req_GetContentBody A q = Some body" by auto
  obtain r1 b1 where p: "PrepareOriginalRequestBodyForReading body = (r1, b1)" by (metis surj_pair)
  obtain n where n: "r1 = Inr n" using assms False cb p by (cases r1) (simp_all add: CompressAwsRequestBody_def)
  obtain r2 b2 out where c: "Compressor_Compress compressor b1 n StringStream = (r2, b2, out)" by (metis prod_cases3)
  obtain yes where y: "r2 = Inr yes" using assms False cb p n c by (cases r2) (simp_all add: CompressAwsRequestBody_def)
  obtain r3 b3 where r: "RewindForReading b2 ''HTTP request body'' = (r3, b3)" by (metis surj_pair)
  obtain r4 b4 where z: "PrepareCompressedRequestBodyForReading out = (r4, b4)" by (metis surj_pair)
  from assms False cb p n c y r z show ?thesis
    by (cases r3; cases r4; cases yes) (auto simp: CompressAwsRequestBody_def)
qed

lemma prepare_addressed:
  assumes "uri_ok A" "addressed A u q" "prepare_attempt A c q = Inr q'"
  shows "addressed A u q'"
proof -
  note f = addressed_frame[OF assms(1)]
  have comp: "addressed A u q2" if "CompressAwsRequestBody A rc enc q1 = Inr q2" "addressed A u q1" for rc enc q1 q2
    using CompressAwsRequestBody_Inr[OF that(1)] that(2) by (auto simp: f)
  have "addressed A u (fold (\<lambda>(name, value) q. if ToLowerAscii (c_str name) \<notin> S then req_DeleteHeader A (c_str name) q else q) hs q1)
      = addressed A u q1" for S q1 and hs :: "(string \<times> string) list"
  proof (induction hs arbitrary: q1)
    case (Cons h hs)
    then show ?case by (cases h) (simp add: f)
  qed simp
  then have opt: "addressed A u (OptimizeRequestHeaders A policy q1) = addressed A u q1" for policy q1
    by (simp add: OptimizeRequestHeaders_def)
  have "addressed A u (if b then req_SetAcceptEncoding A x q else q)" for b x using assms(2) f(1) by simp
  with comp opt assms(3) show ?thesis by (auto simp: prepare_attempt_def Let_def rbind_eq_Inr)
qed

lemma NextNode_node:
  assumes "ln_inv H st" "NextNode env (st, w) = (Inr u, st', w')" "\<not> Url_Empty u"
  shows "u \<in> set (LiveNodes_GetNodes st)" "node_url u"
proof -
  let ?st0 = "fst (MarkActivity (env_now env w) st)"
  note k0 = keptD[OF kept_MarkActivity[OF assms(1), of "env_now env w"]]
  obtain q st1 w1 where p: "LiveNodes_ProbeDownNodes env (?st0, w) = (q, st1, w1)" by (metis prod_cases3)
  note k1 = keptD[OF kept_Probe[OF k0 p]]
  have live: "ln_live_nodes ?st0 = ln_live_nodes st" "ln_live_nodes st1 = ln_live_nodes st"
    using MarkActivity_frame(1)[of st "env_now env w"] p
    by (auto simp: same_nodes_def LiveNodes_ProbeDownNodes_def split: prod.splits)
  have pick: "v \<in> set (ln_live_nodes st2)" if "ln_inv H st2" "pick_node (LiveNodes_GetActiveNodes st2) st2 = (v, st3)" "\<not> Url_Empty v"
    for st2 v st3
    using pick_node_post(3)[OF that(1,2)] that(3) ln_inv_lists(5)[OF that(1)] by (auto split: if_splits)
  have u: "u \<in> set (ln_live_nodes st)"
    using assms(2,3) p pick[OF k0] pick[OF k1] live
    by (auto simp: NextNode_def Let_def split: if_splits sum.splits prod.splits)
  have hv: "hosts_ok H" "ValidateConfig (ln_config st) = Inr ()" "nodes_of (ln_config st) H (ln_live_nodes st)" "ln_live_nodes st \<noteq> []"
    using assms(1) by (auto simp: ln_inv_def)
  show "u \<in> set (LiveNodes_GetNodes st)" using u hv(4) by (simp add: LiveNodes_GetNodes_def)
  show "node_url u" using nodes_of_ok(2)[OF hv(1-3)] u by blast
qed

text \<open>The node selected for an attempt, and the request that goes there.\<close>

lemma SelectAttemptNode_addressed:
  assumes "uri_ok A" "ln_inv H st" "\<forall>h \<in> H. CHR 0x00 \<notin> set h" "\<not> Url_Empty u"
    and "SelectAttemptNode A env port (Some q) (st, w) = (Inr u, request, s1)"
  shows "\<exists>q1. request = Some q1 \<and> addressed A u q1 \<and>
    (\<exists>n \<in> set (LiveNodes_GetNodes st). SameEndpointHost (url_host u) (url_host n) \<and> url_port u = url_port n)"
proof -
  have ep: "IsAlternatorEndpoint A q st port" using assms(4,5) by (auto simp: SelectAttemptNode_def split: if_splits)
  show ?thesis
  proof (cases "IsFirstSdkAttempt A q \<and> \<not> SameEndpointHost (url_host (UrlFromAwsUri A q)) kEndpointOverrideHost")
    case True
    then have "u = UrlFromAwsUri A q" "request = Some q" using assms(5) ep by (auto simp: SelectAttemptNode_def)
    with True ep show ?thesis
      by (auto simp: addressed_def UrlFromAwsUri_def IsAlternatorEndpoint_def SameEndpointHost_def Let_def list_ex_iff)
  next
    case False
    obtain r st1 w1 where n: "NextNode env (st, w) = (r, st1, w1)" by (metis prod_cases3)
    have r: "r = Inr u" "request = Some (RewriteRequestEndpoint A u q)"
      using assms(4,5) ep False n by (auto simp: SelectAttemptNode_def Let_def split: sum.splits if_splits)
    note nn = NextNode_node[OF assms(2) n[unfolded r(1)] assms(4)]
    have "nodes_of (ln_config st) H (ln_live_nodes st)" "ln_live_nodes st \<noteq> []" using assms(2) by (auto simp: ln_inv_def)
    then have "url_host u \<in> H" using nn(1) by (auto simp: LiveNodes_GetNodes_def nodes_of_def node_of_def)
    then have "addressed A u (RewriteRequestEndpoint A u q)" using Rewrite_addressed[OF assms(1) nn(2)] assms(3) by blast
    with r nn(1) show ?thesis by (auto simp: SameEndpointHost_def)
  qed
qed

text \<open>
  \<^bold>\<open>C31\<close>: an attempt goes to a known node and is reported for it. Whenever an attempt returns, it has selected a
  node or none. A request for which it has selected a node is handed to the platform client addressed
  to that node, which has host and port of a node the live nodes know, and the outcome of the attempt
  is reported for it; one without a node is handed on unchanged and not reported, as is every
  request for a foreign host.
\<close>

theorem attempt_goes_to_known_node:
  assumes "uri_ok A" "ln_inv H st" "\<forall>h \<in> H. CHR 0x00 \<notin> set h"
    and "MakeRequest A env delegate c (Some q) (st, w) = (Inr response, Some request, st', w')"
  shows "\<exists>u request1 st1 w1. SelectAttemptNode A env (hc_endpoint_override_port c) (Some q) (st, w) = (Inr u, request1, st1, w1) \<and>
    (if Url_Empty u then request = Some q \<and> st' = st1
     else (\<exists>q'. request = Some q' \<and> addressed A u q') \<and>
       (\<exists>n \<in> set (LiveNodes_GetNodes st). SameEndpointHost (url_host u) (url_host n) \<and> url_port u = url_port n) \<and>
       st' = LiveNodes_ReportNodeResult (env_now env w') u (ObservationFromHttpResult A response) st1) \<and>
    (\<not> IsAlternatorEndpoint A q st (hc_endpoint_override_port c) \<longrightarrow> Url_Empty u \<and> st1 = st)"
proof -
  obtain r request1 st1 w1 where sel: "SelectAttemptNode A env (hc_endpoint_override_port c) (Some q) (st, w) = (r, request1, st1, w1)"
    by (metis prod_cases4)
  then obtain u where r: "r = Inr u" using assms(4) by (cases r) (auto simp: MakeRequest_def)
  have foreign: "\<not> IsAlternatorEndpoint A q st (hc_endpoint_override_port c) \<longrightarrow> Url_Empty u \<and> st1 = st"
    using sel r by (auto simp: SelectAttemptNode_def)
  show ?thesis
  proof (cases "Url_Empty u")
    case True
    then have "request1 = Some q" using sel r
      by (auto simp: SelectAttemptNode_def Let_def UrlFromAwsUri_def split: if_splits prod.splits sum.splits)
    with True sel r assms(4) foreign show ?thesis by (auto simp: MakeRequest_def split: prod.splits)
  next
    case False
    from SelectAttemptNode_addressed[OF assms(1-3) False sel[unfolded r]] obtain q1 where q1: "request1 = Some q1" "addressed A u q1"
      "\<exists>n \<in> set (LiveNodes_GetNodes st). SameEndpointHost (url_host u) (url_host n) \<and> url_port u = url_port n" by blast
    have "\<exists>q'. prepare_attempt A c q1 = Inr q' \<and> request = Some q' \<and>
        st' = LiveNodes_ReportNodeResult (env_now env w') u (ObservationFromHttpResult A response) st1"
      using assms(4) sel r q1(1) False
      by (cases "prepare_attempt A c q1") (auto simp: MakeRequest_def split: prod.splits sum.splits)
    with prepare_addressed[OF assms(1) q1(2)] q1(3) False sel r foreign show ?thesis by auto
  qed
qed


section \<open>First attempts\<close>

lemma digit_char_one: "n < 10 \<Longrightarrow> digit_char n = CHR ''1'' \<longleftrightarrow> n = 1"
proof
  assume "n < 10" "digit_char n = CHR ''1''"
  then have "(of_char (digit_char n) :: nat) = of_char CHR ''1''" by simp
  with \<open>n < 10\<close> show "n = 1" by simp
next
  have "digit_char 1 = CHR ''1''" by code_simp
  then show "n = 1 \<Longrightarrow> digit_char n = CHR ''1''" by (simp only:)
qed

lemma leading_one_small: "0 < n \<Longrightarrow> n < 10 \<Longrightarrow> (\<exists>k. 10 ^ k \<le> n \<and> n < 2 * 10 ^ k) \<longleftrightarrow> n = (1 :: nat)"
proof
  assume n: "0 < n" "n < 10" "\<exists>k. 10 ^ k \<le> n \<and> n < 2 * 10 ^ k"
  then obtain k where k: "10 ^ k \<le> n" "n < 2 * 10 ^ k" by blast
  moreover have "(10 :: nat) \<le> 10 ^ k" if "k \<noteq> 0" using that power_increasing[of 1 k "10 :: nat"] by simp
  ultimately have "k = 0" using n(2) by fastforce
  with n(1) k show "n = 1" by simp
qed (auto intro: exI[of _ 0])

lemma leading_one_shift:
  assumes "10 \<le> (n :: nat)"
  shows "(\<exists>k. 10 ^ k \<le> n \<and> n < 2 * 10 ^ k) \<longleftrightarrow> (\<exists>k. 10 ^ k \<le> n div 10 \<and> n div 10 < 2 * 10 ^ k)"
proof -
  have "10 ^ k \<le> n div 10 \<and> n div 10 < 2 * 10 ^ k \<longleftrightarrow> 10 ^ Suc k \<le> n \<and> n < 2 * 10 ^ Suc k" for k
    by (simp add: less_eq_div_iff_mult_less_eq div_less_iff_less_mult mult.commute)
  moreover have "\<exists>j. k = Suc j" if "n < 2 * 10 ^ k" for k using that assms by (cases k) auto
  ultimately show ?thesis by metis
qed

lemma leading_one: "0 < n \<Longrightarrow> hd (to_string n) = CHR ''1'' \<longleftrightarrow> (\<exists>k. 10 ^ k \<le> n \<and> n < 2 * 10 ^ k)"
proof (induction n rule: to_string.induct)
  case (1 n)
  show ?case
  proof (cases "n < 10")
    case True
    then show ?thesis using leading_one_small[OF 1(2)] digit_char_one by (subst to_string.simps) simp
  next
    case False
    have "hd (to_string n) = hd (to_string (n div 10))" using False by (subst to_string.simps) (simp add: hd_append)
    with 1(1)[OF False] leading_one_shift[of n] False show ?thesis by simp
  qed
qed

text \<open>
  which attempts count as the first. With the header \<open>attempt=n; max=m\<close> of the SDK, an attempt is taken for
  the first one exactly when the number begins with the digit 1: besides the first these are the
  attempts 10 to 19, 100 to 199 and so on, which therefore are not moved to another node.
\<close>

theorem IsFirstSdkAttempt_leading_digit:
  assumes "req_HasHeader A (SDK_REQUEST_HEADER A) q" "0 < n"
    and "req_GetHeaderValue A (SDK_REQUEST_HEADER A) q = ''attempt='' @ to_string n @ ''; max='' @ rest"
  shows "IsFirstSdkAttempt A q \<longleftrightarrow> (\<exists>k. 10 ^ k \<le> n \<and> n < 2 * 10 ^ k)"
proof -
  let ?header = "''attempt='' @ to_string n @ ''; max='' @ rest"
  have f: "find_sub ''attempt='' ?header = Some 0" by simp
  obtain c cs where c: "to_string n = c # cs" by (cases "to_string n") auto
  then have "is_digit c" using to_string_digits[of c n] by simp
  then have "c \<noteq> CHR '' ''" by (auto simp: is_digit_def)
  then have "dropWhile (\<lambda>c. c = CHR '' '') (drop (0 + length ''attempt='') ?header) = c # cs @ ''; max='' @ rest"
    using c by simp
  then have "IsFirstSdkAttempt A q \<longleftrightarrow> hd (to_string n) = CHR ''1''"
    using assms(1,3) f c by (simp add: IsFirstSdkAttempt_def Let_def)
  with leading_one[OF assms(2)] show ?thesis by simp
qed

section \<open>Headers\<close>

text \<open>What the SDK documents of its headers: \<open>DeleteHeader\<close> removes the headers of that name in any case.\<close>

definition delete_ok :: "('q, 'p) AwsHttp \<Rightarrow> bool" where
  "delete_ok A \<longleftrightarrow> (\<forall>name q. req_GetHeaders A (req_DeleteHeader A name q) =
     filter (\<lambda>h. ToLowerAscii (fst h) \<noteq> ToLowerAscii name) (req_GetHeaders A q))"

lemma set_NormalizeHeaderAllowlist: "NormalizeHeaderAllowlist headers = ToLowerAscii ` set headers"
proof -
  have "fold (\<lambda>header. insert (ToLowerAscii header)) hs S = ToLowerAscii ` set hs \<union> S" for hs S
    by (induction hs arbitrary: S) auto
  then show ?thesis by (simp add: NormalizeHeaderAllowlist_def)
qed

lemma Optimize_fold:
  assumes "delete_ok A" "\<forall>h \<in> set hs. c_str (fst h) = fst h"
  shows "req_GetHeaders A (fold (\<lambda>(name, value) q. if ToLowerAscii (c_str name) \<notin> S then req_DeleteHeader A (c_str name) q else q) hs q) =
    filter (\<lambda>h. \<not> (\<exists>h' \<in> set hs. ToLowerAscii (fst h') = ToLowerAscii (fst h) \<and> ToLowerAscii (fst h) \<notin> S)) (req_GetHeaders A q)"
  using assms(2)
proof (induction hs arbitrary: q)
  case (Cons h hs)
  obtain name v where h: "h = (name, v)" "c_str name = name" using Cons.prems by (cases h) auto
  let ?q = "if ToLowerAscii name \<notin> S then req_DeleteHeader A name q else q"
  have "req_GetHeaders A ?q = filter (\<lambda>h'. \<not> (ToLowerAscii name = ToLowerAscii (fst h') \<and> ToLowerAscii (fst h') \<notin> S)) (req_GetHeaders A q)"
    using assms(1) by (auto simp: delete_ok_def intro!: filter_cong filter_True[symmetric])
  with Cons.IH[of ?q] Cons.prems h show ?case by (auto simp: filter_filter intro!: filter_cong)
qed simp

text \<open>
  header optimisation. With an optimisation configured, the headers of an attempt that stay are exactly
  those whose name is, up to case, one that the optimisation allows in the context of the
  configuration, or with a request compressor one of the two headers that describe the compressed
  body; they keep their values and order.
\<close>

theorem OptimizeRequestHeaders_keeps_allowed:
  assumes "delete_ok A" "\<forall>h \<in> set (req_GetHeaders A q). c_str (fst h) = fst h"
    and "cfg_header_optimization config = Some AllowedHeaders"
  shows "req_GetHeaders A (OptimizeRequestHeaders A (BuildHeaderOptimizationPolicy A config) q) =
    filter (\<lambda>h. \<exists>a \<in> set (AllowedHeaders (HeaderOptimizationContextFromConfig config)) \<union>
        (if cfg_request_compressor config = None then {} else {CONTENT_ENCODING_HEADER A, CONTENT_LENGTH_HEADER A}).
      ToLowerAscii (fst h) = ToLowerAscii a) (req_GetHeaders A q)"
proof -
  let ?allowed = "set (AllowedHeaders (HeaderOptimizationContextFromConfig config)) \<union>
        (if cfg_request_compressor config = None then {} else {CONTENT_ENCODING_HEADER A, CONTENT_LENGTH_HEADER A})"
  have p: "BuildHeaderOptimizationPolicy A config = \<lparr>policy_enabled = True, policy_allowed_headers = ToLowerAscii ` ?allowed\<rparr>"
    using assms(3) by (simp add: BuildHeaderOptimizationPolicy_def set_NormalizeHeaderAllowlist Let_def image_Un insert_commute)
  have "req_GetHeaders A (OptimizeRequestHeaders A \<lparr>policy_enabled = True, policy_allowed_headers = S\<rparr> q) =
      filter (\<lambda>h. ToLowerAscii (fst h) \<in> S) (req_GetHeaders A q)" for S
    using Optimize_fold[OF assms(1,2), of S q] by (auto simp: OptimizeRequestHeaders_def intro!: filter_cong)
  then show ?thesis unfolding p by (auto simp: image_iff intro!: filter_cong)
qed

section \<open>A concrete request\<close>

text \<open>Requests with a scheme, host, port and headers in lower case; responses are status codes.\<close>

record DemoRequest =
  dq_https :: bool
  dq_host :: string
  dq_port :: u16
  dq_headers :: "(string \<times> string) list"
  dq_body :: "IOStream option"

definition demo_delete :: "string \<Rightarrow> DemoRequest \<Rightarrow> DemoRequest" where
  "demo_delete name q = q\<lparr>dq_headers := filter (\<lambda>h. ToLowerAscii (fst h) \<noteq> ToLowerAscii name) (dq_headers q)\<rparr>"

definition demo_set :: "string \<Rightarrow> string \<Rightarrow> DemoRequest \<Rightarrow> DemoRequest" where
  "demo_set name value q = (demo_delete name q)\<lparr>dq_headers := dq_headers (demo_delete name q) @ [(name, value)]\<rparr>"

record DemoResponse =
  dp_code :: int
  dp_headers :: "(string \<times> string) list"
  dp_body :: IOStream

definition demo_answer :: "int \<Rightarrow> DemoResponse" where
  "demo_answer code = \<lparr>dp_code = code, dp_headers = [], dp_body = StringStream\<rparr>"

definition demo_add :: "string \<Rightarrow> string \<Rightarrow> DemoResponse \<Rightarrow> DemoResponse" where
  "demo_add name value p =
     p\<lparr>dp_headers := (ToLowerAscii name, value) # filter (\<lambda>h. fst h \<noteq> ToLowerAscii name) (dp_headers p)\<rparr>"

definition demo_http :: "(DemoRequest, DemoResponse) AwsHttp" where
  "demo_http =
     \<lparr>uri_GetHost = dq_host, uri_GetPort = dq_port, uri_IsHttps = dq_https,
      uri_SetScheme = (\<lambda>b q. q\<lparr>dq_https := b\<rparr>), uri_SetAuthority = (\<lambda>h q. q\<lparr>dq_host := h\<rparr>),
      uri_SetPort = (\<lambda>p q. q\<lparr>dq_port := p\<rparr>),
      req_GetHeaders = dq_headers, req_HasHeader = (\<lambda>n q. n \<in> fst ` set (dq_headers q)),
      req_GetHeaderValue = (\<lambda>n q. the (map_of (dq_headers q) n)), req_SetHeaderValue = demo_set, req_DeleteHeader = demo_delete,
      req_SetAcceptEncoding = demo_set ''accept-encoding'', req_SetContentEncoding = demo_set ''content-encoding'',
      req_SetContentLength = demo_set ''content-length'',
      req_GetContentBody = dq_body, req_AddContentBody = (\<lambda>s q. q\<lparr>dq_body := Some s\<rparr>),
      req_BodyAfter = (\<lambda>s q. q\<lparr>dq_body := Some s\<rparr>), req_IsEventStreamRequest = (\<lambda>q. False),
      req_HasTransferEncoding = (\<lambda>q. False), req_HasContentEncoding = (\<lambda>q. False),
      rsp_HasClientError = (\<lambda>p. False), rsp_GetResponseCode = dp_code,
      rsp_HasHeader = (\<lambda>n p. map_of (dp_headers p) (ToLowerAscii n) \<noteq> None),
      rsp_GetHeader = (\<lambda>n p. the (map_of (dp_headers p) (ToLowerAscii n))), rsp_GetHeaders = dp_headers,
      rsp_GetResponseBody = dp_body, rsp_BodyAfter = (\<lambda>s p. p\<lparr>dp_body := s\<rparr>),
      StandardHttpResponse = (\<lambda>q. demo_answer 0), rsp_SetResponseCode = (\<lambda>c p. p\<lparr>dp_code := c\<rparr>), rsp_AddHeader = demo_add,
      HOST_HEADER = ''host'', SDK_REQUEST_HEADER = ''amz-sdk-request'', CONTENT_ENCODING_HEADER = ''content-encoding'',
      CONTENT_LENGTH_HEADER = ''content-length'', REQUEST_NOT_MADE = -1, NETWORK_CONNECT_TIMEOUT = 599, NETWORK_READ_TIMEOUT = 598\<rparr>"

definition demo_attempt :: "nat \<Rightarrow> string \<Rightarrow> DemoRequest" where
  "demo_attempt n host = \<lparr>dq_https = False, dq_host = host, dq_port = 1,
     dq_headers = [(''amz-sdk-request'', ''attempt='' @ to_string n @ ''; max=20''), (''x-debug'', ''1'')], dq_body = None\<rparr>"

definition demo_client :: AlternatorHttpClient where
  "demo_client =
     \<lparr>hc_endpoint_override_port = 1, hc_request_compressor = None, hc_request_content_encoding = [],
      hc_content_encoding_decoders = [], hc_accept_encoding_value = [],
      hc_header_optimization = \<lparr>policy_enabled = False, policy_allowed_headers = {}\<rparr>\<rparr>"

lemma demo_http_ok: "uri_ok demo_http" "delete_ok demo_http"
  by (simp_all add: uri_ok_def delete_ok_def demo_http_def demo_set_def demo_delete_def)

theorem IsFirstSdkAttempt_leading_digit_witness:
  "IsFirstSdkAttempt demo_http (demo_attempt 1 ''a'') \<and> \<not> IsFirstSdkAttempt demo_http (demo_attempt 2 ''a'') \<and>
   IsFirstSdkAttempt demo_http (demo_attempt 10 ''a'')"
proof -
  have h: "req_HasHeader demo_http (SDK_REQUEST_HEADER demo_http) (demo_attempt n host)"
    "req_GetHeaderValue demo_http (SDK_REQUEST_HEADER demo_http) (demo_attempt n host) = ''attempt='' @ to_string n @ ''; max='' @ ''20''"
    for n host by (simp_all add: demo_http_def demo_attempt_def)
  note f = IsFirstSdkAttempt_leading_digit[OF h(1) _ h(2)]
  have "\<not> (10 ^ k \<le> (2::nat) \<and> 2 < 2 * (10::nat) ^ k)" for k
  proof (cases "k = 0")
    case False
    then have "(10::nat) ^ 1 \<le> 10 ^ k" by (intro power_increasing) auto
    then have "\<not> (10::nat) ^ k \<le> 2" by simp
    then show ?thesis by blast
  qed simp
  then have two: "\<not> (\<exists>k. 10 ^ k \<le> (2::nat) \<and> 2 < 2 * (10::nat) ^ k)" by simp
  have one: "\<exists>k. 10 ^ k \<le> (1::nat) \<and> 1 < 2 * (10::nat) ^ k" by (rule exI[of _ 0]) simp
  have ten: "\<exists>k. 10 ^ k \<le> (10::nat) \<and> 10 < 2 * (10::nat) ^ k" by (rule exI[of _ 1]) simp
  have "IsFirstSdkAttempt demo_http (demo_attempt 1 ''a'')" by (rule f[THEN iffD2, OF _ one]) simp
  moreover have "\<not> IsFirstSdkAttempt demo_http (demo_attempt 2 ''a'')" using f[of 2 "''a''"] two by simp
  moreover have "IsFirstSdkAttempt demo_http (demo_attempt 10 ''a'')" by (rule f[THEN iffD2, OF _ ten]) simp
  ultimately show ?thesis by simp
qed

theorem OptimizeRequestHeaders_keeps_allowed_witness:
  "req_GetHeaders demo_http (OptimizeRequestHeaders demo_http
     (BuildHeaderOptimizationPolicy demo_http (small_config\<lparr>cfg_header_optimization := Some (HeaderAllowlistOptimization [''Amz-Sdk-Request''])\<rparr>))
     (demo_attempt 1 ''a'')) = [(''amz-sdk-request'', ''attempt='' @ to_string 1 @ ''; max=20'')]"
proof -
  let ?config = "small_config\<lparr>cfg_header_optimization := Some (HeaderAllowlistOptimization [''Amz-Sdk-Request''])\<rparr>"
  have l: "ToLowerAscii ''amz-sdk-request'' = ToLowerAscii ''Amz-Sdk-Request''" "ToLowerAscii ''x-debug'' \<noteq> ToLowerAscii ''Amz-Sdk-Request''"
    by code_simp+
  have h: "req_GetHeaders demo_http (demo_attempt 1 ''a'') =
      [(''amz-sdk-request'', ''attempt='' @ to_string 1 @ ''; max=20''), (''x-debug'', ''1'')]"
    by (simp add: demo_http_def demo_attempt_def)
  then have "\<forall>h \<in> set (req_GetHeaders demo_http (demo_attempt 1 ''a'')). c_str (fst h) = fst h" by (simp add: c_str_def)
  from OptimizeRequestHeaders_keeps_allowed[OF demo_http_ok(2) this, of ?config] show ?thesis
    unfolding h using l by (simp add: HeaderAllowlistOptimization_def small_config_def Config_default_def)
qed

text \<open>A second attempt for node b, which is moved to node a.\<close>

lemma demo_second_attempt:
  "IsAlternatorEndpoint demo_http (demo_attempt 2 ''b'') demo_st 1" "\<not> IsFirstSdkAttempt demo_http (demo_attempt 2 ''b'')"
proof -
  have nodes: "LiveNodes_GetNodes demo_st = [demo_a, demo_b]" by (simp add: LiveNodes_GetNodes_def demo_new)
  show "IsAlternatorEndpoint demo_http (demo_attempt 2 ''b'') demo_st 1"
    unfolding IsAlternatorEndpoint_def nodes
    by (simp add: demo_http_def demo_attempt_def demo_b_def SameEndpointHost_def c_str_def Let_def)
  have "to_string 2 = ''2''" by code_simp
  then show "\<not> IsFirstSdkAttempt demo_http (demo_attempt 2 ''b'')" by (simp add: IsFirstSdkAttempt_def demo_http_def demo_attempt_def)
qed

lemma demo_next_node: obtains st1 where "NextNode demo_env (demo_st, 0) = (Inr demo_a, st1, 0)"
  using NextNode_no_quarantine[OF demo_new(2) _ demo_lists(2), of demo_env 0] by (auto simp: demo_lists demo_new)

lemma demo_prepare: "prepare_attempt demo_http demo_client q = Inr q"
  by (simp add: prepare_attempt_def demo_client_def CompressAwsRequestBody_def OptimizeRequestHeaders_def)

theorem attempt_goes_to_known_node_witness:
  "\<exists>u request st' w'. MakeRequest demo_http demo_env (\<lambda>request w. (Inr (Some (demo_answer 200)), w)) demo_client (Some (demo_attempt 2 ''b'')) (demo_st, 0) =
      (Inr (Some (demo_answer 200)), Some (Some request), st', w') \<and> addressed demo_http u request \<and> u = demo_a"
proof -
  let ?q = "demo_attempt 2 ''b''"
  let ?d = "\<lambda>request w. (Inr (Some (demo_answer 200)) :: DemoResponse option result, w :: int)"
  obtain st1 where n: "NextNode demo_env (demo_st, 0) = (Inr demo_a, st1, 0)" using demo_next_node .
  have sel: "SelectAttemptNode demo_http demo_env 1 (Some ?q) (demo_st, 0) = (Inr demo_a, Some (RewriteRequestEndpoint demo_http demo_a ?q), st1, 0)"
    using demo_second_attempt n demo_hosts(2) by (simp add: SelectAttemptNode_def)
  obtain request st' w' where m: "MakeRequest demo_http demo_env ?d demo_client (Some ?q) (demo_st, 0) = (Inr (Some (demo_answer 200)), Some (Some request), st', w')"
    using sel demo_hosts(2) demo_prepare
    by (simp add: MakeRequest_def demo_client_def DecodeCompressedAwsResponse_def demo_answer_def demo_http_def[THEN arg_cong[of _ _ rsp_HasHeader]])
  from attempt_goes_to_known_node[OF demo_http_ok(1) demo_new(2) _ m] sel demo_hosts(2) m show ?thesis
    by (auto simp: demo_client_def)
qed


end
