(* ===== verification/Aws_Bodies.thy ===== *)
theory Aws_Bodies
  imports Aws_Attempts Http_Gzip
begin

text \<open>
  The bodies of an attempt: a request that is compressed on the way out and a response that is decoded on
  the way back, with the streams that carry them.
\<close>

section \<open>Streams\<close>

abbreviation rewound :: "IOStream \<Rightarrow> IOStream" where
  "rewound body \<equiv> body\<lparr>io_eof := False, io_fail := False, io_bad := False, io_get := 0\<rparr>"

lemma Rewind_seekable: "io_seekable body \<Longrightarrow> RewindForReading body d = (Inr (), rewound body)"
  by (simp add: RewindForReading_def io_simps)

lemma PrepareOriginal_seekable:
  "io_seekable body \<Longrightarrow> io_tells body \<Longrightarrow>
     PrepareOriginalRequestBodyForReading body = (Inr (of_nat (length (io_data body))), rewound body)"
  by (simp add: PrepareOriginalRequestBodyForReading_def Rewind_seekable io_simps)

lemma PrepareCompressed_written:
  "PrepareCompressedRequestBodyForReading (appended StringStream out) =
     (Inr (of_nat (length out)), rewound (appended StringStream out))"
  by (simp add: PrepareCompressedRequestBodyForReading_def Rewind_seekable io_simps StringStream_def)

lemma rewound_content [simp]: "io_rest (rewound s) = io_data s"
  "io_readable (s\<lparr>io_eof := False, io_fail := False, io_bad := False\<rparr>) \<longleftrightarrow> io_faulty_at s = None"
  by (simp_all add: io_rest_def io_readable_def io_good_def)

section \<open>Requests\<close>

text \<open>What the SDK documents of a request: a body and a header value that were set are the ones that are read.\<close>

definition body_ok :: "('q, 'p) AwsHttp \<Rightarrow> bool" where
  "body_ok A \<longleftrightarrow>
     (\<forall>body q. req_GetContentBody A (req_AddContentBody A body q) = Some body \<and>
        req_GetContentBody A (req_BodyAfter A body q) = Some body \<and>
        req_GetHeaderValue A (CONTENT_ENCODING_HEADER A) (req_AddContentBody A body q) = req_GetHeaderValue A (CONTENT_ENCODING_HEADER A) q \<and>
        req_GetHeaderValue A (CONTENT_LENGTH_HEADER A) (req_AddContentBody A body q) = req_GetHeaderValue A (CONTENT_LENGTH_HEADER A) q) \<and>
     (\<forall>v q. req_GetHeaderValue A (CONTENT_ENCODING_HEADER A) (req_SetContentEncoding A v q) = v \<and>
        req_GetHeaderValue A (CONTENT_LENGTH_HEADER A) (req_SetContentLength A v q) = v \<and>
        req_GetHeaderValue A (CONTENT_ENCODING_HEADER A) (req_SetContentLength A v q) = req_GetHeaderValue A (CONTENT_ENCODING_HEADER A) q) \<and>
     (\<forall>q. req_GetContentBody A (req_DeleteHeader A ''x-amz-content-sha256'' q) = req_GetContentBody A q \<and>
        (\<forall>n \<in> {CONTENT_ENCODING_HEADER A, CONTENT_LENGTH_HEADER A}.
           req_GetHeaderValue A n (req_DeleteHeader A ''x-amz-content-sha256'' q) = req_GetHeaderValue A n q))"

text \<open>A request whose body may be compressed: it has one, of a known size, and no coding is in its way.\<close>

definition compressible :: "('q, 'p) AwsHttp \<Rightarrow> IOStream \<Rightarrow> 'q \<Rightarrow> bool" where
  "compressible A body q \<longleftrightarrow> req_GetContentBody A q = Some body \<and> io_seekable body \<and> io_tells body \<and> io_faulty_at body = None \<and>
     \<not> req_IsEventStreamRequest A q \<and> \<not> req_HasTransferEncoding A q \<and> \<not> req_HasContentEncoding A q"

lemma Gzip_encoding_value:
  assumes "GzipRequestCompressor_new zlib m = Inr compressor"
  shows "BuildRequestContentEncodingValue (Some compressor) = Inr ''gzip''" "Compressor_ContentEncoding compressor = ''gzip''"
  using assms Normalize_zlib_names(1)
  by (auto simp: GzipRequestCompressor_new_def BuildRequestContentEncodingValue_def NormalizeRequestEncoding_def Let_def split: if_splits)

text \<open>
  \<^bold>\<open>C35\<close>: a compressed request decodes back. With the gzip compressor of the configuration and its coding as the
  client computes it, a request with a body from the minimal size on, in whatever state its stream is, is
  sent with a readable body that the default decoder, chosen by the \<open>Content-Encoding\<close> the request
  then carries, turns back into the original bytes, and its \<open>Content-Length\<close> is the number of bytes sent. A smaller body is sent as
  it is, from its first byte.
\<close>

theorem compressed_request_decodes_back:
  assumes "zlib_compresses Z (MAX_WBITS Z + 16) gzip" "zlib_decompresses Z (MAX_WBITS Z + 16) gzip"
    and "GzipRequestCompressor_new (Some Z) min_size_bytes = Inr compressor"
    and "ZlibContentEncodingDecoder_default (Some Z) = Inr decoder"
    and "BuildRequestContentEncodingValue (Some compressor) = Inr encoding"
    and "body_ok A" "compressible A body q"
  shows "\<exists>q' sent. CompressAwsRequestBody A (Some compressor) encoding q = Inr q' \<and>
    req_GetContentBody A q' = Some sent \<and> io_readable sent \<and>
    (if of_nat (length (io_data body)) < min_size_bytes then io_rest sent = io_data body
     else length (io_rest sent) < 2 ^ 32 \<longrightarrow>
       req_GetHeaderValue A (CONTENT_LENGTH_HEADER A) q' = to_string (length (io_rest sent)) \<and>
       DecodeHttpResponseBody (io_rest sent) (req_GetHeaderValue A (CONTENT_ENCODING_HEADER A) q') [Some decoder] = Inr (io_data body))"
proof -
  note enc = Gzip_encoding_value[OF assms(3)]
  have e: "encoding = ''gzip''" using assms(5) enc(1) by simp
  have c: "compressor = \<lparr>Compressor_ContentEncoding = ''gzip'',
      Compressor_Compress = GzipRequestCompressor_Compress (Some Z) min_size_bytes\<rparr>"
    using assms(3) by (simp add: GzipRequestCompressor_new_def)
  have b: "io_seekable body" "io_tells body" "io_faulty_at body = None" using assms(7) by (simp_all add: compressible_def)
  let ?n = "of_nat (length (io_data body)) :: u64"
  note q = assms(7)[unfolded compressible_def] and p = PrepareOriginal_seekable[OF b(1,2)]
  show ?thesis
  proof (cases "?n < min_size_bytes")
    case True
    have "CompressAwsRequestBody A (Some compressor) encoding q = Inr (req_BodyAfter A (rewound body) q)"
      using q p True b(1) by (simp add: CompressAwsRequestBody_def e c GzipRequestCompressor_Compress_def Rewind_seekable)
    with True b assms(6) show ?thesis by (auto simp: body_ok_def intro!: exI[of _ "rewound body"])
  next
    case False
    obtain out where z: "GzipRequestCompressor_Compress (Some Z) min_size_bytes (rewound body) ?n StringStream =
        (Inr True, drained (rewound body), appended StringStream out)" "gzip out (io_data body)"
      using Gzip_Compress_finishes[OF assms(1), of "rewound body" StringStream min_size_bytes ?n] b(3) False
      by (auto simp: not_less)
    let ?sent = "rewound (appended StringStream out)"
    let ?q = "req_DeleteHeader A ''x-amz-content-sha256'' (req_AddContentBody A ?sent
        (req_SetContentLength A (to_string (unat (of_nat (length out) :: u64))) (req_SetContentEncoding A (c_str ''gzip'') q)))"
    have "CompressAwsRequestBody A (Some compressor) encoding q = Inr ?q"
      using q p z(1) PrepareCompressed_written[of out] by (simp add: CompressAwsRequestBody_def e c)
    moreover have "req_GetContentBody A ?q = Some ?sent" "req_GetHeaderValue A (CONTENT_ENCODING_HEADER A) ?q = ''gzip''"
      "req_GetHeaderValue A (CONTENT_LENGTH_HEADER A) ?q = to_string (unat (of_nat (length out) :: u64))"
      using assms(6) by (simp_all add: body_ok_def c_str_def)
    moreover have "io_rest ?sent = out" "io_readable ?sent"
      by (simp_all add: StringStream_def io_rest_def io_readable_def io_good_def)
    moreover have "unat (of_nat (length out) :: u64) = length out \<and> fst (InflateBody Z out (MAX_WBITS Z + 16)) = Inr (io_data body)"
      if "length out < 2 ^ 32"
      using InflateBody_contract[OF assms(2) z(2) _ that] that by (simp add: unat_of_nat)
    ultimately show ?thesis
      using False by (intro exI[of _ ?q] exI[of _ ?sent]) (auto simp: DecodeHttpResponseBody_gzip[OF assms(4)] Zlib_Decode_gzip)
  qed
qed

lemma demo_body_ok: "body_ok demo_http"
proof -
  have n: "ToLowerAscii ''x-amz-content-sha256'' \<noteq> ToLowerAscii ''content-encoding''"
    "ToLowerAscii ''x-amz-content-sha256'' \<noteq> ToLowerAscii ''content-length''"
    "ToLowerAscii ''content-encoding'' \<noteq> ToLowerAscii ''content-length''" by code_simp+
  have other: "map_of (filter (\<lambda>h. ToLowerAscii (fst h) \<noteq> ToLowerAscii n) hs) m = map_of hs m" if "ToLowerAscii n \<noteq> ToLowerAscii m"
    for n m and hs :: "(string \<times> string) list"
    using that by (induction hs) auto
  have same: "map_of (filter (\<lambda>h. ToLowerAscii (fst h) \<noteq> ToLowerAscii n) hs) n = None" for n and hs :: "(string \<times> string) list"
    by (induction hs) auto
  show ?thesis
    unfolding body_ok_def using n other[OF n(1)] other[OF n(2)] other[OF n(3)[symmetric]]
    by (simp add: demo_http_def demo_set_def demo_delete_def same map_add_def split: option.split)
qed

theorem compressed_request_decodes_back_witness:
  "\<exists>compressor decoder q' sent. GzipRequestCompressor_new (Some demo_zlib) 2 = Inr compressor \<and>
     ZlibContentEncodingDecoder_default (Some demo_zlib) = Inr decoder \<and>
     CompressAwsRequestBody demo_http (Some compressor) ''gzip''
       ((demo_attempt 1 ''a'')\<lparr>dq_body := Some (StringStream\<lparr>io_data := ''body'', io_get := 4, io_eof := True\<rparr>)\<rparr>) = Inr q' \<and>
     dq_body q' = Some sent \<and>
     (length (io_rest sent) < 2 ^ 32 \<longrightarrow>
      DecodeHttpResponseBody (io_rest sent) (req_GetHeaderValue demo_http ''content-encoding'' q') [Some decoder] = Inr ''body'')"
proof -
  let ?body = "StringStream\<lparr>io_data := ''body'', io_get := 4, io_eof := True\<rparr>"
  let ?q = "(demo_attempt 1 ''a'')\<lparr>dq_body := Some ?body\<rparr>"
  obtain compressor decoder where cd: "GzipRequestCompressor_new (Some demo_zlib) 2 = Inr compressor"
    "ZlibContentEncodingDecoder_default (Some demo_zlib) = Inr decoder"
    by (simp add: GzipRequestCompressor_new_def Zlib_decoder_default)
  have "compressible demo_http ?body ?q" by (simp add: compressible_def demo_http_def StringStream_def)
  from compressed_request_decodes_back[OF demo_zlib_compresses demo_zlib_decompresses cd Gzip_encoding_value(1)[OF cd(1)] demo_body_ok this]
  obtain q' sent where "CompressAwsRequestBody demo_http (Some compressor) ''gzip'' ?q = Inr q'"
    "req_GetContentBody demo_http q' = Some sent"
    "length (io_rest sent) < 2 ^ 32 \<longrightarrow>
       DecodeHttpResponseBody (io_rest sent) (req_GetHeaderValue demo_http (CONTENT_ENCODING_HEADER demo_http) q') [Some decoder] = Inr ''body''"
    by auto
  moreover have "req_GetContentBody demo_http = dq_body" "CONTENT_ENCODING_HEADER demo_http = ''content-encoding''"
    by (simp_all add: demo_http_def)
  ultimately show ?thesis using cd by auto
qed

section \<open>Responses\<close>

text \<open>
  What the SDK documents of a response: a new one has no headers and an empty stream for its body, what is
  set is read, and header names are compared without case.
\<close>

definition response_ok :: "('q, 'p) AwsHttp \<Rightarrow> bool" where
  "response_ok A \<longleftrightarrow>
     (\<forall>q. io_writable (rsp_GetResponseBody A (StandardHttpResponse A q)) \<and> io_data (rsp_GetResponseBody A (StandardHttpResponse A q)) = [] \<and>
        io_seekable (rsp_GetResponseBody A (StandardHttpResponse A q)) \<and>
        io_faulty_at (rsp_GetResponseBody A (StandardHttpResponse A q)) = None \<and>
        (\<forall>n. \<not> rsp_HasHeader A n (StandardHttpResponse A q))) \<and>
     (\<forall>c p. rsp_GetResponseCode A (rsp_SetResponseCode A c p) = c \<and>
        rsp_GetResponseBody A (rsp_SetResponseCode A c p) = rsp_GetResponseBody A p \<and>
        (\<forall>n. rsp_HasHeader A n (rsp_SetResponseCode A c p) = rsp_HasHeader A n p)) \<and>
     (\<forall>n v p. rsp_GetResponseCode A (rsp_AddHeader A n v p) = rsp_GetResponseCode A p \<and>
        rsp_GetResponseBody A (rsp_AddHeader A n v p) = rsp_GetResponseBody A p \<and>
        (\<forall>m. rsp_HasHeader A m (rsp_AddHeader A n v p) \<longleftrightarrow> ToLowerAscii m = ToLowerAscii n \<or> rsp_HasHeader A m p) \<and>
        (\<forall>m. rsp_GetHeader A m (rsp_AddHeader A n v p) = (if ToLowerAscii m = ToLowerAscii n then v else rsp_GetHeader A m p))) \<and>
     (\<forall>b p. rsp_GetResponseBody A (rsp_BodyAfter A b p) = b \<and> rsp_GetResponseCode A (rsp_BodyAfter A b p) = rsp_GetResponseCode A p \<and>
        (\<forall>n. rsp_HasHeader A n (rsp_BodyAfter A b p) = rsp_HasHeader A n p \<and> rsp_GetHeader A n (rsp_BodyAfter A b p) = rsp_GetHeader A n p)) \<and>
     ToLowerAscii (CONTENT_ENCODING_HEADER A) = CONTENT_ENCODING_HEADER A \<and>
     ToLowerAscii (CONTENT_LENGTH_HEADER A) = CONTENT_LENGTH_HEADER A \<and> CONTENT_ENCODING_HEADER A \<noteq> CONTENT_LENGTH_HEADER A"

definition copy_headers :: "('q, 'p) AwsHttp \<Rightarrow> (string \<times> string) list \<Rightarrow> 'p \<Rightarrow> 'p" where
  "copy_headers A hs p0 = fold (\<lambda>(name, value) p.
     (let header_name = ToLowerAscii (c_str name) in
      if header_name = CONTENT_ENCODING_HEADER A \<or> header_name = CONTENT_LENGTH_HEADER A then p
      else rsp_AddHeader A name value p)) hs p0"

lemma copy_headers:
  assumes "response_ok A" "\<forall>h \<in> set hs. c_str (fst h) = fst h"
  shows "rsp_GetResponseCode A (copy_headers A hs p) = rsp_GetResponseCode A p"
    "rsp_GetResponseBody A (copy_headers A hs p) = rsp_GetResponseBody A p"
    "rsp_HasHeader A m (copy_headers A hs p) \<longleftrightarrow> rsp_HasHeader A m p \<or>
       ToLowerAscii m \<in> ToLowerAscii ` fst ` set hs - {CONTENT_ENCODING_HEADER A, CONTENT_LENGTH_HEADER A}"
    "ToLowerAscii m \<notin> ToLowerAscii ` fst ` set hs \<Longrightarrow> rsp_GetHeader A m (copy_headers A hs p) = rsp_GetHeader A m p"
proof -
  have "rsp_GetResponseCode A (copy_headers A hs p) = rsp_GetResponseCode A p \<and>
    rsp_GetResponseBody A (copy_headers A hs p) = rsp_GetResponseBody A p \<and>
    (rsp_HasHeader A m (copy_headers A hs p) \<longleftrightarrow> rsp_HasHeader A m p \<or>
       ToLowerAscii m \<in> ToLowerAscii ` fst ` set hs - {CONTENT_ENCODING_HEADER A, CONTENT_LENGTH_HEADER A}) \<and>
    (ToLowerAscii m \<notin> ToLowerAscii ` fst ` set hs \<longrightarrow> rsp_GetHeader A m (copy_headers A hs p) = rsp_GetHeader A m p)"
    using assms(2)
  proof (induction hs arbitrary: p)
    case (Cons h hs)
    obtain n v where h: "h = (n, v)" by (cases h)
    let ?p = "if ToLowerAscii n = CONTENT_ENCODING_HEADER A \<or> ToLowerAscii n = CONTENT_LENGTH_HEADER A then p else rsp_AddHeader A n v p"
    have "copy_headers A (h # hs) p = copy_headers A hs ?p" using Cons.prems h by (simp add: copy_headers_def Let_def)
    moreover have "\<forall>h \<in> set hs. c_str (fst h) = fst h" using Cons.prems by simp
    note Cons.IH[OF this, of ?p]
    ultimately show ?case using assms(1) h unfolding response_ok_def by auto
  qed (simp add: copy_headers_def)
  then show "rsp_GetResponseCode A (copy_headers A hs p) = rsp_GetResponseCode A p"
    "rsp_GetResponseBody A (copy_headers A hs p) = rsp_GetResponseBody A p"
    "rsp_HasHeader A m (copy_headers A hs p) \<longleftrightarrow> rsp_HasHeader A m p \<or>
       ToLowerAscii m \<in> ToLowerAscii ` fst ` set hs - {CONTENT_ENCODING_HEADER A, CONTENT_LENGTH_HEADER A}"
    "ToLowerAscii m \<notin> ToLowerAscii ` fst ` set hs \<Longrightarrow> rsp_GetHeader A m (copy_headers A hs p) = rsp_GetHeader A m p"
    by blast+
qed

lemma copy_headers_value:
  assumes "response_ok A" "\<forall>h \<in> set hs. c_str (fst h) = fst h" "distinct (map (ToLowerAscii \<circ> fst) hs)"
    and "(n, v) \<in> set hs" "ToLowerAscii n \<noteq> CONTENT_ENCODING_HEADER A" "ToLowerAscii n \<noteq> CONTENT_LENGTH_HEADER A"
  shows "rsp_GetHeader A n (copy_headers A hs p) = v"
  using assms(2-4)
proof (induction hs arbitrary: p)
  case (Cons h hs)
  have nul: "\<forall>h \<in> set hs. c_str (fst h) = fst h" using Cons.prems(1) by simp
  show ?case
  proof (cases "h = (n, v)")
    case True
    then have "copy_headers A (h # hs) p = copy_headers A hs (rsp_AddHeader A n v p)"
      using assms(5,6) Cons.prems(1) by (simp add: copy_headers_def Let_def)
    moreover have "ToLowerAscii n \<notin> ToLowerAscii ` fst ` set hs" using Cons.prems(2) True by (auto simp: image_image)
    moreover have "rsp_GetHeader A n (rsp_AddHeader A n v p) = v" using assms(1) by (simp add: response_ok_def)
    ultimately show ?thesis using copy_headers(4)[OF assms(1) nul] by simp
  next
    case False
    have "copy_headers A (h # hs) p = copy_headers A hs (copy_headers A [h] p)" by (simp add: copy_headers_def)
    with False Cons.IH[OF nul] Cons.prems(2,3) show ?thesis by auto
  qed
qed simp

lemma ReadResponseBody_seekable:
  "io_seekable body \<Longrightarrow> io_faulty_at body = None \<Longrightarrow> fst (ReadResponseBody body) = Inr (io_data body)"
  by (simp add: ReadResponseBody_def io_read_all_def io_simps)

lemma WriteResponseBody_fresh:
  assumes "io_writable body" "io_data body = []" "io_seekable body" "io_faulty_at body = None"
  shows "io_rest (WriteResponseBody body v) = v" "io_readable (WriteResponseBody body v)"
proof -
  have "(if v \<noteq> [] then io_write v body else body) = body\<lparr>io_data := v, io_put := length v\<rparr>"
    using assms by (simp add: io_write_writable io_writable_def)
  then have "WriteResponseBody body v = rewound (body\<lparr>io_data := v, io_put := length v\<rparr>)"
    using assms(3) by (simp add: WriteResponseBody_def io_simps)
  with assms(4) show "io_rest (WriteResponseBody body v) = v" "io_readable (WriteResponseBody body v)" by simp_all
qed

text \<open>
  \<^bold>\<open>C36\<close>: a compressed response is replaced by what it means. A response labelled \<open>gzip\<close> becomes a new one with the
  same code, whose body is the content, readable from its first byte; its headers are those of the
  response without the two that described the compressed body, with a \<open>Content-Length\<close> for the content.
\<close>

theorem gzip_response_replaced:
  assumes "zlib_decompresses Z (MAX_WBITS Z + 16) gzip" "gzip e content" "length e < 2 ^ 32"
    and "ZlibContentEncodingDecoder_default (Some Z) = Inr decoder" "response_ok A"
    and "\<not> rsp_HasClientError A p" "rsp_HasHeader A (CONTENT_ENCODING_HEADER A) p"
    and "rsp_GetHeader A (CONTENT_ENCODING_HEADER A) p = ''gzip''" "\<forall>h \<in> set (rsp_GetHeaders A p). c_str (fst h) = fst h"
    and "rsp_GetResponseBody A p = body" "io_data body = e" "io_seekable body" "io_faulty_at body = None"
  shows "\<exists>p'. DecodeCompressedAwsResponse A [Some decoder] (Some q) (Some p) = Inr (Some p') \<and>
    rsp_GetResponseCode A p' = rsp_GetResponseCode A p \<and>
    io_readable (rsp_GetResponseBody A p') \<and> io_rest (rsp_GetResponseBody A p') = content \<and>
    rsp_GetHeader A (CONTENT_LENGTH_HEADER A) p' = to_string (length content) \<and>
    (\<forall>m. rsp_HasHeader A m p' \<longleftrightarrow> ToLowerAscii m = CONTENT_LENGTH_HEADER A \<or>
       ToLowerAscii m \<in> ToLowerAscii ` fst ` set (rsp_GetHeaders A p) - {CONTENT_ENCODING_HEADER A, CONTENT_LENGTH_HEADER A}) \<and>
    (distinct (map (ToLowerAscii \<circ> fst) (rsp_GetHeaders A p)) \<longrightarrow>
     (\<forall>(n, v) \<in> set (rsp_GetHeaders A p). ToLowerAscii n \<noteq> CONTENT_ENCODING_HEADER A \<and> ToLowerAscii n \<noteq> CONTENT_LENGTH_HEADER A \<longrightarrow>
        rsp_GetHeader A n p' = v))"
proof -
  let ?hs = "rsp_GetHeaders A p" and ?p0 = "rsp_SetResponseCode A (rsp_GetResponseCode A p) (StandardHttpResponse A q)"
  let ?p1 = "copy_headers A ?hs ?p0"
  let ?p2 = "rsp_AddHeader A (CONTENT_LENGTH_HEADER A) (to_string (length content)) ?p1"
  let ?p3 = "rsp_BodyAfter A (WriteResponseBody (rsp_GetResponseBody A ?p2) content) ?p2"
  have "fst (InflateBody Z e (MAX_WBITS Z + 16)) = Inr content"
    using InflateBody_contract[OF assms(1,2) _ assms(3)] by simp
  then have "DecodeHttpResponseBody e ''gzip'' [Some decoder] = Inr content"
    by (simp add: DecodeHttpResponseBody_gzip[OF assms(4)] Zlib_Decode_gzip)
  moreover have "fst (ReadResponseBody body) = Inr e" using ReadResponseBody_seekable[OF assms(12,13)] assms(11) by simp
  ultimately have d: "DecodeCompressedAwsResponse A [Some decoder] (Some q) (Some p) = Inr (Some ?p3)"
    using assms(6-8,10) by (simp add: DecodeCompressedAwsResponse_def c_str_def copy_headers_def Let_def)
  note r = assms(5)[unfolded response_ok_def] and ch = copy_headers[OF assms(5,9)]
  have "rsp_GetResponseBody A ?p2 = rsp_GetResponseBody A (StandardHttpResponse A q)" using r ch(2) by simp
  with WriteResponseBody_fresh[of "rsp_GetResponseBody A (StandardHttpResponse A q)" content] r
  have "io_readable (rsp_GetResponseBody A ?p3)" "io_rest (rsp_GetResponseBody A ?p3) = content" by simp_all
  moreover have "rsp_GetResponseCode A ?p3 = rsp_GetResponseCode A p" "rsp_GetHeader A (CONTENT_LENGTH_HEADER A) ?p3 = to_string (length content)"
    using r ch(1) by simp_all
  moreover have "rsp_HasHeader A m ?p3 \<longleftrightarrow> ToLowerAscii m = CONTENT_LENGTH_HEADER A \<or>
      ToLowerAscii m \<in> ToLowerAscii ` fst ` set ?hs - {CONTENT_ENCODING_HEADER A, CONTENT_LENGTH_HEADER A}" for m
    using r ch(3)[of m ?p0] by simp
  moreover have "rsp_GetHeader A n ?p3 = v"
    if "distinct (map (ToLowerAscii \<circ> fst) ?hs)" "(n, v) \<in> set ?hs" "ToLowerAscii n \<noteq> CONTENT_ENCODING_HEADER A"
      "ToLowerAscii n \<noteq> CONTENT_LENGTH_HEADER A" for n v
    using copy_headers_value[OF assms(5,9) that, of ?p0] that(4) r by simp
  ultimately show ?thesis using d by (intro exI[of _ ?p3]) blast
qed

lemma demo_answer_ok: "response_ok demo_http"
proof -
  have "ToLowerAscii (ToLowerAscii n) = ToLowerAscii n" for n by (simp add: ToLowerAscii_def)
  moreover have "map_of (filter (\<lambda>h. fst h \<noteq> n) hs) m = map_of hs m" if "n \<noteq> m" for n m and hs :: "(string \<times> string) list"
    using that by (induction hs) auto
  moreover have "ToLowerAscii ''content-encoding'' = ''content-encoding''" "ToLowerAscii ''content-length'' = ''content-length''" by code_simp+
  ultimately show ?thesis
    by (auto simp: response_ok_def demo_http_def demo_answer_def demo_add_def StringStream_def io_writable_def io_good_def)
qed

theorem gzip_response_replaced_witness:
  "\<exists>decoder p'. ZlibContentEncodingDecoder_default (Some demo_zlib) = Inr decoder \<and>
     DecodeCompressedAwsResponse demo_http [Some decoder] (Some (demo_attempt 1 ''a''))
       (Some \<lparr>dp_code = 200, dp_headers = [(''content-encoding'', ''gzip''), (''x-id'', ''7'')],
              dp_body = StringStream\<lparr>io_data := demo_code ''body'' @ [CHR 0x00]\<rparr>\<rparr>) = Inr (Some p') \<and>
     dp_code p' = 200 \<and> io_rest (dp_body p') = ''body''"
proof -
  let ?e = "demo_code ''body'' @ [CHR 0x00]"
  let ?p = "\<lparr>dp_code = 200, dp_headers = [(''content-encoding'', ''gzip''), (''x-id'', ''7'')], dp_body = StringStream\<lparr>io_data := ?e\<rparr>\<rparr>"
  obtain decoder where d: "ZlibContentEncodingDecoder_default (Some demo_zlib) = Inr decoder"
    by (simp add: Zlib_decoder_default)
  have l: "ToLowerAscii ''content-encoding'' = ''content-encoding''" by code_simp
  have e: "demo_decodes ?e ''body''" "length ?e < 2 ^ 32" by (simp_all add: demo_decodes_def demo_code_def)
  have p: "\<not> rsp_HasClientError demo_http ?p" "rsp_HasHeader demo_http (CONTENT_ENCODING_HEADER demo_http) ?p"
    "rsp_GetHeader demo_http (CONTENT_ENCODING_HEADER demo_http) ?p = ''gzip''" "\<forall>h \<in> set (rsp_GetHeaders demo_http ?p). c_str (fst h) = fst h"
    "rsp_GetResponseBody demo_http ?p = StringStream\<lparr>io_data := ?e\<rparr>"
    using l by (simp_all add: demo_http_def c_str_def)
  have b: "io_data (StringStream\<lparr>io_data := ?e\<rparr>) = ?e" "io_seekable (StringStream\<lparr>io_data := ?e\<rparr>)"
    "io_faulty_at (StringStream\<lparr>io_data := ?e\<rparr>) = None" by (simp_all add: StringStream_def)
  obtain p' where "DecodeCompressedAwsResponse demo_http [Some decoder] (Some (demo_attempt 1 ''a'')) (Some ?p) = Inr (Some p')"
    "rsp_GetResponseCode demo_http p' = rsp_GetResponseCode demo_http ?p" "io_rest (rsp_GetResponseBody demo_http p') = ''body''"
    using gzip_response_replaced[OF demo_zlib_decompresses e d demo_answer_ok p b, of "demo_attempt 1 ''a''"] by blast
  moreover have "rsp_GetResponseCode demo_http = dp_code" "rsp_GetResponseBody demo_http = dp_body" by (simp_all add: demo_http_def)
  ultimately show ?thesis using d by auto
qed

end
