(* ===== verification/Aws_Clients.thy ===== *)
theory Aws_Clients
  imports Aws_Plans
begin

text \<open>The clients a helper keeps per node, and the endpoints that writes are sent to.\<close>

text \<open>
  The endpoint a client resolves to is that of the provider it was made with; every client kept for a
  node was made for a node with the same string form.
\<close>

definition provider_ok :: "('c, 'w) AwsEnv \<Rightarrow> ('c \<Rightarrow> EndpointProvider) \<Rightarrow> bool" where
  "provider_ok env provider \<longleftrightarrow>
     (\<forall>credentials p config w. provider (fst (aws_DynamoDBClient env credentials p config w)) = p)"

definition sends_to :: "('c \<Rightarrow> EndpointProvider) \<Rightarrow> 'c \<Rightarrow> Url \<Rightarrow> bool" where
  "sends_to provider client u \<longleftrightarrow>
     (\<exists>v. provider client = FixedEndpointProvider v \<and> ResolveFixedEndpoint v = Some (c_str (Url_ToString u)))"

definition clients_ok :: "('c \<Rightarrow> EndpointProvider) \<Rightarrow> 'c DynamoDBHelper \<Rightarrow> bool" where
  "clients_ok provider h \<longleftrightarrow> map_invar Url_ToString (dh_fixed_clients h) \<and>
     (\<forall>(node, client) \<in> set (dh_fixed_clients h). sends_to provider client node)"

lemma sends_to_cong: "Url_ToString u = Url_ToString v \<Longrightarrow> sends_to provider client u = sends_to provider client v"
  by (simp add: sends_to_def)

lemma new_client:
  assumes "provider_ok env provider" "NewDynamoDBWithEndpointProvider env p (h, w) = (client, h', w')"
  shows "provider client = p" "h' = h"
proof -
  obtain credentials config where "aws_DynamoDBClient env credentials p config w = (client, w')" "h' = h"
    using assms(2) by (auto simp: NewDynamoDBWithEndpointProvider_def Let_def split: prod.splits)
  with assms(1) show "provider client = p" "h' = h" by (metis provider_ok_def fst_conv)+
qed

lemma NewDynamoDBForNode_client:
  assumes "provider_ok env provider" "clients_ok provider h" "\<not> Url_Empty u"
    and "NewDynamoDBForNode env u (h, w) = (client, h', w')"
  shows "sends_to provider client u" "clients_ok provider h'" "dh_nodes h' = dh_nodes h"
    "map_find Url_ToString u (dh_fixed_clients h') = Some client"
proof -
  have "sends_to provider client u \<and> clients_ok provider h' \<and> dh_nodes h' = dh_nodes h \<and>
      map_find Url_ToString u (dh_fixed_clients h') = Some client"
  proof (cases "map_find Url_ToString u (dh_fixed_clients h)")
    case (Some c)
    moreover from Some obtain n where "(n, c) \<in> set (dh_fixed_clients h)" "Url_ToString n = Url_ToString u"
      using assms(2) map_find_eq_Some[of Url_ToString "dh_fixed_clients h" u c] by (auto simp: clients_ok_def)
    ultimately show ?thesis
      using assms(2,4) sends_to_cong[of n u provider c] by (auto simp: NewDynamoDBForNode_def clients_ok_def)
  next
    case None
    obtain h1 w1 client1 where c: "NewDynamoDBWithEndpointProvider env (FixedEndpointProvider u) (h, w) = (client1, h1, w1)"
      by (metis prod_cases3)
    note n = new_client[OF assms(1) c]
    have h': "h' = h\<lparr>dh_fixed_clients := map_emplace Url_ToString u client (dh_fixed_clients h)\<rparr>" "client1 = client"
      using assms(4) None c n(2) by (auto simp: NewDynamoDBForNode_def)
    have "sends_to provider client u" using n(1) h'(2) assms(3) by (simp add: sends_to_def ResolveFixedEndpoint_def)
    then show ?thesis
      using assms(2) h' None by (auto simp: clients_ok_def map_invar_emplace map_find_emplace dest: set_map_emplace)
  qed
  then show "sends_to provider client u" "clients_ok provider h'" "dh_nodes h' = dh_nodes h"
    "map_find Url_ToString u (dh_fixed_clients h') = Some client" by blast+
qed

text \<open>A call returned a client that sends to a node of the plan, or to whichever node comes next when there is none.\<close>

definition client_ok ::
  "string set \<Rightarrow> ('c \<Rightarrow> EndpointProvider) \<Rightarrow> AlternatorLiveNodes \<Rightarrow> 'c result \<times> ('c, 'w) helper_state \<Rightarrow> bool" where
  "client_ok H provider st = (\<lambda>(r, h', w').
     (\<exists>client. r = Inr client \<and>
        (if LiveNodes_GetActiveNodes st = [] \<and> provider client = AlternatorEndpointProvider then True
         else \<exists>u \<in> set (LiveNodes_GetActiveNodes st) \<union> set (LiveNodes_GetQuarantinedNodes st).
           sends_to provider client u \<and> map_find Url_ToString u (dh_fixed_clients h') = Some client)) \<and>
     clients_ok provider h' \<and> ln_inv H (dh_nodes h') \<and> same_nodes st (dh_nodes h'))"

lemma DrainPlan_head:
  assumes "DrainPlan plan = Inr us"
  shows "\<exists>node plan'. QueryPlan_Next plan = Inr (node, plan') \<and> (if Url_Empty node then us = [] else \<exists>vs. us = node # vs)"
proof (cases "QueryPlan_Next plan")
  case (Inl e)
  with assms show ?thesis by (subst (asm) DrainPlan.simps) simp
next
  case (Inr np)
  then obtain node plan' where "QueryPlan_Next plan = Inr (node, plan')" by (cases np) auto
  with assms show ?thesis
    by (subst (asm) DrainPlan.simps) (auto split: sum.splits if_splits intro!: exI[of _ node] exI[of _ plan'])
qed

lemma plan_client_ok:
  assumes "plan_covers H s (r, h1, w1)" "provider_ok env provider" "clients_ok provider h1"
  shows "client_ok H provider (dh_nodes (fst s)) (client_for env (r, h1, w1))"
proof -
  let ?st = "dh_nodes (fst s)"
  obtain plan us where p: "r = Inr plan" "DrainPlan plan = Inr us" "covers ?st us" "ln_inv H (dh_nodes h1)" "same_nodes ?st (dh_nodes h1)"
    using assms(1) by (auto simp: plan_covers_def)
  obtain node plan' where n: "QueryPlan_Next plan = Inr (node, plan')" "if Url_Empty node then us = [] else \<exists>vs. us = node # vs"
    using DrainPlan_head[OF p(2)] by blast
  show ?thesis
  proof (cases "Url_Empty node")
    case True
    obtain client h2 w' where c: "NewDynamoDB env (h1, w1) = (client, h2, w')" by (metis prod_cases3)
    note n2 = new_client[OF assms(2) c[unfolded NewDynamoDB_def]]
    have "LiveNodes_GetActiveNodes ?st = []" using p(3) n(2) True by (simp add: covers_def)
    with p n True c n2 assms(3) show ?thesis by (simp add: client_ok_def client_for_def NewDynamoDBForQueryPlan_def)
  next
    case False
    obtain client h2 w2 where c: "NewDynamoDBForNode env node (h1, w1) = (client, h2, w2)" by (metis prod_cases3)
    note d = NewDynamoDBForNode_client[OF assms(2,3) False c]
    have "node \<in> set (LiveNodes_GetActiveNodes ?st) \<union> set (LiveNodes_GetQuarantinedNodes ?st)"
      using n(2) False p(3) by (auto simp: covers_def)
    with p n False c d show ?thesis by (auto simp: client_ok_def client_for_def NewDynamoDBForQueryPlan_def sends_to_def)
  qed
qed

text \<open>The plans leave the clients alone.\<close>

lemma fixed_clients_frames [simp]:
  "dh_fixed_clients (fst (TriggerPartitionKeyDiscovery env table s)) = dh_fixed_clients (fst s)"
  "dh_fixed_clients (fst (snd (DefaultQueryPlan env s))) = dh_fixed_clients (fst s)"
  "dh_fixed_clients (fst (snd (catch_invalid_argument env x))) = dh_fixed_clients (fst (snd x))"
proof -
  show "dh_fixed_clients (fst (TriggerPartitionKeyDiscovery env table s)) = dh_fixed_clients (fst s)"
    by (auto simp: TriggerPartitionKeyDiscovery_def Trigger_begin_def Trigger_spawn_def split: option.splits prod.splits bool.splits)
  show d: "dh_fixed_clients (fst (snd (DefaultQueryPlan env s))) = dh_fixed_clients (fst s)" for s
    by (auto simp: DefaultQueryPlan_def split: prod.splits)
  show "dh_fixed_clients (fst (snd (catch_invalid_argument env x))) = dh_fixed_clients (fst (snd x))"
    by (auto simp: catch_invalid_argument_def d split: prod.splits sum.splits exn.splits)
qed

lemma NewPartitionKeyQueryPlan_clients [simp]:
  "dh_fixed_clients (fst (snd (NewPartitionKeyQueryPlan env values table s))) = dh_fixed_clients (fst s)"
  by (cases s) (simp add: NewPartitionKeyQueryPlan_def split: prod.split)

lemma NewBatchWriteQueryPlan_clients [simp]:
  "dh_fixed_clients (fst (snd (NewBatchWriteQueryPlan env ops s))) = dh_fixed_clients (fst s)"
proof -
  have "dh_fixed_clients (fst (fold (TriggerPartitionKeyDiscovery env) ts s)) = dh_fixed_clients (fst s)" for ts
    by (induction ts arbitrary: s) simp_all
  then show ?thesis
    by (simp add: NewBatchWriteQueryPlan_def TriggerPartitionKeyDiscoveryForMissingMetadata_def Let_def split: prod.split)
      (metis fst_conv)
qed

lemma QueryPlanFor_clients [simp]:
  "dh_fixed_clients (fst (snd (PutItemQueryPlanFor env put s))) = dh_fixed_clients (fst s)"
  "dh_fixed_clients (fst (snd (UpdateItemQueryPlanFor env upd s))) = dh_fixed_clients (fst s)"
  "dh_fixed_clients (fst (snd (DeleteItemQueryPlanFor env del s))) = dh_fixed_clients (fst s)"
  "dh_fixed_clients (fst (snd (BatchWriteItemQueryPlanFor env batch s))) = dh_fixed_clients (fst s)"
  by (simp_all add: PutItemQueryPlanFor_def UpdateItemQueryPlanFor_def DeleteItemQueryPlanFor_def BatchWriteItemQueryPlanFor_def
      PartitionKeyQueryPlanFor_def Let_def split: sum.split)

lemma client_for_ok:
  assumes "plan_covers H s x" "provider_ok env provider" "clients_ok provider (fst s)"
    and "dh_fixed_clients (fst (snd x)) = dh_fixed_clients (fst s)"
  shows "client_ok H provider (dh_nodes (fst s)) (client_for env x)"
proof -
  obtain r h1 w1 where x: "x = (r, h1, w1)" by (metis prod_cases3)
  have "clients_ok provider h1" using assms(3,4) by (simp add: x clients_ok_def)
  with plan_client_ok[OF assms(1)[unfolded x] assms(2)] show ?thesis unfolding x by blast
qed

text \<open>
  a write is sent to a live node. Each of the four writes gets a client, which resolves to
  the URL of an active or a quarantined node and is kept for that node, so that a later request for
  the node uses the same client and its connections; only when no node is active it may be the client
  that asks for the next node. Every client the helper keeps still resolves to the node it is kept for.
\<close>

theorem write_sent_to_live_node:
  assumes "ln_inv H (dh_nodes h)" "provider_ok env provider" "clients_ok provider h"
  shows "client_ok H provider (dh_nodes h) (PutItem_client env put (h, w)) \<and>
    client_ok H provider (dh_nodes h) (UpdateItem_client env upd (h, w)) \<and>
    client_ok H provider (dh_nodes h) (DeleteItem_client env del (h, w)) \<and>
    client_ok H provider (dh_nodes h) (BatchWriteItem_client env batch (h, w))"
proof -
  have inv: "ln_inv H (dh_nodes (fst (h, w)))" using assms(1) by simp
  note p = write_plans[OF inv] and c = client_for_ok[where s = "(h, w)", simplified, OF _ assms(2,3)]
  show ?thesis
    by (simp add: PutItem_client_def UpdateItem_client_def DeleteItem_client_def BatchWriteItem_client_def c p)
qed

lemma demo_provider: "provider_ok demo_aws id" "clients_ok id demo_helper"
  by (simp_all add: provider_ok_def clients_ok_def demo_aws_def demo_helper_def)

theorem write_sent_to_live_node_witness:
  "\<exists>client s' u. PutItem_client demo_aws demo_put (demo_helper, []) = (Inr client, s') \<and> u \<in> {demo_a, demo_b} \<and> sends_to id client u"
  using write_sent_to_live_node[OF demo_helper_inv demo_provider, of demo_put "[]"]
  by (fastforce simp: client_ok_def demo_helper_def demo_lists)

end
