(* ===== verification/Aws_Discovery.thy ===== *)
theory Aws_Discovery
  imports Aws_Plans
begin

text \<open>
  The discovery of partition keys: the retries of \<open>UpdatePartitionKeyName\<close>, and the threads that run it.
\<close>

section \<open>Retries\<close>

text \<open>A number of attempts that found no key, with the backoff before and after them.\<close>

inductive failed_attempts ::
  "('c, 'w) AwsEnv \<Rightarrow> string \<Rightarrow> nat \<Rightarrow> int \<Rightarrow> ('c, 'w) helper_state \<Rightarrow> int \<Rightarrow> ('c, 'w) helper_state \<Rightarrow> bool"
  for env table where
  none: "failed_attempts env table 0 b s b s"
| more: "DiscoverPartitionKeyName env table s = (Inr [], h, w) \<Longrightarrow>
    failed_attempts env table m (if 0 < b then b * 2 else b) (h, if 0 < b then aws_sleep_for env b w else w) b' s' \<Longrightarrow>
    failed_attempts env table (Suc m) b s b' s'"

lemma failed_attempts_backoff: "failed_attempts env table m b s b' s' \<Longrightarrow> 0 \<le> b \<Longrightarrow> b' = b * 2 ^ m"
  by (induction rule: failed_attempts.induct) (auto split: if_splits)

text \<open>How the loop ends after its failed attempts.\<close>

definition discovery_ends ::
  "('c, 'w) AwsEnv \<Rightarrow> string \<Rightarrow> bool \<Rightarrow> ('c, 'w) helper_state \<Rightarrow> bool result \<times> ('c, 'w) helper_state \<Rightarrow> bool" where
  "discovery_ends env table is_last s x \<longleftrightarrow>
     (case DiscoverPartitionKeyName env table s of
        (Inl e, s') \<Rightarrow> x = (Inl e, s')
      | (Inr key, h, w) \<Rightarrow>
          if key \<noteq> [] then x = (Inr True, h\<lparr>dh_partition_keys := SetPartitionKeyName table key (dh_partition_keys h)\<rparr>, w)
          else is_last \<and> x = (Inr False, h, w))"

lemma UpdatePartitionKeyName_loop_attempts:
  assumes "attempt \<le> discovery_attempts (fst s)"
  shows "\<exists>k b s1. unat attempt + k \<le> unat (discovery_attempts (fst s)) \<and> failed_attempts env table k backoff s b s1 \<and>
    discovery_ends env table (unat attempt + k = unat (discovery_attempts (fst s))) s1
      (UpdatePartitionKeyName_loop env table attempt backoff s)"
  using assms
proof (induction env table attempt backoff s rule: UpdatePartitionKeyName_loop.induct)
  case (1 env table attempt backoff s)
  let ?n = "discovery_attempts (fst s)"
  have le: "unat attempt \<le> unat ?n" using 1(2) by (simp add: word_le_nat_alt)
  obtain x s' where d: "discovery_attempt env table attempt backoff s = (x, s')" by (metis surj_pair)
  show ?case
  proof (cases x)
    case (Attempt_Done r)
    have "discovery_ends env table (unat attempt + 0 = unat ?n) s (r, s')"
      using d 1(2) Attempt_Done
      by (auto simp: discovery_attempt_def discovery_ends_def Let_def split: sum.splits prod.splits if_splits)
    then have "discovery_ends env table (unat attempt + 0 = unat ?n) s (UpdatePartitionKeyName_loop env table attempt backoff s)"
      using d Attempt_Done by (subst UpdatePartitionKeyName_loop.simps) simp
    then show ?thesis using le failed_attempts.none by (metis add_0_right)
  next
    case (Attempt_Next a b)
    note n = discovery_attempt_next[OF d[unfolded Attempt_Next]]
    have a: "a \<le> discovery_attempts (fst s')" using n by (simp add: word_le_nat_alt word_less_nat_alt)
    obtain h w where f: "DiscoverPartitionKeyName env table s = (Inr [], h, w)"
      "b = (if 0 < backoff then backoff * 2 else backoff)" "s' = (h, if 0 < backoff then aws_sleep_for env backoff w else w)"
      using d 1(2) Attempt_Next by (auto simp: discovery_attempt_def Let_def split: sum.splits prod.splits if_splits)
    from "1.IH"[OF d[symmetric] Attempt_Next a] obtain k b' s1 where k: "unat a + k \<le> unat ?n" "failed_attempts env table k b s' b' s1"
      "discovery_ends env table (unat a + k = unat ?n) s1 (UpdatePartitionKeyName_loop env table a b s')"
      using n(4) by auto
    have "failed_attempts env table (Suc k) backoff s b' s1" using more[OF f(1)] k(2) f(2,3) by blast
    moreover have "UpdatePartitionKeyName_loop env table attempt backoff s = UpdatePartitionKeyName_loop env table a b s'"
      using d Attempt_Next by (subst UpdatePartitionKeyName_loop.simps) simp
    ultimately show ?thesis using k n(2) by (intro exI[of _ "Suc k"] exI[of _ b'] exI[of _ s1]) simp
  qed
qed

text \<open>
  \<^bold>\<open>C39\<close>: the retries of the discovery end. For a named table and at least one attempt, \<open>UpdatePartitionKeyName\<close>
  returns after some number \<open>k\<close> of failed attempts below the configured one and one more attempt: it has
  slept for the initial backoff doubled each time, and then stored the key it found, or given up at the
  last attempt, or passed on an exception.
\<close>

theorem UpdatePartitionKeyName_retries:
  assumes "table \<noteq> []" "0 < discovery_attempts (fst s)"
    and "0 \<le> backoff" "partition_key_discovery_initial_backoff (cfg_key_route_affinity (dh_config (fst s))) = backoff"
  shows "\<exists>k s1. k < unat (discovery_attempts (fst s)) \<and> failed_attempts env table k backoff s (backoff * 2 ^ k) s1 \<and>
    discovery_ends env table (k + 1 = unat (discovery_attempts (fst s))) s1 (UpdatePartitionKeyName env table s)"
proof -
  have "1 \<le> discovery_attempts (fst s)" using assms(2) by (simp add: word_le_nat_alt word_less_nat_alt Suc_le_eq)
  from UpdatePartitionKeyName_loop_attempts[OF this, of env table backoff] obtain k b s1 where
    k: "1 + k \<le> unat (discovery_attempts (fst s))" "failed_attempts env table k backoff s b s1"
    "discovery_ends env table (1 + k = unat (discovery_attempts (fst s))) s1 (UpdatePartitionKeyName_loop env table 1 backoff s)"
    by auto
  with failed_attempts_backoff[OF k(2) assms(3)] assms(1,4) show ?thesis
    by (intro exI[of _ k] exI[of _ s1]) (simp add: UpdatePartitionKeyName_def)
qed

text \<open>Two failures with sleeps of 100 and 200 milliseconds, then the key.\<close>

theorem UpdatePartitionKeyName_retries_witness:
  "\<exists>k s1. k < 3 \<and> failed_attempts demo_aws ''u'' k 100 (demo_helper, []) (100 * 2 ^ k) s1 \<and>
     discovery_ends demo_aws ''u'' (k + 1 = 3) s1 (UpdatePartitionKeyName demo_aws ''u'' (demo_helper, [])) \<and>
     fst (UpdatePartitionKeyName demo_aws ''u'' (demo_helper, [])) = Inr True \<and>
     snd (snd (UpdatePartitionKeyName demo_aws ''u'' (demo_helper, []))) = [100, 200]"
proof -
  have n: "discovery_attempts (fst (demo_helper, [])) = 3"
    "partition_key_discovery_initial_backoff (cfg_key_route_affinity (dh_config (fst (demo_helper, [])))) = 100"
    by (simp_all add: demo_helper_def KeyRouteAffinityConfig_default_def)
  have d: "DiscoverPartitionKeyName demo_aws ''u'' (h, w) = (Inr (if length w < 2 then [] else ''id''), h, w)" for h w
    by (simp add: DiscoverPartitionKeyName_def NewDynamoDB_def NewDynamoDBWithEndpointProvider_def demo_aws_def
        first_hash_key_def c_str_def Let_def)
  have "fst (UpdatePartitionKeyName demo_aws ''u'' (demo_helper, [])) = Inr True \<and>
      snd (snd (UpdatePartitionKeyName demo_aws ''u'' (demo_helper, []))) = [100, 200]"
    using n d by (simp add: UpdatePartitionKeyName_def UpdatePartitionKeyName_loop.simps discovery_attempt_def Let_def
        demo_aws_def[THEN arg_cong[of _ _ aws_sleep_for]])
  with UpdatePartitionKeyName_retries[of "''u''" "(demo_helper, [])" 100 demo_aws] n show ?thesis by auto
qed

section \<open>Threads\<close>

text \<open>
  The threads of a helper together with the calls that trigger them: tables that are noted but have no
  thread yet, and threads a destructor is joining.
\<close>

record ('c, 'w) Discovery =
  ds_helper :: "'c DynamoDBHelper"
  ds_pending :: "string list"
  ds_joining :: "Worker list"
  ds_world :: 'w

definition worker_step ::
  "('c, 'w) AwsEnv \<Rightarrow> Worker \<Rightarrow> ('c, 'w) helper_state \<Rightarrow> Worker \<times> ('c, 'w) helper_state" where
  "worker_step env wk s =
     (case wk_point wk of
        Attempting attempt backoff \<Rightarrow>
          (case discovery_attempt env (wk_table wk) attempt backoff s of
             (Attempt_Done r, s') \<Rightarrow> (wk\<lparr>wk_point := Erasing\<rparr>, s')
           | (Attempt_Next attempt' backoff', s') \<Rightarrow> (wk\<lparr>wk_point := Attempting attempt' backoff'\<rparr>, s'))
      | Erasing \<Rightarrow>
          (wk\<lparr>wk_point := Finished\<rparr>,
           (fst s)\<lparr>dh_in_progress := dh_in_progress (fst s) - {wk_table wk}\<rparr>, snd s)
      | Finished \<Rightarrow> (wk, s))"

inductive discovery_step :: "('c, 'w) AwsEnv \<Rightarrow> ('c, 'w) Discovery \<Rightarrow> ('c, 'w) Discovery \<Rightarrow> bool" for env where
  noted: "Trigger_begin table (ds_helper d) = Some h \<Longrightarrow>
    discovery_step env d (d\<lparr>ds_helper := h, ds_pending := table # ds_pending d\<rparr>)"
| spawned: "table \<in> set (ds_pending d) \<Longrightarrow> Trigger_spawn env table (ds_helper d, ds_world d) = (h, w) \<Longrightarrow>
    discovery_step env d (d\<lparr>ds_helper := h, ds_pending := remove1 table (ds_pending d), ds_world := w\<rparr>)"
| worked: "i < length (dh_workers (ds_helper d)) \<Longrightarrow>
    worker_step env (dh_workers (ds_helper d) ! i) (ds_helper d, ds_world d) = (wk, h, w) \<Longrightarrow>
    discovery_step env d (d\<lparr>ds_helper := h\<lparr>dh_workers := (dh_workers (ds_helper d))[i := wk]\<rparr>, ds_world := w\<rparr>)"
| worked_joining: "i < length (ds_joining d) \<Longrightarrow>
    worker_step env (ds_joining d ! i) (ds_helper d, ds_world d) = (wk, h, w) \<Longrightarrow>
    discovery_step env d (d\<lparr>ds_helper := h, ds_joining := (ds_joining d)[i := wk], ds_world := w\<rparr>)"
| set_key: "discovery_step env d (d\<lparr>ds_helper := Helper_SetPartitionKeyName table key (ds_helper d)\<rparr>)"
| waited: "WaitForPartitionKeyDiscovery (ds_helper d) = (workers, h) \<Longrightarrow>
    discovery_step env d (d\<lparr>ds_helper := h, ds_joining := ds_joining d @ workers\<rparr>)"

text \<open>A helper right after its construction.\<close>

definition Discovery_initial :: "'c DynamoDBHelper \<Rightarrow> 'w \<Rightarrow> ('c, 'w) Discovery" where
  "Discovery_initial h w = \<lparr>ds_helper = h, ds_pending = [], ds_joining = [], ds_world = w\<rparr>"

text \<open>The tables that threads are busy with, a destructor waiting for all of its threads.\<close>

definition running :: "Worker list \<Rightarrow> string list" where
  "running wks = map wk_table (filter (\<lambda>wk. wk_point wk \<noteq> Finished) wks)"

definition busy_tables :: "('c, 'w) Discovery \<Rightarrow> string multiset" where
  "busy_tables d = mset (ds_pending d) + mset (running (dh_workers (ds_helper d))) + mset (running (ds_joining d))"

definition discovery_inv :: "('c, 'w) Discovery \<Rightarrow> bool" where
  "discovery_inv d \<longleftrightarrow> busy_tables d = mset_set (dh_in_progress (ds_helper d)) \<and> finite (dh_in_progress (ds_helper d))"

lemma running_simps [simp]:
  "running [] = []" "running (wk # wks) = (if wk_point wk = Finished then [] else [wk_table wk]) @ running wks"
  "running (wks @ wks') = running wks @ running wks'"
  by (simp_all add: running_def)

lemma running_update:
  assumes "i < length wks" "wk_table wk = wk_table (wks ! i)" "wk_point (wks ! i) \<noteq> Finished"
  shows "mset (running wks) = mset (running (wks[i := wk])) + (if wk_point wk = Finished then {#wk_table wk#} else {#})"
proof -
  have "mset (running wks) = mset (running (take i wks @ wks ! i # drop (Suc i) wks))"
    using assms(1) by (simp only: id_take_nth_drop[symmetric])
  moreover have "running (wks[i := wk]) = running (take i wks @ wk # drop (Suc i) wks)"
    using assms(1) by (simp only: upd_conv_take_nth_drop)
  ultimately show ?thesis using assms(2,3) by simp
qed

lemma discovery_attempt_frame:
  assumes "discovery_attempt env table a b s = (x, s')"
  shows "dh_in_progress (fst s') = dh_in_progress (fst s)" "dh_workers (fst s') = dh_workers (fst s)"
  using assms by (auto simp: discovery_attempt_def Let_def split: prod.splits sum.splits if_splits dest!: Discover_helper)

text \<open>A step of a thread changes the tables in progress only with its last lock.\<close>

lemma worker_step_effect:
  assumes "worker_step env wk0 s = (wk, h, w)"
  shows "wk_table wk = wk_table wk0" "wk_point wk0 = Finished \<Longrightarrow> wk = wk0 \<and> h = fst s"
    "dh_in_progress h = (if wk_point wk0 \<noteq> Finished \<and> wk_point wk = Finished
       then dh_in_progress (fst s) - {wk_table wk0} else dh_in_progress (fst s))"
    "dh_workers h = dh_workers (fst s)"
  using assms
  by (auto simp: worker_step_def split: worker_point.splits attempt_result.splits prod.splits dest: discovery_attempt_frame)

lemma busy_after_work:
  assumes "i < length wks" "worker_step env (wks ! i) (h0, w0) = (wk, h, w)"
    and "mset (running wks) + M = mset_set (dh_in_progress h0)" "finite (dh_in_progress h0)"
  shows "mset (running (wks[i := wk])) + M = mset_set (dh_in_progress h)" "finite (dh_in_progress h)"
proof -
  note e = worker_step_effect[OF assms(2)]
  show "finite (dh_in_progress h)" using e(3) assms(4) by simp
  show "mset (running (wks[i := wk])) + M = mset_set (dh_in_progress h)"
  proof (cases "wk_point (wks ! i) = Finished")
    case True
    then show ?thesis using e(2) assms(3) by simp
  next
    case False
    note u = running_update[OF assms(1) e(1) False]
    show ?thesis
    proof (cases "wk_point wk = Finished")
      case True
      then have p: "dh_in_progress h = dh_in_progress h0 - {wk_table wk}" using e(1,3) False by simp
      have "wk_table wk \<in># mset_set (dh_in_progress h0)" using assms(3)[symmetric] u True by simp
      then have "mset_set (dh_in_progress h0) = add_mset (wk_table wk) (mset_set (dh_in_progress h))"
        using assms(4) p by (simp add: mset_set.remove)
      with assms(3) u True show ?thesis by simp
    next
      case F: False
      then have "dh_in_progress h = dh_in_progress h0" using e(3) by simp
      with assms(3) u F show ?thesis by simp
    qed
  qed
qed

lemma Trigger_spawn_inv:
  assumes "discovery_inv d" "table \<in> set (ds_pending d)" "Trigger_spawn env table (ds_helper d, ds_world d) = (h, w)"
  shows "discovery_inv (d\<lparr>ds_helper := h, ds_pending := remove1 table (ds_pending d), ds_world := w\<rparr>)"
proof -
  obtain p where p: "remove1 table (ds_pending d) = p" and m: "mset (ds_pending d) = add_mset table (mset p)"
    using assms(2) by (metis mset_remove1 insert_DiffM set_mset_mset)
  show ?thesis
  proof (cases "fst (aws_thread env (ds_world d))")
    case True
    then have "h = (ds_helper d)\<lparr>dh_workers := dh_workers (ds_helper d) @ [new_worker (ds_helper d) table]\<rparr>"
      using assms(3) by (auto simp: Trigger_spawn_def split: prod.splits bool.splits)
    with assms(1) p m show ?thesis by (simp add: discovery_inv_def busy_tables_def new_worker_def)
  next
    case False
    then have h: "h = (ds_helper d)\<lparr>dh_in_progress := dh_in_progress (ds_helper d) - {table}\<rparr>"
      using assms(3) by (auto simp: Trigger_spawn_def split: prod.splits bool.splits)
    have inv: "busy_tables d = mset_set (dh_in_progress (ds_helper d))" "finite (dh_in_progress (ds_helper d))"
      using assms(1) by (auto simp: discovery_inv_def)
    have "table \<in># busy_tables d" using m by (simp add: busy_tables_def)
    then have "table \<in> dh_in_progress (ds_helper d)" using inv by simp
    then have "busy_tables d = add_mset table (mset_set (dh_in_progress (ds_helper d) - {table}))"
      using inv by (simp add: mset_set.remove)
    with h inv(2) p m show ?thesis by (simp add: discovery_inv_def busy_tables_def)
  qed
qed

lemma discovery_step_inv:
  assumes "discovery_step env d d'" "discovery_inv d"
  shows "discovery_inv d'"
  using assms
proof (cases rule: discovery_step.cases)
  case (noted table h)
  then have "table \<notin> dh_in_progress (ds_helper d)"
    "h = (ds_helper d)\<lparr>dh_in_progress := insert table (dh_in_progress (ds_helper d))\<rparr>"
    by (auto simp: Trigger_begin_def split: if_splits)
  with noted assms(2) show ?thesis by (simp add: discovery_inv_def busy_tables_def)
next
  case (spawned table h w)
  with Trigger_spawn_inv[OF assms(2)] show ?thesis by simp
next
  case (worked i wk h w)
  have "mset (running (dh_workers (ds_helper d))) + (mset (ds_pending d) + mset (running (ds_joining d))) =
      mset_set (dh_in_progress (ds_helper d))" "finite (dh_in_progress (ds_helper d))"
    using assms(2) by (simp_all add: discovery_inv_def busy_tables_def ac_simps)
  from busy_after_work[OF worked(2,3) this] worked(1) show ?thesis by (simp add: discovery_inv_def busy_tables_def ac_simps)
next
  case (worked_joining i wk h w)
  have "mset (running (ds_joining d)) + (mset (ds_pending d) + mset (running (dh_workers (ds_helper d)))) =
      mset_set (dh_in_progress (ds_helper d))" "finite (dh_in_progress (ds_helper d))"
    using assms(2) by (simp_all add: discovery_inv_def busy_tables_def ac_simps)
  from busy_after_work[OF worked_joining(2,3) this] worked_joining(1) worker_step_effect(4)[OF worked_joining(3)]
  show ?thesis by (simp add: discovery_inv_def busy_tables_def ac_simps)
next
  case (set_key table key)
  with assms(2) show ?thesis by (simp add: discovery_inv_def busy_tables_def Helper_SetPartitionKeyName_def)
next
  case (waited workers h)
  with assms(2) show ?thesis by (auto simp: discovery_inv_def busy_tables_def WaitForPartitionKeyDiscovery_def ac_simps)
qed

text \<open>
  \<^bold>\<open>C38\<close>: at most one discovery per table. In every interleaving of calls that trigger discoveries, of the threads,
  of a client that sets keys and of a destructor that waits, the tables in progress are exactly those
  noted by a call or worked on by an unfinished thread, each by one of them only; once all of these
  are done no table is in progress and each can be discovered again.
\<close>

theorem discovery_single_flight:
  assumes "DynamoDBHelper_new initial_nodes config now = Inr h" "(discovery_step env)\<^sup>*\<^sup>* (Discovery_initial h w) d"
  shows "dh_in_progress (ds_helper d) = set_mset (busy_tables d) \<and> (\<forall>table. count (busy_tables d) table \<le> 1)"
proof -
  have "dh_in_progress h = {}" "dh_workers h = []" using assms(1) by (auto simp: DynamoDBHelper_new_def rbind_eq_Inr)
  then have "discovery_inv (Discovery_initial h w)" by (simp add: discovery_inv_def Discovery_initial_def busy_tables_def)
  with assms(2) have "discovery_inv d" by (induction rule: rtranclp_induct) (auto intro: discovery_step_inv)
  then show ?thesis by (auto simp: discovery_inv_def count_mset_set')
qed

definition demo_new_helper :: "EndpointProvider DynamoDBHelper" where
  "demo_new_helper =
     \<lparr>dh_nodes = demo_st, dh_config = small_config, dh_partition_keys = \<lparr>pkm_partition_key_by_table = []\<rparr>,
      dh_in_progress = {}, dh_workers = [], dh_fixed_clients = []\<rparr>"

lemma demo_new_helper_constructed: "DynamoDBHelper_new [''a'', ''b''] small_config 0 = Inr demo_new_helper"
proof -
  have "kra_partition_key_by_table (cfg_key_route_affinity small_config) = []"
    by (simp add: small_config_def Config_default_def KeyRouteAffinityConfig_default_def)
  then show ?thesis by (simp add: DynamoDBHelper_new_def demo_new(1) demo_new_helper_def)
qed

theorem discovery_single_flight_witness:
  "\<exists>d. (discovery_step demo_aws)\<^sup>*\<^sup>* (Discovery_initial demo_new_helper []) d \<and> running (dh_workers (ds_helper d)) = [''u''] \<and>
     dh_in_progress (ds_helper d) = {''u''} \<and> Trigger_begin ''u'' (ds_helper d) = None"
proof -
  let ?d0 = "Discovery_initial demo_new_helper []"
  let ?h1 = "demo_new_helper\<lparr>dh_in_progress := {''u''}\<rparr>"
  let ?h2 = "?h1\<lparr>dh_workers := [new_worker ?h1 ''u'']\<rparr>"
  let ?d1 = "?d0\<lparr>ds_helper := ?h1, ds_pending := [''u'']\<rparr>" and ?d2 = "?d0\<lparr>ds_helper := ?h2\<rparr>"
  have "discovery_step demo_aws ?d0 ?d1"
    using noted[of "''u''" ?d0 ?h1 demo_aws]
    by (simp add: Trigger_begin_def Discovery_initial_def demo_new_helper_def GetPartitionKeyName_def)
  moreover have "discovery_step demo_aws ?d1 ?d2"
    using spawned[of "''u''" ?d1 demo_aws ?h2 "[]"]
    by (simp add: Trigger_spawn_def demo_aws_def Discovery_initial_def demo_new_helper_def)
  ultimately have r: "(discovery_step demo_aws)\<^sup>*\<^sup>* ?d0 ?d2"
    by (rule converse_rtranclp_into_rtranclp[OF _ r_into_rtranclp])
  have "busy_tables ?d2 = {#''u''#}"
    by (simp add: Discovery_initial_def demo_new_helper_def busy_tables_def new_worker_def)
  with discovery_single_flight[OF demo_new_helper_constructed r] have "dh_in_progress (ds_helper ?d2) = {''u''}" by simp
  with r show ?thesis
    by (intro exI[of _ ?d2]) (simp add: Trigger_begin_def Discovery_initial_def demo_new_helper_def new_worker_def)
qed

end
