(* ===== verification/Aws_Helper.thy ===== *)
theory Aws_Helper
  imports Aws_Bodies Aws_Clients Aws_Discovery
begin

text \<open>
  \<open>DynamoDBHelper\<close> as a whole: its construction, the methods that pass a call on to the live nodes, and the system
  in which writes, attempts of the SDK, retries, the discovery of keys, the background thread of the live
  nodes and the destructor interleave.

  A call of a method is one step, with one exception: a write is the choice of its client, and what the SDK
  then does with the request is a series of attempts through the HTTP client and of calls of the retry
  handler, each a step of its own. The discovery and the background thread have the steps of their theories.
\<close>

section \<open>Methods\<close>

text \<open>The constructor starts the background thread.\<close>

definition DynamoDBHelper_construct ::
  "string list \<Rightarrow> Config \<Rightarrow> time_point \<Rightarrow> (Background \<times> 'c DynamoDBHelper) result" where
  "DynamoDBHelper_construct initial_nodes config now =
     rbind (DynamoDBHelper_new initial_nodes config now) (\<lambda>h. Inr (LiveNodes_Start Background_initial, h))"

definition on_nodes ::
  "('w ln_state \<Rightarrow> 'r \<times> 'w ln_state) \<Rightarrow> ('c, 'w) helper_state \<Rightarrow> 'r \<times> ('c, 'w) helper_state" where
  "on_nodes f s =
     (case s of (h, w) \<Rightarrow> (case f (dh_nodes h, w) of (r, st, w') \<Rightarrow> (r, h\<lparr>dh_nodes := st\<rparr>, w')))"

definition Helper_UpdateLiveNodes ::
  "'w Environment \<Rightarrow> ('c, 'w) helper_state \<Rightarrow> unit result \<times> ('c, 'w) helper_state" where
  "Helper_UpdateLiveNodes env = on_nodes (UpdateLiveNodes env)"

definition Helper_ReportNodeResult ::
  "'w Environment \<Rightarrow> Url \<Rightarrow> NodeHealthObservation \<Rightarrow> ('c, 'w) helper_state \<Rightarrow> unit \<times> ('c, 'w) helper_state" where
  "Helper_ReportNodeResult env node observation =
     on_nodes (\<lambda>(st, w). ((), LiveNodes_ReportNodeResult (env_now env w) node observation st, w))"

definition Helper_CheckIfRackAndDatacenterSetCorrectly ::
  "'w Environment \<Rightarrow> ('c, 'w) helper_state \<Rightarrow> unit result \<times> ('c, 'w) helper_state" where
  "Helper_CheckIfRackAndDatacenterSetCorrectly env = on_nodes (CheckIfRackAndDatacenterSetCorrectly env)"

definition Helper_CheckIfRackDatacenterFeatureIsSupported ::
  "'w Environment \<Rightarrow> ('c, 'w) helper_state \<Rightarrow> bool result \<times> ('c, 'w) helper_state" where
  "Helper_CheckIfRackDatacenterFeatureIsSupported env = on_nodes (CheckIfRackDatacenterFeatureIsSupported env)"

definition Helper_GetPartitionKeyName :: "'c DynamoDBHelper \<Rightarrow> string \<Rightarrow> string" where
  "Helper_GetPartitionKeyName h table_name = GetPartitionKeyName (dh_partition_keys h) table_name"

definition Helper_Start :: "Background \<times> 's \<Rightarrow> Background \<times> 's" where
  "Helper_Start = apfst LiveNodes_Start"

text \<open>\<open>Stop\<close> waits for the background thread between its two halves.\<close>

definition Helper_Stop_request :: "Background \<times> 's \<Rightarrow> Background \<times> 's" where
  "Helper_Stop_request = apfst LiveNodes_Stop_request"

definition Helper_Stop_finish :: "Background \<times> 's \<Rightarrow> Background \<times> 's" where
  "Helper_Stop_finish = apfst LiveNodes_Stop_finish"

text \<open>
  The destructor: it takes the discovery threads from the helper to join them, and when all of these have ended it
  stops the live nodes.
\<close>

definition destructor_wait :: "('c, 'w) Discovery \<Rightarrow> ('c, 'w) Discovery" where
  "destructor_wait d =
     (case WaitForPartitionKeyDiscovery (ds_helper d) of
        (workers, h) \<Rightarrow> d\<lparr>ds_helper := h, ds_joining := ds_joining d @ workers\<rparr>)"

definition destructor_stop :: "Background \<times> ('c, 'w) Discovery \<Rightarrow> (Background \<times> ('c, 'w) Discovery) option" where
  "destructor_stop x =
     (if \<forall>wk \<in> set (ds_joining (snd x)). wk_point wk = Finished then Some (Helper_Stop_request x) else None)"

datatype AwsWrite =
    Write_Put PutItemRequest | Write_Update UpdateItemRequest | Write_Delete DeleteItemRequest | Write_Batch BatchWriteItemRequest

fun write_client :: "('c, 'w) AwsEnv \<Rightarrow> AwsWrite \<Rightarrow> ('c, 'w) helper_state \<Rightarrow> 'c result \<times> ('c, 'w) helper_state" where
  "write_client aws (Write_Put request) s = PutItem_client aws request s"
| "write_client aws (Write_Update request) s = UpdateItem_client aws request s"
| "write_client aws (Write_Delete request) s = DeleteItem_client aws request s"
| "write_client aws (Write_Batch request) s = BatchWriteItem_client aws request s"

text \<open>
  A write as a whole: the handlers of the request get the node reporter, and the SDK sends it through the client of
  its plan. The call of the SDK is a parameter; it may call the handlers it is given.
\<close>

type_synonym ('q, 'r, 's) request_handlers = "('q, 's) handler \<times> (time_point \<times> 'r, 's) handler"

type_synonym ('c, 'w, 'q, 'r, 'x, 'req, 'o) send =
  "'c \<Rightarrow> 'req \<Rightarrow> ('q, 'r, Url \<times> AlternatorLiveNodes \<times> 'x) request_handlers \<Rightarrow>
     ('c, 'w) helper_state \<Rightarrow> 'o result \<times> ('c, 'w) helper_state"

definition send_write ::
  "('q, 'p) AwsHttp \<Rightarrow> ('c, 'w, 'q, 'r, 'x, 'req, 'o) send \<Rightarrow> ('q, 'r, AlternatorLiveNodes \<times> 'x) request_handlers \<Rightarrow> 'req \<Rightarrow>
     'c result \<times> ('c, 'w) helper_state \<Rightarrow> 'o result \<times> ('c, 'w) helper_state" where
  "send_write A send handlers request x =
     (case x of
        (Inl e, s) \<Rightarrow> (Inl e, s)
      | (Inr client, s) \<Rightarrow> send client request (AttachNodeErrorReporter A True handlers) s)"

definition Helper_PutItem ::
  "('q, 'p) AwsHttp \<Rightarrow> ('c, 'w) AwsEnv \<Rightarrow> ('c, 'w, 'q, 'r, 'x, PutItemRequest, 'o) send \<Rightarrow>
     ('q, 'r, AlternatorLiveNodes \<times> 'x) request_handlers \<Rightarrow> PutItemRequest \<Rightarrow>
     ('c, 'w) helper_state \<Rightarrow> 'o result \<times> ('c, 'w) helper_state" where
  "Helper_PutItem A aws send handlers request s = send_write A send handlers request (PutItem_client aws request s)"

definition Helper_UpdateItem ::
  "('q, 'p) AwsHttp \<Rightarrow> ('c, 'w) AwsEnv \<Rightarrow> ('c, 'w, 'q, 'r, 'x, UpdateItemRequest, 'o) send \<Rightarrow>
     ('q, 'r, AlternatorLiveNodes \<times> 'x) request_handlers \<Rightarrow> UpdateItemRequest \<Rightarrow>
     ('c, 'w) helper_state \<Rightarrow> 'o result \<times> ('c, 'w) helper_state" where
  "Helper_UpdateItem A aws send handlers request s = send_write A send handlers request (UpdateItem_client aws request s)"

definition Helper_DeleteItem ::
  "('q, 'p) AwsHttp \<Rightarrow> ('c, 'w) AwsEnv \<Rightarrow> ('c, 'w, 'q, 'r, 'x, DeleteItemRequest, 'o) send \<Rightarrow>
     ('q, 'r, AlternatorLiveNodes \<times> 'x) request_handlers \<Rightarrow> DeleteItemRequest \<Rightarrow>
     ('c, 'w) helper_state \<Rightarrow> 'o result \<times> ('c, 'w) helper_state" where
  "Helper_DeleteItem A aws send handlers request s = send_write A send handlers request (DeleteItem_client aws request s)"

definition Helper_BatchWriteItem ::
  "('q, 'p) AwsHttp \<Rightarrow> ('c, 'w) AwsEnv \<Rightarrow> ('c, 'w, 'q, 'r, 'x, BatchWriteItemRequest, 'o) send \<Rightarrow>
     ('q, 'r, AlternatorLiveNodes \<times> 'x) request_handlers \<Rightarrow> BatchWriteItemRequest \<Rightarrow>
     ('c, 'w) helper_state \<Rightarrow> 'o result \<times> ('c, 'w) helper_state" where
  "Helper_BatchWriteItem A aws send handlers request s = send_write A send handlers request (BatchWriteItem_client aws request s)"

text \<open>
  The endpoint provider of a helper, with the default provider of the SDK it passes everything on to but the
  resolution of an endpoint; \<open>FixedEndpointProvider\<close> does the same.
\<close>

definition AlternatorEndpointProvider_new :: "bool \<Rightarrow> EndpointProvider result" where
  "AlternatorEndpointProvider_new has_nodes =
     (if \<not> has_nodes then Inl (Invalid_Argument ''nodes must not be null'') else Inr AlternatorEndpointProvider)"

definition NewEndpointProvider :: "EndpointProvider result" where
  "NewEndpointProvider = AlternatorEndpointProvider_new True"

type_synonym 'e provider = "EndpointProvider \<times> 'e"

definition InitBuiltInParameters :: "('k \<Rightarrow> 'e \<Rightarrow> 'e) \<Rightarrow> 'k \<Rightarrow> 'e provider \<Rightarrow> 'e provider" where
  "InitBuiltInParameters default_init config p = apsnd (default_init config) p"

definition InitBuiltInParameters_service :: "('k \<Rightarrow> string \<Rightarrow> 'e \<Rightarrow> 'e) \<Rightarrow> 'k \<Rightarrow> string \<Rightarrow> 'e provider \<Rightarrow> 'e provider" where
  "InitBuiltInParameters_service default_init config service_name p = apsnd (default_init config service_name) p"

definition OverrideEndpoint :: "(string \<Rightarrow> 'e \<Rightarrow> 'e) \<Rightarrow> string \<Rightarrow> 'e provider \<Rightarrow> 'e provider" where
  "OverrideEndpoint default_override endpoint p = apsnd (default_override endpoint) p"

text \<open>A reference to the parameters is what may be done through it.\<close>

definition AccessClientContextParameters :: "(('k \<Rightarrow> 'k) \<Rightarrow> 'e \<Rightarrow> 'e) \<Rightarrow> ('k \<Rightarrow> 'k) \<Rightarrow> 'e provider \<Rightarrow> 'e provider" where
  "AccessClientContextParameters default_access change p = apsnd (default_access change) p"

definition GetClientContextParameters :: "('e \<Rightarrow> 'k) \<Rightarrow> 'e provider \<Rightarrow> 'k" where
  "GetClientContextParameters default_get p = default_get (snd p)"

lemma provider_forwarding [simp]:
  "fst (InitBuiltInParameters f c p) = fst p" "fst (InitBuiltInParameters_service g c n p) = fst p"
  "fst (OverrideEndpoint h e p) = fst p" "fst (AccessClientContextParameters k u p) = fst p"
  by (simp_all add: InitBuiltInParameters_def InitBuiltInParameters_service_def OverrideEndpoint_def AccessClientContextParameters_def)

section \<open>The system\<close>

type_synonym ('c, 'w) helper_sys = "Background \<times> ('c, 'w) Discovery"

definition with_nodes :: "'w ln_state \<Rightarrow> ('c, 'w) Discovery \<Rightarrow> ('c, 'w) Discovery" where
  "with_nodes s d = d\<lparr>ds_helper := (ds_helper d)\<lparr>dh_nodes := fst s\<rparr>, ds_world := snd s\<rparr>"

definition with_helper :: "('c, 'w) helper_state \<Rightarrow> ('c, 'w) Discovery \<Rightarrow> ('c, 'w) Discovery" where
  "with_helper s d = d\<lparr>ds_helper := fst s, ds_world := snd s\<rparr>"

text \<open>Requests whose host is not in brackets, as that of an IPv6 address is.\<close>

definition plain_request :: "('q, 'p) AwsHttp \<Rightarrow> 'q \<Rightarrow> bool" where
  "plain_request A q \<longleftrightarrow> (\<forall>host. c_str (uri_GetHost A q) = host \<longrightarrow> host = [] \<or> hd host \<noteq> CHR ''['')"

inductive helper_step ::
  "('q, 'p) AwsHttp \<Rightarrow> 'w Environment \<Rightarrow> ('c, 'w) AwsEnv \<Rightarrow> ('c, 'w) helper_sys \<Rightarrow> ('c, 'w) helper_sys \<Rightarrow> bool"
  for A env aws where
  live: "sys_step env a (bg, dh_nodes (ds_helper d), ds_world d) (bg', s) \<Longrightarrow> helper_step A env aws (bg, d) (bg', with_nodes s d)"
| discovering: "discovery_step aws d d' \<Longrightarrow> helper_step A env aws (bg, d) (bg, d')"
| writing: "write_client aws request (ds_helper d, ds_world d) = (r, s) \<Longrightarrow> helper_step A env aws (bg, d) (bg, with_helper s d)"
| attempting: "case request of None \<Rightarrow> True | Some q \<Rightarrow> plain_request A q \<Longrightarrow>
    MakeRequest A env delegate c request (dh_nodes (ds_helper d), ds_world d) = (r, sent, s) \<Longrightarrow>
    helper_step A env aws (bg, d) (bg, with_nodes s d)"
| retrying: "plain_request A q \<Longrightarrow>
    helper_step A env aws (bg, d)
      (bg, with_nodes (RetryHandler (env_now env (ds_world d)) (SignedHandler A q) (dh_nodes (ds_helper d)), ds_world d) d)"
| stopping: "destructor_stop (bg, d) = Some x \<Longrightarrow> helper_step A env aws (bg, d) x"

text \<open>The methods that are passed on are steps of the system.\<close>

lemma with_helper_on_nodes:
  "with_helper (snd (on_nodes f (ds_helper d, ds_world d))) d = with_nodes (snd (f (dh_nodes (ds_helper d), ds_world d))) d"
  by (simp add: with_helper_def on_nodes_def with_nodes_def split: prod.split)

lemma forwarded_step:
  assumes "\<And>s. client_step env s (snd (f s))"
  shows "helper_step A env aws (bg, d) (bg, with_helper (snd (on_nodes f (ds_helper d, ds_world d))) d)"
  unfolding with_helper_on_nodes by (rule live[where a = Act_Client], rule sys_step.client, rule assms)

lemma forwarded_calls:
  "helper_step A env aws (bg, d) (bg, with_helper (snd (Helper_UpdateLiveNodes env (ds_helper d, ds_world d))) d)"
  "helper_step A env aws (bg, d) (bg, with_helper (snd (Helper_CheckIfRackAndDatacenterSetCorrectly env (ds_helper d, ds_world d))) d)"
  "helper_step A env aws (bg, d) (bg, with_helper (snd (Helper_CheckIfRackDatacenterFeatureIsSupported env (ds_helper d, ds_world d))) d)"
  unfolding Helper_UpdateLiveNodes_def Helper_CheckIfRackAndDatacenterSetCorrectly_def Helper_CheckIfRackDatacenterFeatureIsSupported_def
  by (rule forwarded_step, metis client_step.intros prod.collapse)+

lemma forwarded_report:
  assumes "node_url u"
  shows "helper_step A env aws (bg, d) (bg, with_helper (snd (Helper_ReportNodeResult env u obs (ds_helper d, ds_world d))) d)"
  unfolding Helper_ReportNodeResult_def
  by (rule forwarded_step) (use assms in \<open>auto intro: client_step.report split: prod.split\<close>)

lemma forwarded_threads:
  "helper_step A env aws (bg, d) (Helper_Start (bg, d))" "helper_step A env aws (bg, d) (Helper_Stop_request (bg, d))"
  "helper_step A env aws (bg, d) (bg, destructor_wait d)"
proof -
  have [simp]: "with_nodes (dh_nodes (ds_helper d), ds_world d) d = d" by (simp add: with_nodes_def)
  have "helper_step A env aws (bg, d) (LiveNodes_Start bg, with_nodes (dh_nodes (ds_helper d), ds_world d) d)"
    "helper_step A env aws (bg, d) (LiveNodes_Stop_request bg, with_nodes (dh_nodes (ds_helper d), ds_world d) d)"
    by (rule live[OF sys_step.start], rule live[OF sys_step.stop])
  then show "helper_step A env aws (bg, d) (Helper_Start (bg, d))" "helper_step A env aws (bg, d) (Helper_Stop_request (bg, d))"
    by (simp_all add: Helper_Start_def Helper_Stop_request_def)
  show "helper_step A env aws (bg, d) (bg, destructor_wait d)"
    by (auto simp: destructor_wait_def intro!: discovering discovery_step.waited split: prod.split)
qed

section \<open>The invariant\<close>

text \<open>
  A well-formed helper: its live nodes are well-formed and have its configuration, each client it keeps is kept
  for a node of that configuration and resolves to it, the tables in progress are those some call or
  thread is busy with, and the background thread exists exactly while it is started.
\<close>

definition helper_ok :: "string set \<Rightarrow> ('c \<Rightarrow> EndpointProvider) \<Rightarrow> Config \<Rightarrow> ('c, 'w) helper_sys \<Rightarrow> bool" where
  "helper_ok H provider config x \<longleftrightarrow>
     (case x of (bg, d) \<Rightarrow>
        (let h = ds_helper d in
         ln_inv H (dh_nodes h) \<and> ln_config (dh_nodes h) = config \<and> dh_config h = config \<and>
         clients_ok provider h \<and> fst ` set (dh_fixed_clients h) \<subseteq> node_of config ` H \<and> discovery_inv d \<and> bg_inv bg))"

lemma helper_ok_nodes:
  assumes "helper_ok H provider config (bg, d)" "kept H (dh_nodes (ds_helper d)) (fst s)" "bg_inv bg'"
  shows "helper_ok H provider config (bg', with_nodes s d)"
  using assms
  by (simp add: helper_ok_def with_nodes_def kept_def clients_ok_def discovery_inv_def busy_tables_def Let_def)

subsection \<open>Discovery\<close>

lemma discovery_attempt_keeps:
  assumes "discovery_attempt aws table a b s = (x, s')"
  shows "dh_nodes (fst s') = dh_nodes (fst s)" "dh_config (fst s') = dh_config (fst s)" "dh_fixed_clients (fst s') = dh_fixed_clients (fst s)"
  using assms by (auto simp: discovery_attempt_def Let_def split: prod.splits sum.splits if_splits dest!: Discover_helper)

lemma worker_step_keeps:
  assumes "worker_step aws wk s = (wk', h, w)"
  shows "dh_nodes h = dh_nodes (fst s) \<and> dh_config h = dh_config (fst s) \<and> dh_fixed_clients h = dh_fixed_clients (fst s)"
  using assms
  by (auto simp: worker_step_def split: worker_point.splits attempt_result.splits prod.splits dest: discovery_attempt_keeps)

lemma Trigger_keeps:
  "Trigger_begin table h = Some h' \<Longrightarrow> dh_nodes h' = dh_nodes h \<and> dh_config h' = dh_config h \<and> dh_fixed_clients h' = dh_fixed_clients h"
  "Trigger_spawn aws table s = (h', w) \<Longrightarrow>
     dh_nodes h' = dh_nodes (fst s) \<and> dh_config h' = dh_config (fst s) \<and> dh_fixed_clients h' = dh_fixed_clients (fst s)"
  by (auto simp: Trigger_begin_def Trigger_spawn_def split: if_splits prod.splits bool.splits)

lemma discovery_step_keeps:
  assumes "discovery_step aws d d'"
  shows "dh_nodes (ds_helper d') = dh_nodes (ds_helper d) \<and> dh_config (ds_helper d') = dh_config (ds_helper d) \<and>
    dh_fixed_clients (ds_helper d') = dh_fixed_clients (ds_helper d)"
  using assms
proof (cases rule: discovery_step.cases)
  case (worked i wk h w)
  with worker_step_keeps[OF worked(3)] show ?thesis by simp
next
  case (worked_joining i wk h w)
  with worker_step_keeps[OF worked_joining(3)] show ?thesis by simp
qed (auto simp: Helper_SetPartitionKeyName_def WaitForPartitionKeyDiscovery_def dest: Trigger_keeps)

subsection \<open>Writes\<close>

text \<open>A trigger inside a write is two steps of the discovery.\<close>

lemma Trigger_discovery:
  assumes "discovery_inv (with_helper s d)"
  shows "discovery_inv (with_helper (TriggerPartitionKeyDiscovery aws table s) d)"
proof (cases "Trigger_begin table (fst s)")
  case None
  with assms show ?thesis by (simp add: TriggerPartitionKeyDiscovery_def)
next
  case (Some h)
  let ?d = "with_helper s d"
  let ?d1 = "?d\<lparr>ds_helper := h, ds_pending := table # ds_pending ?d\<rparr>"
  have "discovery_step aws ?d ?d1" by (rule discovery_step.noted) (simp add: with_helper_def Some)
  moreover obtain h2 w2 where t: "Trigger_spawn aws table (h, snd s) = (h2, w2)" by force
  have "discovery_step aws ?d1 (?d1\<lparr>ds_helper := h2, ds_pending := remove1 table (ds_pending ?d1), ds_world := w2\<rparr>)"
    by (rule discovery_step.spawned) (simp_all add: with_helper_def t)
  ultimately have "discovery_inv (?d1\<lparr>ds_helper := h2, ds_pending := remove1 table (ds_pending ?d1), ds_world := w2\<rparr>)"
    using assms discovery_step_inv by blast
  with Some t show ?thesis by (simp add: TriggerPartitionKeyDiscovery_def with_helper_def)
qed

text \<open>What a write does to the parts of a helper that are not its live nodes or clients.\<close>

definition undisturbed :: "('c, 'w) Discovery \<Rightarrow> ('c, 'w) helper_state \<Rightarrow> ('c, 'w) helper_state \<Rightarrow> bool" where
  "undisturbed d s s' \<longleftrightarrow> dh_config (fst s') = dh_config (fst s) \<and>
     (discovery_inv (with_helper s d) \<longrightarrow> discovery_inv (with_helper s' d))"

lemma undisturbed_refl [simp]: "undisturbed d s s"
  by (simp add: undisturbed_def)

lemma undisturbed_trans: "undisturbed d s s' \<Longrightarrow> undisturbed d s' s'' \<Longrightarrow> undisturbed d s s''"
  by (simp add: undisturbed_def)

lemma undisturbed_frame:
  "dh_config h' = dh_config h \<Longrightarrow> dh_in_progress h' = dh_in_progress h \<Longrightarrow> dh_workers h' = dh_workers h \<Longrightarrow>
     undisturbed d (h, w) (h', w')"
  by (simp add: undisturbed_def with_helper_def discovery_inv_def busy_tables_def)

lemma Trigger_undisturbed: "undisturbed d s (TriggerPartitionKeyDiscovery aws table s)"
proof -
  have "dh_config (fst (TriggerPartitionKeyDiscovery aws table s)) = dh_config (fst s)"
    by (auto simp: TriggerPartitionKeyDiscovery_def Trigger_begin_def Trigger_spawn_def split: option.splits if_splits prod.splits bool.splits)
  then show ?thesis unfolding undisturbed_def using Trigger_discovery by blast
qed

lemma Triggers_undisturbed: "undisturbed d s (fold (TriggerPartitionKeyDiscovery aws) tables s)"
proof (induction tables arbitrary: s)
  case (Cons table tables)
  show ?case using undisturbed_trans[OF Trigger_undisturbed Cons.IH] by simp
qed simp

lemma Default_undisturbed: "undisturbed d s (snd (DefaultQueryPlan aws s))"
  by (cases s) (auto simp: DefaultQueryPlan_def intro: undisturbed_frame split: prod.split)

lemma catch_undisturbed: "undisturbed d s (snd x) \<Longrightarrow> undisturbed d s (snd (catch_invalid_argument aws x))"
  by (auto simp: catch_invalid_argument_def intro: undisturbed_trans Default_undisturbed split: prod.split sum.split exn.split)

lemma PartitionKey_undisturbed: "undisturbed d s (snd (NewPartitionKeyQueryPlan aws values table s))"
  by (cases s) (auto simp: NewPartitionKeyQueryPlan_def
      intro: undisturbed_trans Trigger_undisturbed Default_undisturbed intro!: catch_undisturbed undisturbed_frame split: prod.split)

lemma BatchWrite_undisturbed: "undisturbed d s (snd (NewBatchWriteQueryPlan aws operations s))"
proof -
  obtain h w where t: "TriggerPartitionKeyDiscoveryForMissingMetadata aws operations s = (h, w)" by force
  then have u: "undisturbed d s (h, w)"
    unfolding TriggerPartitionKeyDiscoveryForMissingMetadata_def Let_def by (metis Triggers_undisturbed)
  obtain r st where q: "QueryPlanForBatchWrite LiveNodes_source operations (dh_partition_keys h) (dh_nodes h) = (r, st)" by force
  have "undisturbed d s (h\<lparr>dh_nodes := st\<rparr>, w)" by (rule undisturbed_trans[OF u undisturbed_frame]) simp_all
  with catch_undisturbed[of d s "(r, h\<lparr>dh_nodes := st\<rparr>, w)" aws] show ?thesis
    by (simp add: NewBatchWriteQueryPlan_def t q)
qed

lemma client_for_undisturbed: "undisturbed d s (snd x) \<Longrightarrow> undisturbed d s (snd (client_for aws x))"
proof -
  assume u: "undisturbed d s (snd x)"
  have new: "undisturbed d s' (snd (NewDynamoDBWithEndpointProvider aws p s'))" for p s'
    by (cases s') (auto simp: NewDynamoDBWithEndpointProvider_def Let_def intro: undisturbed_frame split: prod.split)
  have "undisturbed d s' (snd (NewDynamoDBForNode aws node s'))" for node s'
  proof -
    obtain client h w where c: "NewDynamoDBWithEndpointProvider aws (FixedEndpointProvider node) s' = (client, h, w)" by (metis prod_cases3)
    then have "undisturbed d s' (h, w)" using new[of s' "FixedEndpointProvider node"] by simp
    then show ?thesis
      by (auto simp: NewDynamoDBForNode_def c intro: undisturbed_trans[OF _ undisturbed_frame] split: option.split)
  qed
  with new u show ?thesis
    by (auto simp: client_for_def NewDynamoDBForQueryPlan_def NewDynamoDB_def intro: undisturbed_trans split: prod.split sum.split)
qed

lemma write_undisturbed: "undisturbed d s (snd (write_client aws request s))"
proof -
  have "undisturbed d s (snd (PartitionKeyQueryPlanFor aws vs table s))" for vs table
    by (simp add: PartitionKeyQueryPlanFor_def Let_def PartitionKey_undisturbed split: sum.split)
  then show ?thesis
    by (cases request)
      (auto simp: PutItem_client_def UpdateItem_client_def DeleteItem_client_def BatchWriteItem_client_def
        PutItemQueryPlanFor_def UpdateItemQueryPlanFor_def DeleteItemQueryPlanFor_def BatchWriteItemQueryPlanFor_def Let_def
        Default_undisturbed BatchWrite_undisturbed intro!: client_for_undisturbed)
qed

lemma new_client_helper: "NewDynamoDBWithEndpointProvider aws p (h, w) = (client, h', w') \<Longrightarrow> h' = h"
  by (auto simp: NewDynamoDBWithEndpointProvider_def Let_def split: prod.splits)

lemma client_for_keys:
  assumes "plan_covers H s (r, h, w)"
  shows "fst ` set (dh_fixed_clients (fst (snd (client_for aws (r, h, w))))) \<subseteq> fst ` set (dh_fixed_clients h) \<union>
    set (LiveNodes_GetActiveNodes (dh_nodes (fst s))) \<union> set (LiveNodes_GetQuarantinedNodes (dh_nodes (fst s)))"
proof -
  obtain plan us where p: "r = Inr plan" "DrainPlan plan = Inr us" "covers (dh_nodes (fst s)) us"
    using assms by (auto simp: plan_covers_def)
  obtain node plan' where n: "QueryPlan_Next plan = Inr (node, plan')" "if Url_Empty node then us = [] else \<exists>vs. us = node # vs"
    using DrainPlan_head[OF p(2)] by blast
  obtain c1 h1 w1 where new: "NewDynamoDB aws (h, w) = (c1, h1, w1)" by (metis prod_cases3)
  obtain c2 h2 w2 where fixed: "NewDynamoDBWithEndpointProvider aws (FixedEndpointProvider node) (h, w) = (c2, h2, w2)" by (metis prod_cases3)
  have "h1 = h" "h2 = h" using new_client_helper[OF new[unfolded NewDynamoDB_def]] new_client_helper[OF fixed] by simp_all
  moreover have "node \<in> set (LiveNodes_GetActiveNodes (dh_nodes (fst s))) \<union> set (LiveNodes_GetQuarantinedNodes (dh_nodes (fst s)))"
    if "\<not> Url_Empty node" using n(2) that p(3) by (auto simp: covers_def)
  ultimately show ?thesis
    using n(1) new fixed p(1)
    by (auto simp: client_for_def NewDynamoDBForQueryPlan_def NewDynamoDBForNode_def split: option.splits dest!: set_map_emplace)
qed

fun write_plan :: "('c, 'w) AwsEnv \<Rightarrow> AwsWrite \<Rightarrow> ('c, 'w) helper_state \<Rightarrow> QueryPlan result \<times> ('c, 'w) helper_state" where
  "write_plan aws (Write_Put request) s = PutItemQueryPlanFor aws request s"
| "write_plan aws (Write_Update request) s = UpdateItemQueryPlanFor aws request s"
| "write_plan aws (Write_Delete request) s = DeleteItemQueryPlanFor aws request s"
| "write_plan aws (Write_Batch request) s = BatchWriteItemQueryPlanFor aws request s"

lemma write_client_ok:
  assumes "ln_inv H (dh_nodes h)" "provider_ok aws provider" "clients_ok provider h"
  shows "client_ok H provider (dh_nodes h) (write_client aws request (h, w))"
    "fst ` set (dh_fixed_clients (fst (snd (write_client aws request (h, w))))) \<subseteq>
      fst ` set (dh_fixed_clients h) \<union> set (LiveNodes_GetActiveNodes (dh_nodes h)) \<union> set (LiveNodes_GetQuarantinedNodes (dh_nodes h))"
proof -
  have inv: "ln_inv H (dh_nodes (fst (h, w)))" using assms(1) by simp
  define x where "x = write_plan aws request (h, w)"
  have x: "plan_covers H (h, w) x" "dh_fixed_clients (fst (snd x)) = dh_fixed_clients h" "write_client aws request (h, w) = client_for aws x"
    using write_plans[OF inv, of aws]
    by (cases request; simp add: x_def PutItem_client_def UpdateItem_client_def DeleteItem_client_def BatchWriteItem_client_def)+
  obtain r h1 w1 where e: "x = (r, h1, w1)" by (metis prod_cases3)
  show "client_ok H provider (dh_nodes h) (write_client aws request (h, w))"
    using client_for_ok[OF x(1) assms(2)] assms(3) x(2,3) by simp
  show "fst ` set (dh_fixed_clients (fst (snd (write_client aws request (h, w))))) \<subseteq>
      fst ` set (dh_fixed_clients h) \<union> set (LiveNodes_GetActiveNodes (dh_nodes h)) \<union> set (LiveNodes_GetQuarantinedNodes (dh_nodes h))"
    using client_for_keys[of H "(h, w)" r h1 w1 aws] x e by simp
qed

lemma helper_ok_write:
  assumes "helper_ok H provider config (bg, d)" "provider_ok aws provider"
    and "write_client aws request (ds_helper d, ds_world d) = (r, s)"
  shows "helper_ok H provider config (bg, with_helper s d)"
proof -
  let ?h = "ds_helper d"
  have ok: "ln_inv H (dh_nodes ?h)" "ln_config (dh_nodes ?h) = config" "dh_config ?h = config" "clients_ok provider ?h"
    "fst ` set (dh_fixed_clients ?h) \<subseteq> node_of config ` H" "discovery_inv d" "bg_inv bg"
    using assms(1) by (simp_all add: helper_ok_def Let_def)
  note c = write_client_ok[OF ok(1) assms(2) ok(4), of request "ds_world d", unfolded assms(3)]
  have "undisturbed d (?h, ds_world d) s" using write_undisturbed[of d "(?h, ds_world d)" aws request] assms(3) by simp
  then have "dh_config (fst s) = config" "discovery_inv (with_helper s d)"
    using ok(3,6) by (simp_all add: undisturbed_def with_helper_def)
  moreover have "ln_inv H (dh_nodes (fst s))" "ln_config (dh_nodes (fst s)) = config" "clients_ok provider (fst s)"
    using c(1) ok(2) by (auto simp: client_ok_def same_nodes_def split: prod.splits)
  moreover have "fst ` set (dh_fixed_clients (fst s)) \<subseteq> node_of config ` H"
  proof -
    have "set (LiveNodes_GetActiveNodes (dh_nodes ?h)) \<union> set (LiveNodes_GetQuarantinedNodes (dh_nodes ?h)) \<subseteq> node_of config ` H"
      using ln_inv_lists(1)[OF ok(1)] ok(2) by (simp add: nodes_of_def)
    with c(2) ok(5) show ?thesis unfolding fst_conv snd_conv by blast
  qed
  ultimately show ?thesis using ok(7) by (simp add: helper_ok_def with_helper_def)
qed

text \<open>Every write is sent, through a client that passes the checks above.\<close>

lemma send_write_sent:
  assumes "client_ok H provider st x"
  obtains client s where "x = (Inr client, s)"
    "send_write A send handlers request x = send client request (AttachNodeErrorReporter A True handlers) s"
  using assms by (cases x) (auto simp: client_ok_def send_write_def split: prod.splits)

subsection \<open>Attempts\<close>

lemma plain_urls:
  assumes "plain_request A q"
  shows "\<not> Url_Empty (UrlFromAwsUri A q) \<Longrightarrow> node_url (UrlFromAwsUri A q)" "\<not> Url_Empty (SignedHandler A q) \<Longrightarrow> node_url (SignedHandler A q)"
  using assms by (auto simp: UrlFromAwsUri_def SignedHandler_def plain_request_def node_url_def Let_def)

lemma SelectAttemptNode_kept:
  assumes "ln_inv H st" "case request of None \<Rightarrow> True | Some q \<Rightarrow> plain_request A q"
    and "SelectAttemptNode A env port request (st, w) = (r, request', st', w')"
  shows "kept H st st'" "r = Inr u \<Longrightarrow> \<not> Url_Empty u \<Longrightarrow> node_url u"
proof -
  obtain x st1 w1 where n: "NextNode env (st, w) = (x, st1, w1)" by (metis prod_cases3)
  show "kept H st st'" using assms kept_NextNode[OF assms(1) n] n
    by (auto simp: SelectAttemptNode_def Let_def split: option.splits if_splits sum.splits)
  show "node_url u" if "r = Inr u" "\<not> Url_Empty u"
    using assms(2,3) n that NextNode_node(2)[OF assms(1)] plain_urls(1)
    by (auto simp: SelectAttemptNode_def Let_def split: option.splits if_splits sum.splits)
qed

lemma MakeRequest_kept:
  assumes "ln_inv H st" "case request of None \<Rightarrow> True | Some q \<Rightarrow> plain_request A q"
    and "MakeRequest A env delegate c request (st, w) = (r, sent, st', w')"
  shows "kept H st st'"
proof -
  obtain x request1 st1 w1 where sel: "SelectAttemptNode A env (hc_endpoint_override_port c) request (st, w) = (x, request1, st1, w1)"
    by (metis prod_cases4)
  note k = SelectAttemptNode_kept[OF assms(1,2) sel]
  have "st' = st1 \<or> (\<exists>u t obs. x = Inr u \<and> \<not> Url_Empty u \<and> st' = LiveNodes_ReportNodeResult t u obs st1)"
    using assms(3) sel
    by (auto simp: MakeRequest_def split: sum.splits prod.splits if_splits)
  then show ?thesis using k kept_trans[OF k(1) kept_Report[OF keptD[OF k(1)]]] by blast
qed

lemma RetryHandler_kept: "ln_inv H st \<Longrightarrow> plain_request A q \<Longrightarrow> kept H st (RetryHandler t (SignedHandler A q) st)"
  using plain_urls(2)[of A q] by (auto simp: RetryHandler_def intro: kept_Report)

section \<open>Properties\<close>

lemma helper_ok_step:
  assumes "helper_step A env aws x y" "env_ok H env" "provider_ok aws provider" "helper_ok H provider config x"
  shows "helper_ok H provider config y"
  using assms(1)
proof (cases rule: helper_step.cases)
  case (live a bg d bg' s)
  have ok: "ln_inv H (dh_nodes (ds_helper d))" "bg_inv bg" using assms(4) live(1) by (simp_all add: helper_ok_def Let_def)
  obtain st w where s: "s = (st, w)" by force
  have "kept H (dh_nodes (ds_helper d)) (fst s)" using kept_sys_step[OF assms(2) live(3)[unfolded s] ok(1)] s by simp
  moreover have "bg_inv bg'" using bg_inv_step[OF live(3)] ok(2) by simp
  ultimately show ?thesis using helper_ok_nodes assms(4) live(1,2) by blast
next
  case (discovering d d' bg)
  with assms(4) discovery_step_inv[OF discovering(3)] discovery_step_keeps[OF discovering(3)] show ?thesis
    by (simp add: helper_ok_def clients_ok_def Let_def)
next
  case (writing request d r s bg)
  then show ?thesis using helper_ok_write[OF _ assms(3)] assms(4) by blast
next
  case (attempting request delegate c d r sent s bg)
  obtain st w where s: "s = (st, w)" by force
  have ok: "ln_inv H (dh_nodes (ds_helper d))" "bg_inv bg" using assms(4) attempting(1) by (simp_all add: helper_ok_def Let_def)
  have "kept H (dh_nodes (ds_helper d)) (fst s)" using MakeRequest_kept[OF ok(1) attempting(3) attempting(4)[unfolded s]] s by simp
  then show ?thesis using helper_ok_nodes ok(2) assms(4) attempting(1,2) by blast
next
  case (retrying q bg d)
  have ok: "ln_inv H (dh_nodes (ds_helper d))" "bg_inv bg" using assms(4) retrying(1) by (simp_all add: helper_ok_def Let_def)
  let ?s = "(RetryHandler (env_now env (ds_world d)) (SignedHandler A q) (dh_nodes (ds_helper d)), ds_world d)"
  have "kept H (dh_nodes (ds_helper d)) (fst ?s)" using RetryHandler_kept[OF ok(1) retrying(3)] by simp
  then show ?thesis using helper_ok_nodes ok(2) assms(4) retrying(1,2) by blast
next
  case (stopping bg d)
  moreover have "bg_inv (LiveNodes_Stop_request bg)" if "bg_inv bg"
    using that by (auto simp: bg_inv_def LiveNodes_Stop_request_def)
  ultimately show ?thesis
    using assms(4) by (auto simp: destructor_stop_def Helper_Stop_request_def helper_ok_def Let_def split: if_splits)
qed


definition demo_cloud :: "(EndpointProvider, int) AwsEnv" where
  "demo_cloud =
     \<lparr>aws_DynamoDBClient = (\<lambda>credentials provider config w. (provider, w)),
      aws_DescribeTable = (\<lambda>client table w. (Inr (Describe_Error ''busy''), w)),
      aws_thread = (\<lambda>w. (True, w)), aws_sleep_for = (\<lambda>t w. w), aws_seed = (\<lambda>w. 5)\<rparr>"


end
